(* ===== verification/Prelude.thy ===== *)
theory Prelude
  imports Main "HOL-Library.AList" "HOL-Library.Word" "HOL-Library.Multiset"
    "HOL-Library.Char_ord" "HOL-Library.List_Lexorder" "HOL-Library.Signed_Division"
begin

text \<open>
  What the component theories share: Go's maps, strings and 64-bit integers, and two
  interfaces (a keyed store, and a transition system with an invariant).

  A Go map is an association list with at most one pair per key (\<open>wf_map\<close>). Go leaves the
  iteration order of a map open; here it is the order of the list, and wherever the code
  depends on it (a \<open>range\<close> loop that returns its first key) the choice is made by a number
  \<open>r\<close> over which every statement is universally quantified, so each key the code could
  pick is picked for some \<open>r\<close>.
\<close>

named_theorems go_map \<comment> \<open>equations of the map operations\<close>
named_theorems wf_intros \<comment> \<open>what keeps a map well formed\<close>

section \<open>Go maps\<close>

type_synonym ('k, 'v) gomap = "('k \<times> 'v) list"

definition wf_map :: "('k, 'v) gomap \<Rightarrow> bool" where
  "wf_map m \<longleftrightarrow> distinct (map fst m)"

definition mput :: "'k \<Rightarrow> 'v \<Rightarrow> ('k, 'v) gomap \<Rightarrow> ('k, 'v) gomap" where
  "mput k v m = AList.update k v m"

definition mdel :: "'k \<Rightarrow> ('k, 'v) gomap \<Rightarrow> ('k, 'v) gomap" where
  "mdel k m = AList.delete k m"

text \<open>Reading a missing key yields the zero value of the element type, \<open>z\<close>.\<close>

definition mget :: "'v \<Rightarrow> ('k, 'v) gomap \<Rightarrow> 'k \<Rightarrow> 'v" where
  "mget z m k = (case map_of m k of None \<Rightarrow> z | Some v \<Rightarrow> v)"

definition mkeys :: "('k, 'v) gomap \<Rightarrow> 'k list" where
  "mkeys m = map fst m"

definition mhas :: "('k, 'v) gomap \<Rightarrow> 'k \<Rightarrow> bool" where
  "mhas m k \<longleftrightarrow> map_of m k \<noteq> None"

lemma map_of_mput [simp, go_map]: "map_of (mput k v m) = (map_of m)(k \<mapsto> v)"
  by (simp add: mput_def AList.update_conv')

lemma map_of_mdel [simp, go_map]: "map_of (mdel k m) = (map_of m)(k := None)"
  by (simp add: mdel_def AList.delete_conv')

lemma wf_map_Nil [simp, wf_intros]: "wf_map []"
  by (simp add: wf_map_def)

lemma wf_map_mput [wf_intros]: "wf_map m \<Longrightarrow> wf_map (mput k v m)"
  by (simp add: wf_map_def mput_def AList.distinct_update)

lemma wf_map_mdel [wf_intros]: "wf_map m \<Longrightarrow> wf_map (mdel k m)"
  by (simp add: wf_map_def mdel_def AList.distinct_delete)

lemma mget_mput [simp, go_map]: "mget z (mput k v m) k' = (if k' = k then v else mget z m k')"
  by (simp add: mget_def)

lemma mget_mdel [simp, go_map]: "mget z (mdel k m) k' = (if k' = k then z else mget z m k')"
  by (simp add: mget_def)

lemma mget_Nil [simp, go_map]: "mget z [] k = z"
  by (simp add: mget_def)

lemma mhas_mput [simp, go_map]: "mhas (mput k v m) k' \<longleftrightarrow> k' = k \<or> mhas m k'"
  by (simp add: mhas_def)

lemma mhas_mdel [simp, go_map]: "mhas (mdel k m) k' \<longleftrightarrow> k' \<noteq> k \<and> mhas m k'"
  by (simp add: mhas_def)

lemma mhas_Nil [simp, go_map]: "\<not> mhas [] k"
  by (simp add: mhas_def)

lemma mhas_iff_mkeys: "mhas m k \<longleftrightarrow> k \<in> set (mkeys m)"
  by (simp add: mhas_def mkeys_def map_of_eq_None_iff)

lemma set_mkeys: "set (mkeys m) = dom (map_of m)"
  by (simp add: mkeys_def dom_map_of_conv_image_fst)

lemma length_mkeys [simp]: "length (mkeys m) = length m"
  by (simp add: mkeys_def)

lemma mkeys_Nil [simp]: "mkeys [] = []"
  by (simp add: mkeys_def)

lemma mkeys_eq_Nil [simp]: "mkeys m = [] \<longleftrightarrow> m = []"
  by (simp add: mkeys_def)

lemma distinct_mkeys: "wf_map m \<Longrightarrow> distinct (mkeys m)"
  by (simp add: wf_map_def mkeys_def)

lemma length_eq_card_dom: "wf_map m \<Longrightarrow> length m = card (dom (map_of m))"
  by (metis distinct_card distinct_mkeys length_mkeys set_mkeys)

lemma map_of_Some_iff: "wf_map m \<Longrightarrow> map_of m k = Some v \<longleftrightarrow> (k, v) \<in> set m"
  by (simp add: wf_map_def)

lemma mput_not_Nil [simp]: "mput k v m \<noteq> []"
  by (simp add: mput_def)

lemma mdel_eq_Nil: "mdel k m = [] \<longleftrightarrow> (\<forall>k'. k' \<noteq> k \<longrightarrow> map_of m k' = None)"
proof -
  have "mdel k m = [] \<longleftrightarrow> map_of (mdel k m) = Map.empty"
    by (simp del: map_of_mdel)
  also have "\<dots> \<longleftrightarrow> (map_of m)(k := None) = Map.empty"
    by (simp only: map_of_mdel)
  finally show ?thesis by (auto simp: fun_eq_iff)
qed

lemma set_mput_subset: "(k', v') \<in> set (mput k v m) \<Longrightarrow> (k' = k \<and> v' = v) \<or> (k', v') \<in> set m"
  unfolding mput_def by (induction m) (auto split: if_splits)

lemma set_mdel: "set (mdel k m) = {p \<in> set m. fst p \<noteq> k}"
  by (auto simp: mdel_def AList.delete_eq)

lemma length_mput:
  "length (mput k v m) = (if mhas m k then length m else Suc (length m))"
  unfolding mput_def mhas_def by (induction m) (auto split: if_splits)

lemma length_mdel:
  assumes "wf_map m"
  shows "length (mdel k m) = (if mhas m k then length m - 1 else length m)"
proof -
  have "length (mdel k m) = card (dom ((map_of m)(k := None)))"
    using length_eq_card_dom [OF wf_map_mdel [OF assms]] by simp
  also have "\<dots> = card (dom (map_of m) - {k})"
    by (simp add: dom_fun_upd)
  finally show ?thesis
    using assms by (auto simp: mhas_def length_eq_card_dom card_Diff_singleton finite_dom_map_of dom_def)
qed

section \<open>The first key a range loop yields\<close>

definition range_first :: "nat \<Rightarrow> 'a list \<Rightarrow> 'a option" where
  "range_first r ks = (if ks = [] then None else Some (ks ! (r mod length ks)))"

lemma range_first_None [simp]: "range_first r ks = None \<longleftrightarrow> ks = []"
  by (simp add: range_first_def)

lemma range_first_Some: "range_first r ks = Some k \<Longrightarrow> k \<in> set ks"
  by (auto simp: range_first_def split: if_splits)

lemma range_first_any: "k \<in> set ks \<Longrightarrow> \<exists>r. range_first r ks = Some k"
  by (metis emptyE in_set_conv_nth list.set(1) mod_less range_first_def)

section \<open>Strings\<close>

definition has_prefix :: "string \<Rightarrow> string \<Rightarrow> bool" where
  "has_prefix p s \<longleftrightarrow> take (length p) s = p"

text \<open>\<^verbatim>\<open>strings.TrimPrefix\<close>: at most one leading occurrence is removed.\<close>

definition trim_prefix :: "string \<Rightarrow> string \<Rightarrow> string" where
  "trim_prefix p s = (if has_prefix p s then drop (length p) s else s)"

lemma trim_prefix_id [simp]: "\<not> has_prefix p s \<Longrightarrow> trim_prefix p s = s"
  by (simp add: trim_prefix_def)

lemma has_prefix_append [simp]: "has_prefix p (p @ s)"
  by (simp add: has_prefix_def)

lemma trim_prefix_append [simp]: "trim_prefix p (p @ s) = s"
  by (simp add: trim_prefix_def)

lemma has_prefixE: "has_prefix p s \<Longrightarrow> \<exists>t. s = p @ t"
  by (metis append_take_drop_id has_prefix_def)

text \<open>\<^verbatim>\<open>strings.Split(s, sep)\<close> for a one-byte separator: never empty, and the pieces joined
  by the separator are \<open>s\<close> again.\<close>

abbreviation newline :: char where "newline \<equiv> CHR 0x0A"

fun split_on :: "char \<Rightarrow> string \<Rightarrow> string list" where
  "split_on c [] = [[]]"
| "split_on c (x # xs) =
     (if x = c then [] # split_on c xs
      else (case split_on c xs of [] \<Rightarrow> [[x]] | w # ws \<Rightarrow> (x # w) # ws))"

fun join_with :: "string \<Rightarrow> string list \<Rightarrow> string" where
  "join_with sep [] = []"
| "join_with sep [w] = w"
| "join_with sep (w # v # ws) = w @ sep @ join_with sep (v # ws)"

lemma split_on_not_Nil [simp]: "split_on c s \<noteq> []"
  by (induction s) (auto split: list.splits)

lemma join_with_Cons: "ws \<noteq> [] \<Longrightarrow> join_with sep (w # ws) = w @ sep @ join_with sep ws"
  by (cases ws) auto

lemma join_split_on: "join_with [c] (split_on c s) = s"
proof (induction s)
  case (Cons x xs)
  obtain w ws where sp: "split_on c xs = w # ws"
    by (cases "split_on c xs") auto
  then show ?case
    using Cons by (cases ws) (auto simp: join_with_Cons)
qed simp

lemma split_on_first: "c \<notin> set l \<Longrightarrow> split_on c (l @ c # s) = l # split_on c s"
  by (induction l) auto

lemma split_on_pieces: "w \<in> set (split_on c s) \<Longrightarrow> c \<notin> set w"
  by (induction s arbitrary: w) (auto split: if_splits list.splits)

section \<open>64-bit integers\<close>

text \<open>Go's \<open>int\<close>, \<open>int64\<close> and \<open>time.Duration\<close> are 64 bits wide. Values are kept as \<open>int\<close>;
  where a sum or product can leave the range, \<open>wrap64\<close> is written out.\<close>

abbreviation max_int64 :: int where "max_int64 \<equiv> 9223372036854775807"
abbreviation min_int64 :: int where "min_int64 \<equiv> - 9223372036854775808"

definition wrap64 :: "int \<Rightarrow> int" where
  "wrap64 x = sint (word_of_int x :: 64 word)"

lemma wrap64_id: "min_int64 \<le> x \<Longrightarrow> x \<le> max_int64 \<Longrightarrow> wrap64 x = x"
  by (simp add: wrap64_def sint_sbintrunc' signed_take_bit_int_eq_self)

lemma wrap64_code [code]: "wrap64 x = (x + 9223372036854775808) mod 18446744073709551616 - 9223372036854775808"
  by (simp add: wrap64_def sint_sbintrunc' signed_take_bit_eq_take_bit_shift take_bit_eq_mod)

lemma wrap64_range: "min_int64 \<le> wrap64 x \<and> wrap64 x \<le> max_int64"
  using sint_ge [of "word_of_int x :: 64 word"] sint_lt [of "word_of_int x :: 64 word"]
  by (simp add: wrap64_def)

text \<open>Nanoseconds, the unit of \<^verbatim>\<open>time.Duration\<close>.\<close>

abbreviation second :: int where "second \<equiv> 1000000000"
abbreviation minute :: int where "minute \<equiv> 60000000000"

text \<open>\<^verbatim>\<open>uint(uid) & (256-1)\<close>, the shard of a user id.\<close>

definition shard_of :: "int \<Rightarrow> nat" where
  "shard_of uid = unat (and (word_of_int uid :: 64 word) 255)"

lemma shard_of_mod [code]: "shard_of uid = nat (uid mod 256)"
proof -
  have "(255 :: 64 word) = mask 8"
    by (simp add: mask_eq_exp_minus_1)
  then have *: "and (word_of_int uid :: 64 word) 255 = take_bit 8 (word_of_int uid)"
    by (simp only: take_bit_eq_mask)
  have "int (shard_of uid) = uint (take_bit 8 (word_of_int uid :: 64 word))"
    unfolding shard_of_def * by simp
  also have "\<dots> = take_bit 8 (take_bit 64 uid)"
    by (simp only: unsigned_take_bit_eq uint_word_of_int_eq len_of_numeral_defs) simp
  also have "\<dots> = uid mod 256"
    by (simp add: take_bit_take_bit) (simp add: take_bit_eq_mod)
  finally show ?thesis by simp
qed

lemma shard_of_less [simp]: "shard_of uid < 256"
  by (simp add: shard_of_mod nat_less_iff)

section \<open>Decimal numbers: \<^verbatim>\<open>strconv.Itoa\<close> and \<^verbatim>\<open>strconv.Atoi\<close>\<close>

definition digit_char :: "nat \<Rightarrow> char" where
  "digit_char n = char_of (48 + n)"

definition digit_val :: "char \<Rightarrow> nat" where
  "digit_val c = of_char c - 48"

definition is_digit :: "char \<Rightarrow> bool" where
  "is_digit c \<longleftrightarrow> 48 \<le> (of_char c :: nat) \<and> (of_char c :: nat) \<le> 57"

fun nat_digits :: "nat \<Rightarrow> string" where
  "nat_digits n = (if n < 10 then [digit_char n] else nat_digits (n div 10) @ [digit_char (n mod 10)])"

declare nat_digits.simps [simp del]

definition itoa :: "int \<Rightarrow> string" where
  "itoa i = (if i < 0 then CHR ''-'' # nat_digits (nat (- i)) else nat_digits (nat i))"

fun digits_val :: "nat \<Rightarrow> string \<Rightarrow> nat" where
  "digits_val a [] = a"
| "digits_val a (c # cs) = digits_val (10 * a + digit_val c) cs"

text \<open>\<^verbatim>\<open>Atoi\<close> returns a value beside its error: 0 for a syntax error, the nearest bound of
  the range for a value out of range. Code that ignores the error goes on with that value.\<close>

datatype num_error = ErrSyntax | ErrRange

definition atoi_sign :: "string \<Rightarrow> bool \<times> string" where
  "atoi_sign s = (case s of [] \<Rightarrow> (False, [])
     | c # cs \<Rightarrow> if c = CHR ''-'' then (True, cs) else if c = CHR ''+'' then (False, cs) else (False, s))"

text \<open>\<^verbatim>\<open>ParseUint\<close> in base 10: the digits are read from the left, and the first character that is no
  digit or the first overflow of 64 bits decides the error.\<close>

abbreviation max_uint64 :: int where "max_uint64 \<equiv> 18446744073709551615"

fun parse_digits :: "int \<Rightarrow> string \<Rightarrow> (num_error \<times> int) + int" where
  "parse_digits n [] = Inr n"
| "parse_digits n (c # cs) =
     (if \<not> is_digit c then Inl (ErrSyntax, 0)
      else if 10 * n + int (digit_val c) > max_uint64 then Inl (ErrRange, max_uint64)
      else parse_digits (10 * n + int (digit_val c)) cs)"

definition parse_uint :: "string \<Rightarrow> (num_error \<times> int) + int" where
  "parse_uint s = (if s = [] then Inl (ErrSyntax, 0) else parse_digits 0 s)"

definition atoi :: "string \<Rightarrow> (num_error \<times> int) + int" where
  "atoi s = (let (neg, ds) = atoi_sign s in
     case parse_uint ds of
       Inl (ErrSyntax, v) \<Rightarrow> Inl (ErrSyntax, 0)
     | Inl (ErrRange, v) \<Rightarrow> Inl (ErrRange, if neg then min_int64 else max_int64)
     | Inr n \<Rightarrow>
         (if neg then (if n > 9223372036854775808 then Inl (ErrRange, min_int64) else Inr (- n))
          else (if n > max_int64 then Inl (ErrRange, max_int64) else Inr n)))"

lemma of_char_digit_char [simp]: "n < 10 \<Longrightarrow> of_char (digit_char n) = (48 + n :: nat)"
  by (simp add: digit_char_def)

lemma is_digit_digit_char [simp]: "n < 10 \<Longrightarrow> is_digit (digit_char n)"
  by (simp add: is_digit_def)

lemma digit_val_digit_char [simp]: "n < 10 \<Longrightarrow> digit_val (digit_char n) = n"
  by (simp add: digit_val_def)

lemma digits_val_append: "digits_val a (xs @ ys) = digits_val (digits_val a xs) ys"
  by (induction xs arbitrary: a) auto

lemma digits_val_nat_digits: "digits_val 0 (nat_digits n) = n"
proof (induction n rule: nat_digits.induct)
  case (1 n)
  show ?case
  proof (cases "n < 10")
    case True
    then show ?thesis by (simp add: nat_digits.simps [of n])
  next
    case False
    with 1 show ?thesis by (simp add: nat_digits.simps [of n] digits_val_append)
  qed
qed

lemma nat_digits_digits: "list_all is_digit (nat_digits n) \<and> nat_digits n \<noteq> []"
proof (induction n rule: nat_digits.induct)
  case (1 n)
  then show ?case by (cases "n < 10") (simp_all add: nat_digits.simps [of n])
qed

lemma digits_val_ge: "n \<le> digits_val n ds"
proof (induction ds arbitrary: n)
  case (Cons c cs)
  have "n \<le> 10 * n + digit_val c" by simp
  also have "\<dots> \<le> digits_val (10 * n + digit_val c) cs" by (rule Cons.IH)
  finally show ?case by simp
qed simp

lemma parse_digits_digits:
  "list_all is_digit ds \<Longrightarrow> int (digits_val n ds) \<le> max_uint64 \<Longrightarrow> parse_digits (int n) ds = Inr (int (digits_val n ds))"
proof (induction ds arbitrary: n)
  case (Cons c cs)
  have "int (10 * n + digit_val c) \<le> max_uint64"
    using Cons.prems(2) digits_val_ge [of "10 * n + digit_val c" cs] by simp
  with Cons.IH [of "10 * n + digit_val c"] Cons.prems show ?case by simp
qed simp

lemma parse_uint_nat_digits: "int n \<le> max_uint64 \<Longrightarrow> parse_uint (nat_digits n) = Inr (int n)"
  using nat_digits_digits [of n] parse_digits_digits [of "nat_digits n" 0]
  by (simp add: parse_uint_def digits_val_nat_digits)

lemma parse_digits_bounds: "parse_digits n ds = Inr v \<Longrightarrow> 0 \<le> n \<Longrightarrow> n \<le> max_uint64 \<Longrightarrow> 0 \<le> v \<and> v \<le> max_uint64"
  by (induction ds arbitrary: n) (auto split: if_splits)

lemma not_is_digit_sign [simp]: "\<not> is_digit CHR ''-''" "\<not> is_digit CHR ''+''"
  by (simp_all add: is_digit_def)

lemma atoi_sign_nat_digits: "atoi_sign (nat_digits n) = (False, nat_digits n)"
  using nat_digits_digits [of n] by (cases "nat_digits n") (auto simp: atoi_sign_def)

lemma atoi_sign_Cons_minus [simp]: "atoi_sign (CHR ''-'' # cs) = (True, cs)"
  by (simp add: atoi_sign_def)

lemma atoi_itoa: "min_int64 \<le> i \<Longrightarrow> i \<le> max_int64 \<Longrightarrow> atoi (itoa i) = Inr i"
  by (auto simp: atoi_def itoa_def atoi_sign_nat_digits parse_uint_nat_digits)

lemma itoa_inject: "itoa i = itoa j \<Longrightarrow> i = j"
proof -
  have sgn: "atoi_sign (itoa i) = (i < 0, nat_digits (nat \<bar>i\<bar>))" for i
    by (simp add: itoa_def atoi_sign_nat_digits)
  assume "itoa i = itoa j"
  then have "(i < 0, nat_digits (nat \<bar>i\<bar>)) = (j < 0, nat_digits (nat \<bar>j\<bar>))"
    by (metis sgn)
  then have "(i < 0) = (j < 0)" "nat \<bar>i\<bar> = nat \<bar>j\<bar>"
    by (auto dest: arg_cong [of _ _ "digits_val 0"] simp: digits_val_nat_digits)
  then show "i = j" by (auto split: if_splits)
qed

lemma atoi_range: "atoi s = Inr i \<Longrightarrow> min_int64 \<le> i \<and> i \<le> max_int64"
  by (auto simp: atoi_def parse_uint_def Let_def split: prod.splits sum.splits num_error.splits if_splits
      dest!: parse_digits_bounds)

section \<open>A keyed store\<close>

text \<open>
  What the components rely on when they keep state in a Go map or a \<^verbatim>\<open>sync.Map\<close>: a lookup
  after a store or a removal. The lemmas proved from these laws are about the loops that
  fill and empty such stores.
\<close>

locale keyed_store =
  fixes lookup :: "'m \<Rightarrow> 'k \<Rightarrow> 'v option"
    and store :: "'k \<Rightarrow> 'v \<Rightarrow> 'm \<Rightarrow> 'm"
    and remove :: "'k \<Rightarrow> 'm \<Rightarrow> 'm"
    and valid :: "'m \<Rightarrow> bool"
  assumes lookup_store: "valid m \<Longrightarrow> lookup (store k v m) k' = (if k' = k then Some v else lookup m k')"
    and lookup_remove: "valid m \<Longrightarrow> lookup (remove k m) k' = (if k' = k then None else lookup m k')"
    and valid_store: "valid m \<Longrightarrow> valid (store k v m)"
    and valid_remove: "valid m \<Longrightarrow> valid (remove k m)"
begin

lemma valid_store_all: "valid m \<Longrightarrow> valid (fold (\<lambda>x. store (f x) (g x)) xs m)"
  by (induction xs arbitrary: m) (auto intro: valid_store)

lemma valid_remove_all: "valid m \<Longrightarrow> valid (fold (\<lambda>x. remove (f x)) xs m)"
  by (induction xs arbitrary: m) (auto intro: valid_remove)

lemma lookup_store_all:
  "valid m \<Longrightarrow> lookup (fold (\<lambda>x. store (f x) (g x)) xs m) k =
     (case map_of (rev (map (\<lambda>x. (f x, g x)) xs)) k of Some v \<Rightarrow> Some v | None \<Rightarrow> lookup m k)"
  by (induction xs arbitrary: m) (auto simp: lookup_store valid_store map_add_def split: option.splits)

lemma lookup_remove_all:
  "valid m \<Longrightarrow> lookup (fold (\<lambda>x. remove (f x)) xs m) k = (if k \<in> f ` set xs then None else lookup m k)"
  by (induction xs arbitrary: m) (auto simp: lookup_remove valid_remove)

end

interpretation gm: keyed_store map_of mput mdel wf_map
  by unfold_locales (auto intro: wf_intros)

section \<open>Transition systems with an invariant\<close>

text \<open>
  The contract of a component that is a state machine: a step relation and a predicate
  that every step keeps. It then holds in every state the steps reach.
\<close>

locale kept_by_steps =
  fixes step :: "'s \<Rightarrow> 's \<Rightarrow> bool"
    and inv :: "'s \<Rightarrow> bool"
  assumes step_keeps: "step s t \<Longrightarrow> inv s \<Longrightarrow> inv t"
begin

lemma reach_keeps: "step\<^sup>*\<^sup>* s t \<Longrightarrow> inv s \<Longrightarrow> inv t"
  by (induction rule: rtranclp_induct) (auto intro: step_keeps)

end

end
