(* ===== verification/Json5.thy ===== *)
theory Json5
  imports Prelude
begin

text \<open>
  The comment and trailing-comma remover of \<^verbatim>\<open>common/json5/json5.go\<close>, through which every
  configuration file is read. The Go code overwrites bytes of one buffer in place and moves
  an index over it; \<open>blank_line\<close>, \<open>blank_block\<close>, \<open>consume_comment\<close>, \<open>skip_string\<close>,
  \<open>comma_loop\<close> and \<open>prep_loop\<close> are its loops, buffer and index included. \<open>clean\<close> is a
  reference written by recursion on the text, and \<open>prep_eq_clean\<close> shows that the index
  code computes it. The reader on top hands the cleaned text out in pieces.
\<close>

section \<open>The code: one buffer, one index\<close>

definition isNL :: "char \<Rightarrow> bool" where
  "isNL c \<longleftrightarrow> c = CHR 0x0A \<or> c = CHR 0x0D"

definition isWS :: "char \<Rightarrow> bool" where
  "isWS c \<longleftrightarrow> c = CHR '' '' \<or> c = CHR 0x09 \<or> isNL c"

text \<open>\<^verbatim>\<open>for ; i < len(s) && !isNL(s[i]); i += 1 { s[i] = ' ' }\<close>\<close>

function blank_line :: "string \<Rightarrow> nat \<Rightarrow> string \<times> nat" where
  "blank_line s i = (if i < length s \<and> \<not> isNL (s ! i) then blank_line (s[i := CHR '' '']) (i + 1) else (s, i))"
  by pat_completeness auto
termination by (relation "measure (\<lambda>(s, i). length s - i)") auto

text \<open>The loop over a block comment. A star is blanked and the byte after it inspected: a
  slash ends the comment (the index stays on it), any other byte is stepped over.\<close>

function blank_block :: "string \<Rightarrow> nat \<Rightarrow> string \<times> nat" where
  "blank_block s i =
     (if i < length s then
        if s ! i \<noteq> CHR ''*'' then blank_block (s[i := CHR '' '']) (i + 1)
        else let s1 = s[i := CHR '' '']; i1 = i + 1 in
          if i1 < length s1 \<and> s1 ! i1 = CHR ''/'' then (s1[i1 := CHR '' ''], i1)
          else blank_block s1 (i1 + 1)
      else (s, i))"
  by pat_completeness auto
termination by (relation "measure (\<lambda>(s, i). length s - i)") auto

declare blank_line.simps [simp del] blank_block.simps [simp del]

definition consume_comment :: "string \<Rightarrow> nat \<Rightarrow> string \<times> nat" where
  "consume_comment s i =
     (let (s1, i1) = (if i < length s \<and> s ! i = CHR ''/'' then blank_line (s[i - 1 := CHR '' '']) i else (s, i))
      in if i1 < length s1 \<and> s1 ! i1 = CHR ''*''
         then blank_block (s1[i1 - 1 := CHR '' '', i1 := CHR '' '']) i1
         else (s1, i1))"

text \<open>The loop over a string literal, entered behind the opening quote.\<close>

function skip_string :: "string \<Rightarrow> nat \<Rightarrow> nat" where
  "skip_string s i =
     (if i < length s then
        if s ! i = CHR 0x22 then i + 1
        else if s ! i = CHR 0x5C then skip_string s (i + 1 + 1)
        else skip_string s (i + 1)
      else i)"
  by pat_completeness auto
termination by (relation "measure (\<lambda>(s, i). length s - i)") auto

declare skip_string.simps [simp del]

lemma blank_line_grows: "blank_line s i = (s', i') \<Longrightarrow> length s' = length s \<and> i \<le> i'"
  by (induction s i rule: blank_line.induct)
    (fastforce simp: blank_line.simps split: if_splits)

lemma blank_block_grows: "blank_block s i = (s', i') \<Longrightarrow> length s' = length s \<and> i \<le> i'"
proof (induction s i rule: blank_block.induct)
  case (1 s i)
  show ?case
    using 1(3) 1(1) 1(2) [OF _ _ refl refl]
    by (subst (asm) blank_block.simps) (fastforce simp: Let_def split: if_splits)
qed

lemma consume_comment_grows: "consume_comment s i = (s', i') \<Longrightarrow> length s' = length s \<and> i \<le> i'"
  by (fastforce simp: consume_comment_def split: if_splits prod.splits
      dest!: blank_line_grows blank_block_grows)

lemma skip_string_grows: "i \<le> skip_string s i"
  by (induction s i rule: skip_string.induct) (subst skip_string.simps, auto)

text \<open>The loop entered at a comma in position \<open>j\<close>; it blanks that comma when it meets a
  closing bracket before anything but white space and comments.\<close>

function comma_loop :: "nat \<Rightarrow> string \<Rightarrow> nat \<Rightarrow> string \<times> nat" where
  "comma_loop j s i0 =
     (let i = i0 + 1 in
        if length s \<le> i then (s, i)
        else if s ! i = CHR ''}'' \<or> s ! i = CHR '']'' then (s[j := CHR '' ''], i)
        else if s ! i = CHR ''/'' then
          (let c = consume_comment s (i + 1) in comma_loop j (fst c) (snd c))
        else if \<not> isWS (s ! i) then (s, i)
        else comma_loop j s i)"
  by pat_completeness auto
termination
proof (relation "measure (\<lambda>(j, s, i). length s - i)", goal_cases)
  case (2 j s i0 i x)
  then show ?case
    using consume_comment_grows [of s "i + 1" "fst x" "snd x"] by (auto simp: case_prod_unfold)
qed auto

declare comma_loop.simps [simp del]

lemma comma_loop_grows: "comma_loop j s i = (s', i') \<Longrightarrow> length s' = length s \<and> i < i'"
proof (induction j s i rule: comma_loop.induct)
  case (1 j s i0)
  have cc: "length (fst (consume_comment s (Suc (Suc i0)))) = length s \<and>
      Suc (Suc i0) \<le> snd (consume_comment s (Suc (Suc i0)))"
    using consume_comment_grows [of s "Suc (Suc i0)"] by (cases "consume_comment s (Suc (Suc i0))") auto
  show ?case
    using 1(3) 1(1) [OF refl _ _ _ refl] 1(2) [OF refl] cc
    by (subst (asm) comma_loop.simps) (fastforce simp: Let_def split: if_splits)
qed

text \<open>The main loop.\<close>

function prep_loop :: "string \<Rightarrow> nat \<Rightarrow> string" where
  "prep_loop s i =
     (if i < length s then
        if s ! i = CHR 0x22 then prep_loop s (skip_string s (i + 1))
        else if s ! i = CHR ''/'' then
          (let c = consume_comment s (i + 1) in prep_loop (fst c) (snd c))
        else if s ! i = CHR '','' then
          (let c = comma_loop i s i in prep_loop (fst c) (snd c))
        else prep_loop s (i + 1)
      else s)"
  by pat_completeness auto
termination
proof (relation "measure (\<lambda>(s, i). length s - i)", goal_cases)
  case (2 s i)
  then show ?case using skip_string_grows [of "i + 1" s] by auto
next
  case (3 s i x)
  then show ?case using consume_comment_grows [of s "i + 1" "fst x" "snd x"] by (auto simp: case_prod_unfold)
next
  case (4 s i x)
  then show ?case using comma_loop_grows [of i s i "fst x" "snd x"] by (auto simp: case_prod_unfold)
qed auto

declare prep_loop.simps [simp del]

definition prep :: "string \<Rightarrow> string" where
  "prep s = prep_loop s 0"

section \<open>The reference: recursion on the text\<close>

fun line_part :: "string \<Rightarrow> string \<times> string" where
  "line_part [] = ([], [])"
| "line_part (c # cs) = (if isNL c then ([], c # cs)
     else (let (b, r) = line_part cs in (CHR '' '' # b, r)))"

text \<open>The bytes that replace a block comment from behind its opening, and the rest of the text.\<close>

fun block_part :: "string \<Rightarrow> string \<times> string" where
  "block_part [] = ([], [])"
| "block_part (c # cs) =
     (if c \<noteq> CHR ''*'' then (let (b, r) = block_part cs in (CHR '' '' # b, r))
      else (case cs of [] \<Rightarrow> ([CHR '' ''], [])
        | d # ds \<Rightarrow> if d = CHR ''/'' then ([CHR '' '', CHR '' ''], ds)
            else (let (b, r) = block_part ds in (CHR '' '' # d # b, r))))"

fun string_part :: "string \<Rightarrow> string \<times> string" where
  "string_part [] = ([], [])"
| "string_part (c # cs) =
     (if c = CHR 0x22 then ([c], cs)
      else if c = CHR 0x5C then (case cs of [] \<Rightarrow> ([c], [])
        | d # ds \<Rightarrow> (let (b, r) = string_part ds in (c # d # b, r)))
      else (let (b, r) = string_part cs in (c # b, r)))"

text \<open>What follows a slash: a comment, or nothing special.\<close>

definition slash_part :: "string \<Rightarrow> (string \<times> string) option" where
  "slash_part cs = (case cs of [] \<Rightarrow> None
     | d # ds \<Rightarrow> if d = CHR ''/'' then Some (apfst (\<lambda>b. CHR '' '' # CHR '' '' # b) (line_part ds))
         else if d = CHR ''*'' then Some (apfst (\<lambda>b. CHR '' '' # CHR '' '' # b) (block_part ds))
         else None)"

lemma line_part_shorter: "line_part s = (b, r) \<Longrightarrow> length r \<le> length s"
  by (induction s arbitrary: b) (fastforce split: if_splits prod.splits)+

lemma block_part_shorter: "block_part s = (b, r) \<Longrightarrow> length r \<le> length s"
  by (induction s arbitrary: b r rule: block_part.induct)
    (fastforce split: if_splits prod.splits list.splits)+

lemma string_part_shorter: "string_part s = (b, r) \<Longrightarrow> length r \<le> length s"
  by (induction s arbitrary: b r rule: string_part.induct)
    (fastforce split: if_splits prod.splits list.splits)+

lemma string_part_part: "string_part s = (b, r) \<Longrightarrow> s = b @ r"
  by (induction s arbitrary: b r rule: string_part.induct)
    (auto split: if_splits prod.splits list.splits)

lemma slash_part_shorter: "slash_part s = Some (b, r) \<Longrightarrow> length r \<le> length s"
  by (auto simp: slash_part_def apfst_def map_prod_def split: list.splits if_splits prod.splits
      dest: line_part_shorter block_part_shorter)

text \<open>Behind a comma: does a closing bracket come first, the cleaned bytes up to the place
  where the search stops, and the text from there on. A slash that opens no comment makes
  the index code step over one more byte.\<close>

function look :: "string \<Rightarrow> bool \<times> string \<times> string" where
  "look [] = (False, [], [])"
| "look (c # cs) =
     (if c = CHR ''}'' \<or> c = CHR '']'' then (True, [], c # cs)
      else if c = CHR ''/'' then
        (case slash_part cs of
           Some (b, r) \<Rightarrow> (let (q, b', r') = look r in (q, b @ b', r'))
         | None \<Rightarrow> (case cs of [] \<Rightarrow> (False, [c], [])
             | d # ds \<Rightarrow> (let (q, b', r') = look ds in (q, c # d # b', r'))))
      else if \<not> isWS c then (False, [], c # cs)
      else (let (q, b', r') = look cs in (q, c # b', r')))"
  by pat_completeness auto
termination
  by (relation "measure length") (auto dest: slash_part_shorter)

lemma look_shorter: "look s = (q, b, r) \<Longrightarrow> length r \<le> length s"
proof (induction s arbitrary: q b r rule: look.induct)
  case (2 c cs)
  consider (close) "c = CHR ''}'' \<or> c = CHR '']''"
    | (comment) b' r' where "c = CHR ''/''" "slash_part cs = Some (b', r')"
    | (slash) "c = CHR ''/''" "slash_part cs = None"
    | (stop) "c \<noteq> CHR ''}''" "c \<noteq> CHR '']''" "c \<noteq> CHR ''/''" "\<not> isWS c"
    | (space) "c \<noteq> CHR ''}''" "c \<noteq> CHR '']''" "c \<noteq> CHR ''/''" "isWS c"
    by (cases "slash_part cs") auto
  then show ?case
  proof cases
    case comment
    then show ?thesis
      using "2.prems" "2.IH"(2) slash_part_shorter [of cs b' r']
      by (cases "look r'") fastforce
  next
    case slash
    then show ?thesis
      using "2.prems" "2.IH"(1) by (cases cs; cases "look (tl cs)") fastforce+
  next
    case space
    then show ?thesis
      using "2.prems" "2.IH"(3) by (cases "look cs") fastforce
  qed (use "2.prems" in auto)
qed simp

function clean :: "string \<Rightarrow> string" where
  "clean [] = []"
| "clean (c # cs) =
     (if c = CHR 0x22 then (let (b, r) = string_part cs in c # b @ clean r)
      else if c = CHR ''/'' then
        (case slash_part cs of Some (b, r) \<Rightarrow> b @ clean r | None \<Rightarrow> c # clean cs)
      else if c = CHR '','' then
        (let (q, b, r) = look cs in (if q then CHR '' '' else c) # b @ clean r)
      else c # clean cs)"
  by pat_completeness auto
termination
proof (relation "measure length", goal_cases)
  case (2 c cs x b r)
  then show ?case using string_part_shorter [of cs b r] by simp
next
  case (4 c cs x b r)
  then show ?case using slash_part_shorter [of cs b r] by simp
next
  case (5 c cs x q y b r)
  then show ?case using look_shorter [of cs q b r] by simp
qed auto

text \<open>The two recursions as equations and an induction with one named case per branch.\<close>

lemma look_close: "c = CHR ''}'' \<or> c = CHR '']'' \<Longrightarrow> look (c # cs) = (True, [], c # cs)"
  by auto

lemma look_comment: "slash_part cs = Some (b, r) \<Longrightarrow> look r = (q, b', r') \<Longrightarrow> look (CHR ''/'' # cs) = (q, b @ b', r')"
  by simp

lemma look_slash_end: "look [CHR ''/''] = (False, [CHR ''/''], [])"
  by (simp add: slash_part_def)

lemma look_slash:
  "slash_part (d # ds) = None \<Longrightarrow> look ds = (q, b, r) \<Longrightarrow> look (CHR ''/'' # d # ds) = (q, CHR ''/'' # d # b, r)"
  by simp

lemma look_space: "isWS c \<Longrightarrow> look cs = (q, b, r) \<Longrightarrow> look (c # cs) = (q, c # b, r)"
  by (auto simp: isWS_def isNL_def)

lemma look_stop:
  "c \<noteq> CHR ''}'' \<Longrightarrow> c \<noteq> CHR '']'' \<Longrightarrow> c \<noteq> CHR ''/'' \<Longrightarrow> \<not> isWS c \<Longrightarrow> look (c # cs) = (False, [], c # cs)"
  by simp

lemmas look_eqs = look_close look_comment look_slash_end look_slash look_space look_stop

lemma look_rule [case_names Nil Close Comment Slash_end Slash Stop Space]:
  assumes "P [] False [] []"
    and "\<And>c cs. c = CHR ''}'' \<or> c = CHR '']'' \<Longrightarrow> P (c # cs) True [] (c # cs)"
    and "\<And>cs b r q b' r'. slash_part cs = Some (b, r) \<Longrightarrow> look r = (q, b', r') \<Longrightarrow> P r q b' r' \<Longrightarrow>
           P (CHR ''/'' # cs) q (b @ b') r'"
    and "P [CHR ''/''] False [CHR ''/''] []"
    and "\<And>d ds q b r. slash_part (d # ds) = None \<Longrightarrow> look ds = (q, b, r) \<Longrightarrow> P ds q b r \<Longrightarrow>
           P (CHR ''/'' # d # ds) q (CHR ''/'' # d # b) r"
    and "\<And>c cs. c \<noteq> CHR ''}'' \<Longrightarrow> c \<noteq> CHR '']'' \<Longrightarrow> c \<noteq> CHR ''/'' \<Longrightarrow> \<not> isWS c \<Longrightarrow> P (c # cs) False [] (c # cs)"
    and "\<And>c cs q b r. isWS c \<Longrightarrow> c \<noteq> CHR ''}'' \<Longrightarrow> c \<noteq> CHR '']'' \<Longrightarrow> c \<noteq> CHR ''/'' \<Longrightarrow>
           look cs = (q, b, r) \<Longrightarrow> P cs q b r \<Longrightarrow> P (c # cs) q (c # b) r"
  shows "P s (fst (look s)) (fst (snd (look s))) (snd (snd (look s)))"
proof (induction s rule: look.induct)
  case 1
  show ?case using assms(1) by simp
next
  case (2 c cs)
  consider (close) "c = CHR ''}'' \<or> c = CHR '']''"
    | (comment) b r where "c = CHR ''/''" "slash_part cs = Some (b, r)"
    | (slash_end) "c = CHR ''/''" "cs = []"
    | (slash) d ds where "c = CHR ''/''" "cs = d # ds" "slash_part (d # ds) = None"
    | (stop) "c \<noteq> CHR ''}''" "c \<noteq> CHR '']''" "c \<noteq> CHR ''/''" "\<not> isWS c"
    | (space) "c \<noteq> CHR ''}''" "c \<noteq> CHR '']''" "c \<noteq> CHR ''/''" "isWS c"
    by (cases "slash_part cs"; cases cs) auto
  then show ?case
  proof cases
    case close
    then show ?thesis using assms(2) by (auto simp: look_close)
  next
    case comment
    then show ?thesis
      using assms(3) [OF comment(2), of "fst (look r)" "fst (snd (look r))" "snd (snd (look r))"]
        "2.IH"(2) [of "(b, r)" b r] look_comment [OF comment(2) prod.collapse [THEN sym, THEN trans]]
      by (cases "look r") simp
  next
    case slash_end
    then show ?thesis unfolding slash_end look_slash_end using assms(4) by simp
  next
    case slash
    then show ?thesis
      using assms(5) [OF slash(3), of "fst (look ds)" "fst (snd (look ds))" "snd (snd (look ds))"]
        "2.IH"(1) [of d ds] by (cases "look ds") simp
  next
    case stop
    then show ?thesis using assms(6) by (simp add: look_stop)
  next
    case space
    then show ?thesis
      using assms(7) [of c cs "fst (look cs)" "fst (snd (look cs))" "snd (snd (look cs))"] "2.IH"(3)
      by (cases "look cs") simp
  qed
qed

lemma clean_quote: "string_part cs = (b, r) \<Longrightarrow> clean (CHR 0x22 # cs) = CHR 0x22 # b @ clean r"
  by simp

lemma clean_comment: "slash_part cs = Some (b, r) \<Longrightarrow> clean (CHR ''/'' # cs) = b @ clean r"
  by simp

lemma clean_slash: "slash_part cs = None \<Longrightarrow> clean (CHR ''/'' # cs) = CHR ''/'' # clean cs"
  by simp

lemma clean_comma: "look cs = (q, b, r) \<Longrightarrow>
    clean (CHR '','' # cs) = (if q then CHR '' '' else CHR '','') # b @ clean r"
  by simp

lemma clean_other: "c \<notin> {CHR 0x22, CHR ''/'', CHR '',''} \<Longrightarrow> clean (c # cs) = c # clean cs"
  by simp

lemmas clean_eqs = clean_quote clean_comment clean_slash clean_comma clean_other

lemma clean_rule [case_names Nil Quote Comment Slash Comma Other]:
  assumes "P []"
    and "\<And>cs b r. string_part cs = (b, r) \<Longrightarrow> P r \<Longrightarrow> P (CHR 0x22 # cs)"
    and "\<And>cs b r. slash_part cs = Some (b, r) \<Longrightarrow> P r \<Longrightarrow> P (CHR ''/'' # cs)"
    and "\<And>cs. slash_part cs = None \<Longrightarrow> P cs \<Longrightarrow> P (CHR ''/'' # cs)"
    and "\<And>cs q b r. look cs = (q, b, r) \<Longrightarrow> P r \<Longrightarrow> P (CHR '','' # cs)"
    and "\<And>c cs. c \<notin> {CHR 0x22, CHR ''/'', CHR '',''} \<Longrightarrow> P cs \<Longrightarrow> P (c # cs)"
  shows "P s"
proof (induction s rule: clean.induct)
  case (2 c cs)
  obtain b r where sp: "string_part cs = (b, r)" by fastforce
  obtain q b' r' where lk: "look cs = (q, b', r')" using prod_cases3 by blast
  consider "c = CHR 0x22" | "c = CHR ''/''" | "c = CHR '',''" | "c \<notin> {CHR 0x22, CHR ''/'', CHR '',''}"
    by blast
  then show ?case
  proof cases
    case 1
    then show ?thesis using assms(2) [OF sp] "2.IH"(1) [of "(b, r)" b r] sp by simp
  next
    case 2
    then show ?thesis
      using assms(3) assms(4) "2.IH"(2) "2.IH"(3) by (cases "slash_part cs") auto
  next
    case 3
    then show ?thesis using assms(5) [OF lk] "2.IH"(4) [of "(q, b', r')" q "(b', r')" b' r'] lk by simp
  next
    case 4
    then show ?thesis using assms(6) "2.IH"(5) by auto
  qed
qed (rule assms(1))

lemma look_induct [consumes 1, case_names Nil Close Comment Slash_end Slash Stop Space]:
  assumes "look s = (q, b, r)"
    and "P [] False [] []"
    and "\<And>c cs. c = CHR ''}'' \<or> c = CHR '']'' \<Longrightarrow> P (c # cs) True [] (c # cs)"
    and "\<And>cs b r q b' r'. slash_part cs = Some (b, r) \<Longrightarrow> look r = (q, b', r') \<Longrightarrow> P r q b' r' \<Longrightarrow>
           P (CHR ''/'' # cs) q (b @ b') r'"
    and "P [CHR ''/''] False [CHR ''/''] []"
    and "\<And>d ds q b r. slash_part (d # ds) = None \<Longrightarrow> look ds = (q, b, r) \<Longrightarrow> P ds q b r \<Longrightarrow>
           P (CHR ''/'' # d # ds) q (CHR ''/'' # d # b) r"
    and "\<And>c cs. c \<noteq> CHR ''}'' \<Longrightarrow> c \<noteq> CHR '']'' \<Longrightarrow> c \<noteq> CHR ''/'' \<Longrightarrow> \<not> isWS c \<Longrightarrow> P (c # cs) False [] (c # cs)"
    and "\<And>c cs q b r. isWS c \<Longrightarrow> c \<noteq> CHR ''}'' \<Longrightarrow> c \<noteq> CHR '']'' \<Longrightarrow> c \<noteq> CHR ''/'' \<Longrightarrow>
           look cs = (q, b, r) \<Longrightarrow> P cs q b r \<Longrightarrow> P (c # cs) q (c # b) r"
  shows "P s q b r"
proof -
  have "P s (fst (look s)) (fst (snd (look s))) (snd (snd (look s)))"
    by (rule look_rule [of P, OF assms(2-8)])
  then show ?thesis unfolding assms(1) by simp
qed

declare look.simps(2) [simp del] clean.simps(2) [simp del]

section \<open>The index code computes the reference\<close>

text \<open>
  Each loop is related to its part of the reference for any text \<open>pre\<close> already behind the
  index. The index a loop leaves lies behind the replaced bytes, on the last of them (which
  is a blank), or at the end of the buffer.
\<close>

definition lands :: "string \<Rightarrow> string \<Rightarrow> nat \<Rightarrow> bool" where
  "lands p r i \<longleftrightarrow> (r = [] \<and> length p \<le> i) \<or> (i = length p \<and> isNL (hd r))
     \<or> (Suc i = length p \<and> p \<noteq> [] \<and> last p = CHR '' '')"

definition stops :: "string \<Rightarrow> string \<Rightarrow> nat \<Rightarrow> bool" where
  "stops p r i \<longleftrightarrow> i = length p \<or> (r = [] \<and> length p \<le> i)"

lemma stopsI [intro]:
  "i = length p \<Longrightarrow> stops p r i"
  "r = [] \<Longrightarrow> length p \<le> i \<Longrightarrow> stops p r i"
  by (auto simp: stops_def)

lemma landsI [intro]:
  "r = [] \<Longrightarrow> length p \<le> i \<Longrightarrow> lands p r i"
  "i = length p \<Longrightarrow> isNL (hd r) \<Longrightarrow> lands p r i"
  by (auto simp: lands_def)

lemma nth_mid [simp]: "(pre @ c # cs) ! length pre = c"
  by simp

lemma update_mid [simp]: "(pre @ c # cs)[length pre := d] = pre @ d # cs"
  by simp

lemma nth_mid_Suc [simp]: "(pre @ x # c # cs) ! Suc (length pre) = c"
  by (simp add: nth_append)

lemma update_mid_Suc [simp]: "(pre @ x # c # cs)[Suc (length pre) := d] = pre @ x # d # cs"
  by (simp add: list_update_append)

lemma blank_line_part:
  "line_part s = (b, r) \<Longrightarrow> blank_line (pre @ s) (length pre) = (pre @ b @ r, length (pre @ b))"
proof (induction s arbitrary: pre b)
  case Nil
  then show ?case by (simp add: blank_line.simps [of pre])
next
  case (Cons c cs)
  then show ?case
    using Cons.IH [of "tl b" "pre @ [CHR '' '']"]
    by (subst blank_line.simps) (auto split: prod.splits if_splits)
qed

lemma line_part_rest: "line_part s = (b, r) \<Longrightarrow> r = [] \<or> isNL (hd r)"
  by (induction s arbitrary: b) (auto split: if_splits prod.splits)

lemma blank_block_part:
  "block_part s = (b, r) \<Longrightarrow>
     \<exists>i. blank_block (pre @ s) (length pre) = (pre @ b @ r, i) \<and> lands (pre @ b) r i"
proof (induction s arbitrary: pre b r rule: block_part.induct)
  case 1
  then show ?case by (auto simp: blank_block.simps [of pre])
next
  case (2 c cs)
  consider (other) "c \<noteq> CHR ''*''" | (last) "c = CHR ''*''" "cs = []"
    | (close) ds where "c = CHR ''*''" "cs = CHR ''/'' # ds"
    | (star) d ds where "c = CHR ''*''" "cs = d # ds" "d \<noteq> CHR ''/''"
    by (cases cs) auto
  then show ?case
  proof cases
    case other
    then show ?thesis
      using "2.IH"(1) [of "fst (block_part cs)" "snd (block_part cs)" "pre @ [CHR '' '']"] "2.prems"
      by (subst blank_block.simps) (auto split: prod.splits)
  next
    case last
    then show ?thesis
      using "2.prems"
      by (subst blank_block.simps, subst blank_block.simps) (auto simp: lands_def)
  next
    case close
    then show ?thesis
      using "2.prems" by (subst blank_block.simps) (auto simp: lands_def nth_append)
  next
    case star
    then show ?thesis
      using "2.IH"(2) [of d ds "fst (block_part ds)" "snd (block_part ds)" "pre @ [CHR '' '', d]"] "2.prems"
      by (subst blank_block.simps) (auto split: prod.splits simp: nth_append)
  qed
qed

lemma consume_comment_part:
  assumes "slash_part cs = Some (b, r)"
  shows "\<exists>i. consume_comment (pre @ CHR ''/'' # cs) (Suc (length pre)) = (pre @ b @ r, i) \<and> lands (pre @ b) r i"
proof -
  obtain d ds where cs: "cs = d # ds" and d: "d = CHR ''/'' \<or> d = CHR ''*''"
    using assms by (auto simp: slash_part_def split: list.splits if_splits)
  from d show ?thesis
  proof
    assume sl: "d = CHR ''/''"
    then obtain b' where lp: "line_part ds = (b', r)" and b: "b = CHR '' '' # CHR '' '' # b'"
      using assms cs by (auto simp: slash_part_def apfst_def map_prod_def split: prod.splits)
    have "blank_line ((pre @ [CHR '' '']) @ CHR ''/'' # ds) (length (pre @ [CHR '' '']))
        = (pre @ b @ r, length (pre @ b))"
      using blank_line_part [of "CHR ''/'' # ds" "CHR '' '' # b'" r "pre @ [CHR '' '']"] lp b
      by (simp add: isNL_def)
    then show ?thesis
      using line_part_rest [OF lp] sl cs
      by (cases r) (auto simp: consume_comment_def isNL_def nth_append)
  next
    assume st: "d = CHR ''*''"
    then obtain b' where bp: "block_part ds = (b', r)" and b: "b = CHR '' '' # CHR '' '' # b'"
      using assms cs by (auto simp: slash_part_def apfst_def map_prod_def split: prod.splits)
    obtain i where i: "blank_block ((pre @ [CHR '' '']) @ CHR '' '' # ds) (length (pre @ [CHR '' '']))
        = (pre @ b @ r, i) \<and> lands (pre @ b) r i"
      using blank_block_part [of "CHR '' '' # ds" "CHR '' '' # b'" r "pre @ [CHR '' '']"] bp b
      by auto
    then show ?thesis
      using st cs by (auto simp: consume_comment_def)
  qed
qed

lemma consume_comment_none:
  "slash_part cs = None \<Longrightarrow>
     consume_comment (pre @ CHR ''/'' # cs) (Suc (length pre)) = (pre @ CHR ''/'' # cs, Suc (length pre))"
  by (cases cs) (auto simp: slash_part_def consume_comment_def split: if_splits)

lemma skip_string_part:
  "string_part s = (b, r) \<Longrightarrow> stops (pre @ b) r (skip_string (pre @ s) (length pre))"
proof (induction s arbitrary: pre b r rule: string_part.induct)
  case 1
  then show ?case by (auto simp: skip_string.simps [of pre])
next
  case (2 c cs)
  consider (quote) "c = CHR 0x22" | (last) "c = CHR 0x5C" "cs = []"
    | (esc) d ds where "c = CHR 0x5C" "cs = d # ds"
    | (other) "c \<noteq> CHR 0x22" "c \<noteq> CHR 0x5C"
    by (cases cs) auto
  then show ?case
  proof cases
    case quote
    then show ?thesis using "2.prems" by (subst skip_string.simps) auto
  next
    case last
    then show ?thesis using "2.prems"
      by (subst skip_string.simps, subst skip_string.simps) auto
  next
    case esc
    then show ?thesis
      using "2.IH"(1) [of d ds "fst (string_part ds)" "snd (string_part ds)" "pre @ [c, d]"] "2.prems"
      by (subst skip_string.simps) (auto split: prod.splits)
  next
    case other
    then show ?thesis
      using "2.IH"(2) [of "fst (string_part cs)" "snd (string_part cs)" "pre @ [c]"] "2.prems"
      by (subst skip_string.simps) (auto split: prod.splits)
  qed
qed

lemma comma_loop_end: "length s \<le> Suc i \<Longrightarrow> comma_loop j s i = (s, Suc i)"
  by (simp add: comma_loop.simps)

text \<open>After a comment the search goes on as if it stood on the last replaced byte.\<close>

lemma comma_loop_after_comment:
  assumes "lands p r k" and "p \<noteq> []"
  shows "(r = [] \<and> comma_loop j (p @ r) k = (p, Suc k) \<and> length p \<le> k)
    \<or> (\<exists>k0. Suc k0 = length p \<and> comma_loop j (p @ r) k = comma_loop j (p @ r) k0)"
proof -
  consider (fin) "r = []" "length p \<le> k" | (blank) "Suc k = length p"
    | (nl) n r2 where "r = n # r2" "k = length p" "isNL n"
    using assms(1) by (cases r) (auto simp: lands_def)
  then show ?thesis
  proof cases
    case nl
    then have "isWS n" "n \<noteq> CHR ''}''" "n \<noteq> CHR '']''" "n \<noteq> CHR ''/''"
      by (auto simp: isWS_def isNL_def)
    then have "comma_loop j (p @ r) (k - 1) = comma_loop j (p @ r) k"
      using nl assms(2) by (subst comma_loop.simps) (auto simp: nth_append)
    then show ?thesis
      using nl assms(2) by (intro disjI2 exI [of _ "k - 1"]) auto
  qed (auto simp: comma_loop_end)
qed

lemma comma_loop_look:
  "look s = (q, b, r) \<Longrightarrow> Suc i = length pre \<Longrightarrow> j < length pre \<Longrightarrow>
     \<exists>i'. comma_loop j (pre @ s) i = ((if q then pre[j := CHR '' ''] else pre) @ b @ r, i')
        \<and> stops (pre @ b) r i'"
proof (induction s q b r arbitrary: pre i rule: look_induct)
  case Nil
  then show ?case by (auto simp: comma_loop_end)
next
  case (Close c cs)
  then show ?case
    by (subst comma_loop.simps) (auto simp: list_update_append)
next
  case (Comment cs b1 r1 q b2 r2)
  obtain k where k: "consume_comment (pre @ CHR ''/'' # cs) (Suc (length pre)) = (pre @ b1 @ r1, k)"
      and land: "lands (pre @ b1) r1 k"
    using consume_comment_part [OF Comment(1), of pre] by auto
  have unf: "comma_loop j (pre @ CHR ''/'' # cs) i = comma_loop j ((pre @ b1) @ r1) k"
    using k Comment.prems(1) by (subst comma_loop.simps) simp
  have "pre @ b1 \<noteq> []" using Comment.prems(2) by auto
  then consider (fin) "r1 = []" "comma_loop j ((pre @ b1) @ r1) k = (pre @ b1, Suc k)" "length (pre @ b1) \<le> k"
    | (on) k0 where "Suc k0 = length (pre @ b1)"
        "comma_loop j ((pre @ b1) @ r1) k = comma_loop j ((pre @ b1) @ r1) k0"
    using comma_loop_after_comment [OF land, of j] by blast
  then show ?case
  proof cases
    case fin
    then show ?thesis using Comment(2) unf by auto
  next
    case on
    then show ?thesis
      using Comment.IH [of k0 "pre @ b1"] Comment.prems unf by (auto simp: list_update_append)
  qed
next
  case Slash_end
  then show ?case
    using consume_comment_none [of "[]" pre]
    by (subst comma_loop.simps) (auto simp: comma_loop_end stops_def slash_part_def)
next
  case (Slash d ds q b r)
  then show ?case
    using consume_comment_none [OF Slash(1), of pre] Slash.IH [of "Suc (Suc i)" "pre @ [CHR ''/'', d]"]
    by (subst comma_loop.simps) (auto simp: list_update_append)
next
  case (Stop c cs)
  then show ?case by (subst comma_loop.simps) auto
next
  case (Space c cs q b r)
  then show ?case
    using Space.IH [of "Suc i" "pre @ [c]"]
    by (subst comma_loop.simps) (auto simp: list_update_append)
qed

lemma prep_loop_stops: "stops p r i \<Longrightarrow> prep_loop (p @ r) i = prep_loop (p @ r) (length p)"
  by (auto simp: stops_def prep_loop.simps [of p])

lemma prep_loop_lands:
  assumes "lands p r i"
  shows "prep_loop (p @ r) i = prep_loop (p @ r) (length p)"
proof (cases "Suc i = length p \<and> p \<noteq> [] \<and> last p = CHR '' ''")
  case True
  then have "i < length (p @ r)" "(p @ r) ! i = CHR '' ''"
    by (cases p rule: rev_cases; auto simp: nth_append)+
  then have "prep_loop (p @ r) i = prep_loop (p @ r) (Suc i)"
    by (simp add: prep_loop.simps [of "p @ r" i])
  then show ?thesis using True by metis
next
  case False
  then have "stops p r i"
    using assms by (auto simp: lands_def stops_def)
  then show ?thesis by (rule prep_loop_stops)
qed

lemma prep_loop_clean: "prep_loop (pre @ s) (length pre) = pre @ clean s"
proof (induction s arbitrary: pre rule: clean_rule)
  case Nil
  then show ?case by (simp add: prep_loop.simps [of pre])
next
  case (Quote cs b r)
  have "prep_loop ((pre @ CHR 0x22 # b) @ r) (skip_string ((pre @ [CHR 0x22]) @ cs) (length (pre @ [CHR 0x22])))
      = prep_loop ((pre @ CHR 0x22 # b) @ r) (length (pre @ CHR 0x22 # b))"
    using skip_string_part [OF Quote(1), of "pre @ [CHR 0x22]"] by (intro prep_loop_stops) simp
  moreover have "clean (CHR 0x22 # cs) = CHR 0x22 # b @ clean r" "cs = b @ r"
    using Quote(1) by (rule clean_quote, rule string_part_part)
  ultimately show ?case
    using Quote.IH [of "pre @ CHR 0x22 # b"]
    by (subst prep_loop.simps) simp
next
  case (Comment cs b r)
  then show ?case
    using consume_comment_part [OF Comment(1), of pre] Comment.IH [of "pre @ b"]
    by (subst prep_loop.simps) (auto simp: clean_comment dest!: prep_loop_lands)
next
  case (Slash cs)
  then show ?case
    using consume_comment_none [OF Slash(1), of pre] Slash.IH [of "pre @ [CHR ''/'']"]
    by (subst prep_loop.simps) (auto simp: clean_slash)
next
  case (Comma cs q b r)
  let ?d = "if q then CHR '' '' else CHR '',''"
  obtain i where i: "comma_loop (length pre) (pre @ CHR '','' # cs) (length pre) = (pre @ ?d # b @ r, i)"
      "stops ((pre @ ?d # b)) r i"
    using comma_loop_look [OF Comma(1), of "length pre" "pre @ [CHR '','']" "length pre"]
    by (auto simp: stops_def split: if_splits)
  show ?case
    using i prep_loop_stops [OF i(2)] Comma.IH [of "pre @ ?d # b"]
    by (subst prep_loop.simps) (simp add: clean_comma [OF Comma(1)])
next
  case (Other c cs)
  then show ?case
    using Other.IH [of "pre @ [c]"] by (subst prep_loop.simps) (auto simp: clean_other)
qed

lemma prep_clean: "prep s = clean s"
  using prep_loop_clean [of "[]" s] by (simp add: prep_def)

text \<open>C15. The in-place scanner computes the reference: its index arithmetic, its retroactive
  blanking of commas and its loops over comments and strings agree with the structural
  description on every input.\<close>

theorem prep_eq_clean: "prep s = clean s"
  by (rule prep_clean)

section \<open>What the cleaning does\<close>

definition kept_or_blank :: "char \<Rightarrow> char \<Rightarrow> bool" where
  "kept_or_blank a b \<longleftrightarrow> b = a \<or> b = CHR '' ''"

lemma kept_or_blank_refl [simp]: "kept_or_blank a a" "kept_or_blank a CHR '' ''"
  by (auto simp: kept_or_blank_def)

lemma list_all2_kept_refl [simp]: "list_all2 kept_or_blank s s"
  by (simp add: list_all2_refl)

text \<open>A part of the text splits into the bytes it replaces and the rest.\<close>

definition part_of :: "string \<Rightarrow> string \<Rightarrow> string \<Rightarrow> bool" where
  "part_of s b r \<longleftrightarrow> (\<exists>a. s = a @ r \<and> list_all2 kept_or_blank a b)"

lemma part_of_Nil [simp]: "part_of r [] r"
  by (auto simp: part_of_def)

lemma part_of_Cons: "part_of s b r \<Longrightarrow> kept_or_blank c d \<Longrightarrow> part_of (c # s) (d # b) r"
  by (fastforce simp: part_of_def intro: exI [of _ "c # _"])

lemma part_of_append: "part_of s b r \<Longrightarrow> part_of r b' r' \<Longrightarrow> part_of s (b @ b') r'"
  by (fastforce simp: part_of_def intro: list_all2_appendI)

lemma line_part_part: "line_part s = (b, r) \<Longrightarrow> part_of s b r"
  by (induction s arbitrary: b) (auto split: if_splits prod.splits intro!: part_of_Cons)

lemma block_part_part: "block_part s = (b, r) \<Longrightarrow> part_of s b r"
  by (induction s arbitrary: b r rule: block_part.induct)
    (auto split: if_splits prod.splits list.splits intro!: part_of_Cons)

lemma slash_part_part: "slash_part s = Some (b, r) \<Longrightarrow> part_of (CHR ''/'' # s) b r"
  by (auto simp: slash_part_def apfst_def map_prod_def split: list.splits if_splits prod.splits
      intro!: part_of_Cons dest: line_part_part block_part_part)

lemma look_part: "look s = (q, b, r) \<Longrightarrow> part_of s b r"
  by (induction s q b r rule: look_induct)
    (auto intro: part_of_append slash_part_part intro!: part_of_Cons)

lemma part_of_list_all2: "part_of s b r \<Longrightarrow> list_all2 kept_or_blank r r' \<Longrightarrow> list_all2 kept_or_blank s (b @ r')"
  by (auto simp: part_of_def intro: list_all2_appendI)

lemma clean_kept_or_blank: "list_all2 kept_or_blank s (clean s)"
proof (induction s rule: clean_rule)
  case (Quote cs b r)
  then show ?case
    using string_part_part [OF Quote(1)] clean_quote [OF Quote(1)] by (auto intro: list_all2_appendI)
next
  case (Comment cs b r)
  then show ?case by (auto simp: clean_comment intro: part_of_list_all2 slash_part_part)
next
  case (Comma cs q b r)
  then show ?case
    by (auto simp: clean_comma intro: part_of_list_all2 look_part)
qed (auto simp: clean_slash clean_other)

lemma prep_only_blanks_length: "length (prep s) = length s"
  using clean_kept_or_blank [of s] by (simp add: prep_clean list_all2_lengthD)

text \<open>The scanner never moves or invents a byte: the output has the length of the input
  and every byte is the input's byte at that place or a blank. So the offsets of later JSON
  errors are those of the file.\<close>

theorem prep_only_blanks: "list_all2 kept_or_blank s (prep s)"
  by (simp add: prep_clean clean_kept_or_blank)

section \<open>Strings, comments and trailing commas\<close>

text \<open>The inside of a string literal: no bare quote, every backslash followed by a byte.\<close>

fun literal_body :: "string \<Rightarrow> bool" where
  "literal_body [] \<longleftrightarrow> True"
| "literal_body (c # cs) \<longleftrightarrow>
     (if c = CHR 0x22 then False
      else if c = CHR 0x5C then (case cs of [] \<Rightarrow> False | d # ds \<Rightarrow> literal_body ds)
      else literal_body cs)"

lemma string_part_literal:
  "literal_body body \<Longrightarrow> string_part (body @ CHR 0x22 # rest) = (body @ [CHR 0x22], rest)"
  by (induction body rule: literal_body.induct) (auto split: if_splits list.splits)

lemma line_part_app:
  "\<forall>c\<in>set t. \<not> isNL c \<Longrightarrow> isNL n \<Longrightarrow> line_part (t @ n # rest) = (replicate (length t) CHR '' '', n # rest)"
  by (induction t) auto

lemma block_part_app:
  "CHR ''*'' \<notin> set t \<Longrightarrow> block_part (t @ s) = apfst (\<lambda>b. replicate (length t) CHR '' '' @ b) (block_part s)"
  by (induction t) (auto simp: apfst_def map_prod_def split: prod.splits)

lemma block_part_close:
  "CHR ''*'' \<notin> set u \<Longrightarrow> block_part (u @ ''*/'' @ rest) = (replicate (2 + length u) CHR '' '', rest)"
  by (simp add: block_part_app replicate_app_Cons_same replicate_append_same)

lemma look_spaces_close:
  "\<forall>c\<in>set w. isWS c \<Longrightarrow> q = CHR ''}'' \<or> q = CHR '']'' \<Longrightarrow> look (w @ q # rest) = (True, w, q # rest)"
  by (induction w) (auto simp: look_close intro: look_space)

lemma look_spaces_stop:
  "\<forall>c\<in>set w. isWS c \<Longrightarrow> q \<notin> {CHR ''}'', CHR '']'', CHR ''/''} \<Longrightarrow> \<not> isWS q \<Longrightarrow>
     look (w @ q # rest) = (False, w, q # rest)"
  by (induction w) (auto intro: look_space simp: look_stop)

lemma prep_Nil [simp]: "prep [] = []"
  by (simp add: prep_clean)

lemma prep_block_comment:
  "block_part s = (b, r) \<Longrightarrow> prep (''/*'' @ s) = ''  '' @ b @ prep r"
  using clean_comment [of "CHR ''*'' # s"] by (simp add: prep_clean slash_part_def)



text \<open>Comments become blanks of the same length and a comma before a closing bracket becomes
  a blank, while a comma before anything else stays: a line comment up to its newline, a block
  comment whose text has no star, and commas followed by white space.\<close>

theorem prep_comments_and_commas:
  assumes "\<forall>c\<in>set t. \<not> isNL c" and "isNL n" and "CHR ''*'' \<notin> set u"
    and "\<forall>c\<in>set w. isWS c" and "q = CHR ''}'' \<or> q = CHR '']''"
    and "x \<notin> {CHR ''}'', CHR '']'', CHR ''/''}" and "\<not> isWS x"
  shows "prep (''//'' @ t @ n # rest) = replicate (2 + length t) CHR '' '' @ prep (n # rest)
    \<and> prep (''/*'' @ u @ ''*/'' @ rest) = replicate (4 + length u) CHR '' '' @ prep rest
    \<and> prep (CHR '','' # w @ q # rest) = CHR '' '' # w @ prep (q # rest)
    \<and> prep (CHR '','' # w @ x # rest) = CHR '','' # w @ prep (x # rest)"
proof (intro conjI)
  show "prep (''//'' @ t @ n # rest) = replicate (2 + length t) CHR '' '' @ prep (n # rest)"
    using clean_comment [of "CHR ''/'' # t @ n # rest"] line_part_app [OF assms(1,2), of rest]
    by (simp add: prep_clean slash_part_def)
  show "prep (''/*'' @ u @ ''*/'' @ rest) = replicate (4 + length u) CHR '' '' @ prep rest"
    using prep_block_comment [OF block_part_close [OF assms(3)]] by (simp add: numeral_eq_Suc)
  show "prep (CHR '','' # w @ q # rest) = CHR '' '' # w @ prep (q # rest)"
    using clean_comma [OF look_spaces_close [OF assms(4,5), of rest]] by (simp add: prep_clean)
  show "prep (CHR '','' # w @ x # rest) = CHR '','' # w @ prep (x # rest)"
    using clean_comma [OF look_spaces_stop [OF assms(4,6,7), of rest]] by (simp add: prep_clean)
qed

theorem prep_comments_and_commas_witness:
  "prep (''//'' @ ''a'' @ CHR 0x0A # ''1'') = replicate (2 + length ''a'') CHR '' '' @ prep (CHR 0x0A # ''1'')
   \<and> prep (''/*'' @ ''b'' @ ''*/'' @ ''1'') = replicate (4 + length ''b'') CHR '' '' @ prep ''1''
   \<and> prep (CHR '','' # '' '' @ CHR '']'' # ''1'') = CHR '' '' # '' '' @ prep (CHR '']'' # ''1'')
   \<and> prep (CHR '','' # '' '' @ CHR ''2'' # ''1'') = CHR '','' # '' '' @ prep (CHR ''2'' # ''1'')"
  by (rule prep_comments_and_commas) (auto simp: isNL_def isWS_def)

text \<open>A star inside a block comment makes the scanner step over the next byte without
  blanking or inspecting it. So for any comment with a star followed by a byte other than a
  slash that byte survives in the output, and a comment that ends in two stars is not closed
  at all: the rest of the file is swallowed.\<close>

theorem prep_star_in_comment:
  assumes "CHR ''*'' \<notin> set t" and "CHR ''*'' \<notin> set u" and "d \<noteq> CHR ''/''" and "CHR ''*'' \<notin> set v"
  shows "prep (''/*'' @ t @ CHR ''*'' # d # u @ ''*/'' @ rest)
       = replicate (3 + length t) CHR '' '' @ d # replicate (2 + length u) CHR '' '' @ prep rest
    \<and> prep (''/*'' @ t @ ''**/'' @ v)
       = replicate (3 + length t) CHR '' '' @ CHR ''*'' # replicate (1 + length v) CHR '' ''"
proof (intro conjI)
  have "block_part (t @ CHR ''*'' # d # u @ ''*/'' @ rest)
      = (replicate (length t) CHR '' '' @ CHR '' '' # d # replicate (2 + length u) CHR '' '', rest)"
    using assms block_part_close [of u rest] by (simp add: block_part_app [of t])
  from prep_block_comment [OF this]
  show "prep (''/*'' @ t @ CHR ''*'' # d # u @ ''*/'' @ rest)
       = replicate (3 + length t) CHR '' '' @ d # replicate (2 + length u) CHR '' '' @ prep rest"
    by (simp add: numeral_eq_Suc replicate_app_Cons_same)
  have "block_part (t @ ''**/'' @ v)
      = (replicate (length t) CHR '' '' @ CHR '' '' # CHR ''*'' # replicate (1 + length v) CHR '' '', [])"
    using assms block_part_app [of v "[]"] by (simp add: block_part_app)
  from prep_block_comment [OF this]
  show "prep (''/*'' @ t @ ''**/'' @ v)
       = replicate (3 + length t) CHR '' '' @ CHR ''*'' # replicate (1 + length v) CHR '' ''"
    by (simp add: numeral_eq_Suc replicate_app_Cons_same)
qed

theorem prep_star_in_comment_witness:
  "prep (''/*'' @ '' a'' @ CHR ''*'' # CHR ''b'' # '' '' @ ''*/'' @ ''1'')
     = replicate (3 + length '' a'') CHR '' '' @ CHR ''b'' # replicate (2 + length '' '') CHR '' '' @ prep ''1''
   \<and> prep (''/*'' @ '' a'' @ ''**/'' @ ''{1}'')
     = replicate (3 + length '' a'') CHR '' '' @ CHR ''*'' # replicate (1 + length ''{1}'') CHR '' ''"
  by (rule prep_star_in_comment) auto

section \<open>The reader\<close>

text \<open>
  \<^verbatim>\<open>TrimNodeReader\<close>: the first \<^verbatim>\<open>Read\<close> drains the source and cleans it, every \<^verbatim>\<open>Read\<close> hands
  out the next bytes. The source is the text it yields, or \<open>None\<close> when draining it fails;
  \<open>br\<close> is what the \<^verbatim>\<open>bytes.Reader\<close> still holds.
\<close>

record trim_reader =
  src :: "string option"
  br :: "string option"

datatype read_result = RBytes string | REOF | RErr

definition new_trim_reader :: "string option \<Rightarrow> trim_reader" where
  "new_trim_reader s = \<lparr>src = s, br = None\<rparr>"

definition bytes_read :: "nat \<Rightarrow> trim_reader \<Rightarrow> string \<Rightarrow> read_result \<times> trim_reader" where
  "bytes_read n st b = (if b = [] then (REOF, st\<lparr>br := Some b\<rparr>)
     else (RBytes (take n b), st\<lparr>br := Some (drop n b)\<rparr>))"

definition trim_read :: "nat \<Rightarrow> trim_reader \<Rightarrow> read_result \<times> trim_reader" where
  "trim_read n st =
     (case br st of
        Some b \<Rightarrow> bytes_read n st b
      | None \<Rightarrow> (case src st of None \<Rightarrow> (RErr, st) | Some s \<Rightarrow> bytes_read n st (prep s)))"

text \<open>\<^verbatim>\<open>io.ReadAll\<close> over it: buffers of whatever positive size \<open>sz k + 1\<close> the library chooses.\<close>

fun read_all :: "(nat \<Rightarrow> nat) \<Rightarrow> nat \<Rightarrow> trim_reader \<Rightarrow> string option" where
  "read_all sz 0 st = None"
| "read_all sz (Suc k) st =
     (case trim_read (Suc (sz k)) st of
        (RErr, _) \<Rightarrow> None
      | (REOF, _) \<Rightarrow> Some []
      | (RBytes b, st') \<Rightarrow> map_option (\<lambda>r. b @ r) (read_all sz k st'))"

lemma read_all_rest:
  "br st = Some b \<Longrightarrow> length b < fuel \<Longrightarrow> read_all sz fuel st = Some b"
proof (induction fuel arbitrary: b st)
  case (Suc k)
  show ?case
  proof (cases "b = []")
    case False
    have "read_all sz k (st\<lparr>br := Some (drop (Suc (sz k)) b)\<rparr>) = Some (drop (Suc (sz k)) b)"
      using Suc.prems False by (intro Suc.IH) (cases b; auto)+
    then show ?thesis
      using Suc.prems(1) False by (simp add: trim_read_def bytes_read_def)
  qed (simp add: Suc.prems(1) trim_read_def bytes_read_def)
qed simp

text \<open>Reading the whole configuration through the wrapper yields the cleaned text, in
  whatever pieces it is read; as many reads as the text has bytes, and one, are enough. A
  source that cannot be read yields the error.\<close>

theorem read_all_cleaned:
  "read_all sz (Suc (length s)) (new_trim_reader (Some s)) = Some (prep s)
    \<and> read_all sz n (new_trim_reader None) = None"
proof
  let ?st = "new_trim_reader (Some s)"
  have len: "length (prep s) = length s"
    using prep_only_blanks_length [of s] .
  have "read_all sz (Suc (length s)) ?st = read_all sz (Suc (length s)) (?st\<lparr>br := Some (prep s)\<rparr>)"
    by (simp add: trim_read_def new_trim_reader_def bytes_read_def)
  also have "\<dots> = Some (prep s)"
    using len by (intro read_all_rest) simp_all
  finally show "read_all sz (Suc (length s)) ?st = Some (prep s)" .
  show "read_all sz n (new_trim_reader None) = None"
    by (cases n) (simp_all add: trim_read_def new_trim_reader_def)
qed

end
