(* ===== verification/Shards.thy ===== *)
theory Shards
  imports Prelude
begin

text \<open>
  The sharded tables of \<^verbatim>\<open>limiter/limiter.go\<close> (\<open>refShards\<close>, \<open>kickCooldown\<close>): an array of 256
  Go maps keyed by user id, where a user lives in shard \<^verbatim>\<open>uint(uid) & 255\<close>. The array is a
  function of the shard number. The lemmas show that a sharded table is one keyed store,
  what a \<open>range\<close> over all shards visits, and how the number of inner entries changes.
\<close>

type_synonym 'v shards = "nat \<Rightarrow> (int, 'v) gomap"

definition slookup :: "'v shards \<Rightarrow> int \<Rightarrow> 'v option" where
  "slookup sh uid = map_of (sh (shard_of uid)) uid"

definition sget :: "'v \<Rightarrow> 'v shards \<Rightarrow> int \<Rightarrow> 'v" where
  "sget z sh uid = mget z (sh (shard_of uid)) uid"

definition sput :: "int \<Rightarrow> 'v \<Rightarrow> 'v shards \<Rightarrow> 'v shards" where
  "sput uid v sh = sh(shard_of uid := mput uid v (sh (shard_of uid)))"

definition sdel :: "int \<Rightarrow> 'v shards \<Rightarrow> 'v shards" where
  "sdel uid sh = sh(shard_of uid := mdel uid (sh (shard_of uid)))"

definition sharded_wf :: "'v shards \<Rightarrow> bool" where
  "sharded_wf sh \<longleftrightarrow> (\<forall>i. wf_map (sh i) \<and> (\<forall>uid v. (uid, v) \<in> set (sh i) \<longrightarrow> shard_of uid = i))"

text \<open>Every entry, in the order a loop over the shards visits them.\<close>

definition entries :: "'v shards \<Rightarrow> (int \<times> 'v) list" where
  "entries sh = concat (map sh [0..<256])"

lemma sharded_wf_empty [simp, wf_intros]: "sharded_wf (\<lambda>i. [])"
  by (simp add: sharded_wf_def)

lemma sharded_wf_sput [wf_intros]: "sharded_wf sh \<Longrightarrow> sharded_wf (sput uid v sh)"
  by (auto simp: sharded_wf_def sput_def intro: wf_map_mput dest!: set_mput_subset)

lemma sharded_wf_sdel [wf_intros]: "sharded_wf sh \<Longrightarrow> sharded_wf (sdel uid sh)"
  by (auto simp: sharded_wf_def sdel_def set_mdel intro: wf_map_mdel)

lemma slookup_sput [simp, go_map]: "slookup (sput uid v sh) u = (if u = uid then Some v else slookup sh u)"
  by (auto simp: slookup_def sput_def)

lemma slookup_sdel [simp, go_map]: "slookup (sdel uid sh) u = (if u = uid then None else slookup sh u)"
  by (auto simp: slookup_def sdel_def)

lemma slookup_empty [simp, go_map]: "slookup (\<lambda>i. []) u = None"
  by (simp add: slookup_def)

lemma sget_slookup: "sget z sh u = (case slookup sh u of None \<Rightarrow> z | Some v \<Rightarrow> v)"
  by (simp add: sget_def slookup_def mget_def)

lemma sget_sput [simp, go_map]: "sget z (sput uid v sh) u = (if u = uid then v else sget z sh u)"
  by (simp add: sget_slookup)

lemma sget_sdel [simp, go_map]: "sget z (sdel uid sh) u = (if u = uid then z else sget z sh u)"
  by (simp add: sget_slookup)

interpretation sm: keyed_store slookup sput sdel sharded_wf
  by unfold_locales (auto intro: wf_intros)

lemma set_entries: "sharded_wf sh \<Longrightarrow> (uid, v) \<in> set (entries sh) \<longleftrightarrow> slookup sh uid = Some v"
proof -
  assume wf: "sharded_wf sh"
  have "(uid, v) \<in> set (sh i) \<longleftrightarrow> i = shard_of uid \<and> slookup sh uid = Some v" for i
    using wf map_of_Some_iff [of "sh i" uid v] by (auto simp: sharded_wf_def slookup_def)
  then show ?thesis using shard_of_less by (auto simp: entries_def)
qed

lemma wf_entries: "sharded_wf sh \<Longrightarrow> wf_map (entries sh)"
proof -
  assume wf: "sharded_wf sh"
  have own: "shard_of uid = i" if "uid \<in> fst ` set (sh i)" for uid i
  proof -
    from that obtain v where "(uid, v) \<in> set (sh i)" by auto
    with wf show ?thesis unfolding sharded_wf_def by blast
  qed
  have "distinct (concat (map (\<lambda>i. map fst (sh i)) [0..<n]))" for n
  proof (induction n)
    case (Suc n)
    have "set (concat (map (\<lambda>i. map fst (sh i)) [0..<n])) \<inter> fst ` set (sh n) = {}"
      by (auto dest: own [of _ n] simp: image_iff) (metis fst_conv image_eqI own less_irrefl)
    then show ?case
      using Suc wf by (simp add: sharded_wf_def wf_map_def)
  qed simp
  from this [of 256] show ?thesis by (simp add: wf_map_def entries_def map_concat comp_def)
qed

lemma map_of_entries: "sharded_wf sh \<Longrightarrow> map_of (entries sh) uid = slookup sh uid"
  using set_entries [of sh uid] map_of_Some_iff [OF wf_entries, of sh uid]
  by (cases "slookup sh uid"; cases "map_of (entries sh) uid") auto

text \<open>The number of inner entries of a table of maps.\<close>

definition total :: "('k, 'v) gomap shards \<Rightarrow> int" where
  "total sh = (\<Sum>i<256. \<Sum>p\<leftarrow>sh i. int (length (snd p)))"

lemma sum_mput:
  "wf_map m \<Longrightarrow> (\<Sum>p\<leftarrow>mput k v m. int (length (snd p)))
     = (\<Sum>p\<leftarrow>m. int (length (snd p))) + int (length v) - int (length (mget [] m k))"
  unfolding mput_def mget_def wf_map_def
  by (induction m) (auto simp: image_iff split: option.splits dest: map_of_SomeD)

lemma sum_mdel:
  "wf_map m \<Longrightarrow> (\<Sum>p\<leftarrow>mdel k m. int (length (snd p)))
     = (\<Sum>p\<leftarrow>m. int (length (snd p))) - int (length (mget [] m k))"
proof (induction m)
  case (Cons p m)
  then show ?case
    by (cases "fst p = k") (auto simp: mdel_def mget_def wf_map_def image_iff
        map_of_eq_None_iff split: option.splits)
qed (simp add: mdel_def mget_def)

lemma total_sput: "sharded_wf sh \<Longrightarrow>
    total (sput uid v sh) = total sh + int (length v) - int (length (sget [] sh uid))"
proof -
  assume wf: "sharded_wf sh"
  let ?s = "shard_of uid"
  have "total (sput uid v sh) = (\<Sum>p\<leftarrow>mput uid v (sh ?s). int (length (snd p)))
      + (\<Sum>i\<in>{..<256} - {?s}. \<Sum>p\<leftarrow>sh i. int (length (snd p)))"
    by (simp add: total_def sput_def sum.remove [of "{..<256}" ?s])
  also have "\<dots> = total sh + int (length v) - int (length (sget [] sh uid))"
    using wf by (simp add: sum_mput sharded_wf_def total_def sget_def sum.remove [of "{..<256}" ?s])
  finally show ?thesis .
qed

lemma total_sdel: "sharded_wf sh \<Longrightarrow> total (sdel uid sh) = total sh - int (length (sget [] sh uid))"
proof -
  assume wf: "sharded_wf sh"
  let ?s = "shard_of uid"
  have "total (sdel uid sh) = (\<Sum>p\<leftarrow>mdel uid (sh ?s). int (length (snd p)))
      + (\<Sum>i\<in>{..<256} - {?s}. \<Sum>p\<leftarrow>sh i. int (length (snd p)))"
    by (simp add: total_def sdel_def sum.remove [of "{..<256}" ?s])
  also have "\<dots> = total sh - int (length (sget [] sh uid))"
    using wf by (simp add: sum_mdel sharded_wf_def total_def sget_def sum.remove [of "{..<256}" ?s])
  finally show ?thesis .
qed

lemma total_empty [simp]: "total (\<lambda>i. []) = 0"
  by (simp add: total_def)

lemma total_nonneg: "0 \<le> total sh"
  unfolding total_def by (intro sum_nonneg sum_list_nonneg) auto

lemma total_zero: "total sh = 0 \<Longrightarrow> sget [] sh uid = []"
proof -
  assume z: "total sh = 0"
  have nn: "0 \<le> (\<Sum>p\<leftarrow>sh i. int (length (snd p)))" for i
    by (intro sum_list_nonneg) auto
  have "(\<Sum>p\<leftarrow>sh (shard_of uid). int (length (snd p))) = 0"
    using z nn by (simp add: total_def sum_nonneg_eq_0_iff)
  then have "\<forall>p\<in>set (sh (shard_of uid)). snd p = []"
    by (subst (asm) sum_list_nonneg_eq_0_iff) auto
  then show ?thesis
    by (auto simp: sget_def mget_def split: option.splits dest!: map_of_SomeD)
qed

end
