(* ===== verification/Users.thy ===== *)
theory Users
  imports Prelude
begin

text \<open>
  The user data of \<^verbatim>\<open>api/panel/user.go\<close> and the tag under which a user is known to the
  limiter, the dispatcher and Xray (\<^verbatim>\<open>common/format/user.go\<close>).
\<close>

record user_info =
  Id :: int
  Uuid :: string
  SpeedLimit :: int
  DeviceLimit :: int

type_synonym online_user = "int \<times> string" \<comment> \<open>UID, IP\<close>

record user_traffic =
  UID :: int
  Upload :: int
  Download :: int

definition user_tag :: "string \<Rightarrow> string \<Rightarrow> string" where
  "user_tag tag uuid = tag @ ''|'' @ uuid"

lemma user_tag_inject [simp]: "user_tag tag u = user_tag tag v \<longleftrightarrow> u = v"
  by (simp add: user_tag_def)

end
