(* ===== verification/Limiter.thy ===== *)
theory Limiter
  imports Shards Users
begin

text \<open>
  The per-node limiter of \<^verbatim>\<open>limiter/limiter.go\<close> and \<^verbatim>\<open>limiter/rule.go\<close>: state and operations.
  Each operation is the whole Go method as one function on the limiter's state, as its
  locks make it: what reads and changes one user's tables happens under that user's shard
  lock. Inputs that Go reads from its environment are arguments: the clock
  \<open>now\<close> (nanoseconds), the key \<open>r\<close> a \<open>range\<close> loop yields first, and for the regular
  expressions \<open>re_ok\<close> (does it compile) and \<open>re_match\<close>. A compiled expression is
  represented by its source text, a token bucket (a third-party type) by the constructor
  call that makes it. A goroutine that is started is returned as a value, to be run later.
\<close>

section \<open>State\<close>

record user_limit =
  ul_uid :: int
  ul_speed :: int
  ul_device :: int

datatype bucket = NewBucketWithQuantum int int int \<comment> \<open>fill interval, capacity, quantum\<close>

record limiter =
  domain_rules :: "string list"
  protocol_rules :: "string list"
  speed_limit :: int
  user_limit_info :: "(string, user_limit) gomap"
  speed_limiter :: "(string, bucket) gomap"
  alive_list :: "(int, int) gomap"
  ref_shards :: "(string, int) gomap shards"
  device_dirty :: bool
  kick_throttle :: "nat \<Rightarrow> int"
  kick_cooldown :: "(string, int) gomap shards"
  cooldown_count :: int
  global_devices :: "(int, (string, bool) gomap) gomap"
  global_count :: "(int, int) gomap"
  global_last_update :: "int option" \<comment> \<open>\<open>None\<close>: the zero time, never updated\<close>

record rules =
  rl_regexp :: "string list"
  rl_protocol :: "string list"

type_synonym kick = "int \<times> string \<times> string" \<comment> \<open>uid, taguuid, IP\<close>
type_synonym registry = "(string, limiter) gomap"

definition global_devices_stale_after :: int where "global_devices_stale_after = 60 * second"
definition kick_cooldown_duration :: int where "kick_cooldown_duration = 300 * second"

text \<open>\<^verbatim>\<open>strings.TrimPrefix(ip, "::ffff:")\<close>\<close>

definition trim_ip :: "string \<Rightarrow> string" where
  "trim_ip = trim_prefix ''::ffff:''"

text \<open>The two inner maps of a user; a missing user reads as a nil map.\<close>

definition local_of :: "limiter \<Rightarrow> int \<Rightarrow> (string, int) gomap" where
  "local_of l uid = sget [] (ref_shards l) uid"

definition cool_of :: "limiter \<Rightarrow> int \<Rightarrow> (string, int) gomap" where
  "cool_of l uid = sget [] (kick_cooldown l) uid"

section \<open>Construction, registry, users\<close>

definition make_user_limit :: "user_info \<Rightarrow> user_limit" where
  "make_user_limit u =
     \<lparr>ul_uid = Id u,
      ul_speed = (if SpeedLimit u \<noteq> 0 then SpeedLimit u else 0),
      ul_device = (if DeviceLimit u \<noteq> 0 then DeviceLimit u else 0)\<rparr>"

definition new_limiter :: "string \<Rightarrow> int \<Rightarrow> user_info list \<Rightarrow> (int, int) gomap \<Rightarrow> limiter" where
  "new_limiter tag speed users alive =
     \<lparr>domain_rules = [], protocol_rules = [], speed_limit = speed,
      user_limit_info = fold (\<lambda>u. mput (user_tag tag (Uuid u)) (make_user_limit u)) users [],
      speed_limiter = [], alive_list = fold (\<lambda>(k, v). mput k v) alive [],
      ref_shards = (\<lambda>i. []), device_dirty = False, kick_throttle = (\<lambda>i. 0),
      kick_cooldown = (\<lambda>i. []), cooldown_count = 0,
      global_devices = [], global_count = [], global_last_update = None\<rparr>"

definition add_limiter ::
    "string \<Rightarrow> int \<Rightarrow> user_info list \<Rightarrow> (int, int) gomap \<Rightarrow> registry \<Rightarrow> limiter \<times> registry" where
  "add_limiter tag speed users alive reg =
     (let info = new_limiter tag speed users alive in (info, mput tag info reg))"

definition get_limiter :: "string \<Rightarrow> registry \<Rightarrow> string + limiter" where
  "get_limiter tag reg = (case map_of reg tag of None \<Rightarrow> Inl ''not found'' | Some info \<Rightarrow> Inr info)"

definition delete_limiter :: "string \<Rightarrow> registry \<Rightarrow> registry" where
  "delete_limiter tag reg = mdel tag reg"

definition set_alive_list :: "(int, int) gomap \<Rightarrow> limiter \<Rightarrow> limiter" where
  "set_alive_list m l = l\<lparr>alive_list := m\<rparr>"

definition get_alive_count :: "limiter \<Rightarrow> int \<Rightarrow> int" where
  "get_alive_count l uid = mget 0 (alive_list l) uid"

definition get_alive_list :: "limiter \<Rightarrow> (int, int) gomap" where
  "get_alive_list l = fold (\<lambda>(k, v). mput k v) (alive_list l) []"

definition del_alive :: "int \<Rightarrow> limiter \<Rightarrow> limiter" where
  "del_alive uid l = l\<lparr>alive_list := mdel uid (alive_list l)\<rparr>"

text \<open>The loop body for a deleted user.\<close>

definition drop_user :: "string \<Rightarrow> user_info \<Rightarrow> limiter \<Rightarrow> limiter" where
  "drop_user tag u l =
     (let k = user_tag tag (Uuid u); uid = Id u;
          l1 = l\<lparr>user_limit_info := mdel k (user_limit_info l), speed_limiter := mdel k (speed_limiter l)\<rparr>;
          l2 = del_alive uid l1;
          l3 = l2\<lparr>ref_shards := sdel uid (ref_shards l2),
                  global_devices := mdel uid (global_devices l2), global_count := mdel uid (global_count l2)\<rparr>;
          l4 = (if kick_cooldown l3 (shard_of uid) \<noteq> [] then
                  (case slookup (kick_cooldown l3) uid of
                     Some ips \<Rightarrow> l3\<lparr>cooldown_count := cooldown_count l3 - int (length ips),
                                   kick_cooldown := sdel uid (kick_cooldown l3)\<rparr>
                   | None \<Rightarrow> l3)
                else l3)
      in l4\<lparr>device_dirty := True\<rparr>)"

text \<open>The loop body for a user whose limits changed: the cached bucket goes in any case.\<close>

definition modify_user :: "string \<Rightarrow> user_info \<Rightarrow> limiter \<Rightarrow> limiter" where
  "modify_user tag u l =
     (let k = user_tag tag (Uuid u);
          l1 = (case map_of (user_limit_info l) k of
                  Some v \<Rightarrow> l\<lparr>user_limit_info :=
                      mput k (v\<lparr>ul_speed := SpeedLimit u, ul_device := DeviceLimit u\<rparr>) (user_limit_info l)\<rparr>
                | None \<Rightarrow> l)
      in l1\<lparr>speed_limiter := mdel k (speed_limiter l1)\<rparr>)"

definition insert_user :: "string \<Rightarrow> user_info \<Rightarrow> limiter \<Rightarrow> limiter" where
  "insert_user tag u l =
     l\<lparr>user_limit_info := mput (user_tag tag (Uuid u)) (make_user_limit u) (user_limit_info l)\<rparr>"

definition update_user ::
    "string \<Rightarrow> user_info list \<Rightarrow> user_info list \<Rightarrow> user_info list \<Rightarrow> limiter \<Rightarrow> limiter" where
  "update_user tag added deleted modified l =
     fold (insert_user tag) added (fold (modify_user tag) modified (fold (drop_user tag) deleted l))"

section \<open>Connection counts\<close>

definition conn_opened :: "int \<Rightarrow> string \<Rightarrow> limiter \<Rightarrow> limiter" where
  "conn_opened uid ip0 l =
     (let ip = trim_ip ip0; m = sget [] (ref_shards l) uid in
        l\<lparr>ref_shards := sput uid (mput ip (mget 0 m ip + 1) m) (ref_shards l), device_dirty := True\<rparr>)"

text \<open>\<^verbatim>\<open>m[ip]--\<close>, then the entry goes at zero (or below) and the user with its last entry.\<close>

definition dec_ref :: "string \<Rightarrow> (string, int) gomap \<Rightarrow> (string, int) gomap" where
  "dec_ref ip m = (let m1 = mput ip (mget 0 m ip - 1) m in if mget 0 m1 ip \<le> 0 then mdel ip m1 else m1)"

definition conn_closed :: "string \<Rightarrow> string \<Rightarrow> limiter \<Rightarrow> limiter" where
  "conn_closed taguuid ip0 l =
     (let ip = trim_ip ip0 in
        case map_of (user_limit_info l) taguuid of
          None \<Rightarrow> l
        | Some v \<Rightarrow>
            (let uid = ul_uid v;
                 sh = (case slookup (ref_shards l) uid of
                         None \<Rightarrow> ref_shards l
                       | Some m \<Rightarrow> (let m' = dec_ref ip m in
                           if m' = [] then sdel uid (ref_shards l) else sput uid m' (ref_shards l)))
             in l\<lparr>ref_shards := sh, device_dirty := True\<rparr>))"

section \<open>The device gate\<close>

definition pick_victim :: "nat \<Rightarrow> (string, int) gomap \<Rightarrow> (string, bool) gomap \<Rightarrow> string" where
  "pick_victim r local global =
     (case range_first r (mkeys local) of
        Some ip \<Rightarrow> ip
      | None \<Rightarrow> (case range_first r (mkeys global) of Some ip \<Rightarrow> ip | None \<Rightarrow> ''''))"

definition is_stale :: "int \<Rightarrow> limiter \<Rightarrow> bool" where
  "is_stale now l =
     (case global_last_update l of None \<Rightarrow> True | Some t \<Rightarrow> now - t > global_devices_stale_after)"

text \<open>\<^verbatim>\<open>for gip := range globalIPs { if _, dup := local[gip]; !dup { count++ } }\<close>\<close>

fun count_union :: "(string, int) gomap \<Rightarrow> string list \<Rightarrow> int \<Rightarrow> int" where
  "count_union local [] n = n"
| "count_union local (gip # gips) n =
     count_union local gips (if mhas local gip then n else n + 1)"

text \<open>Result: reject, and the victim to be kicked (the empty string for none).\<close>

definition check_device_gate :: "int \<Rightarrow> nat \<Rightarrow> int \<Rightarrow> string \<Rightarrow> int \<Rightarrow> limiter \<Rightarrow> bool \<times> string" where
  "check_device_gate now r uid ip limit l =
     (if limit \<le> 0 then (False, '''')
      else
        let stale = is_stale now l;
            globalIPs = mget [] (global_devices l) uid;
            globalCount = mget 0 (global_count l) uid;
            local = local_of l uid
        in
          if mget 0 local ip > 0 then (False, '''')
          else if \<not> stale then
            if mget False globalIPs ip then (True, '''')
            else if int (length local) \<ge> limit \<or> globalCount \<ge> limit
              then (True, pick_victim r local globalIPs)
            else if int (length local) + globalCount < limit then (False, '''')
            else let n = count_union local (mkeys globalIPs) (int (length local)) in
              (n \<ge> limit, if n \<ge> limit then pick_victim r local globalIPs else '''')
          else if int (length local) < limit then
            (if get_alive_count l uid \<ge> limit then (True, pick_victim r local []) else (False, ''''))
          else (True, pick_victim r local []))"

definition in_cooldown :: "int \<Rightarrow> int \<Rightarrow> string \<Rightarrow> limiter \<Rightarrow> bool" where
  "in_cooldown now uid ip l =
     (if cooldown_count l = 0 then False
      else if kick_cooldown l (shard_of uid) = [] then False
      else case slookup (kick_cooldown l) uid of
             None \<Rightarrow> False
           | Some ips \<Rightarrow> (case map_of ips ip of None \<Rightarrow> False | Some exp \<Rightarrow> now < exp))"

text \<open>\<^verbatim>\<open>TryOpenConn\<close>: admitted or not, the new state, and the kicks started (\<^verbatim>\<open>go kickDevice\<close>).\<close>

definition try_open_conn ::
    "int \<Rightarrow> nat \<Rightarrow> int \<Rightarrow> string \<Rightarrow> string \<Rightarrow> int \<Rightarrow> limiter \<Rightarrow> bool \<times> limiter \<times> kick list" where
  "try_open_conn now r uid taguuid ip0 limit l =
     (let ip = trim_ip ip0 in
        if limit \<le> 0 then (True, conn_opened uid ip l, [])
        else if in_cooldown now uid ip l then (False, l, [])
        else
          (case check_device_gate now r uid ip limit l of
             (True, victim) \<Rightarrow>
               if victim \<noteq> '''' \<and> now - kick_throttle l (shard_of uid) > second
               then (False, l\<lparr>kick_throttle := (kick_throttle l)(shard_of uid := now)\<rparr>,
                     [(uid, taguuid, victim)])
               else (False, l, [])
           | (False, _) \<Rightarrow> (True, conn_opened uid ip l, [])))"

text \<open>\<^verbatim>\<open>kickDevice\<close>: its effect on the limiter, and the callbacks it runs before and after it.\<close>

definition kick_device :: "int \<Rightarrow> kick \<Rightarrow> limiter \<Rightarrow> limiter" where
  "kick_device now k l =
     (case k of (uid, taguuid, ip) \<Rightarrow>
        (let ips = sget [] (kick_cooldown l) uid in
           l\<lparr>cooldown_count := (if mhas ips ip then cooldown_count l else cooldown_count l + 1),
             kick_cooldown := sput uid (mput ip (now + kick_cooldown_duration) ips) (kick_cooldown l),
             device_dirty := True\<rparr>))"

datatype kick_call = CallKickLocal string string | CallKickReporter int string string

definition kick_calls :: "bool \<Rightarrow> bool \<Rightarrow> kick \<Rightarrow> kick_call list" where
  "kick_calls has_local has_reporter k =
     (case k of (uid, taguuid, ip) \<Rightarrow>
        (if has_local then [CallKickLocal taguuid ip] else [])
        @ (if has_reporter then [CallKickReporter uid taguuid ip] else []))"

section \<open>The limit check of a new connection\<close>

definition determine_speed_limit :: "int \<Rightarrow> int \<Rightarrow> int" where
  "determine_speed_limit limit1 limit2 =
     (if limit1 = 0 \<or> limit2 = 0 then
        (if limit1 > limit2 then limit1 else if limit1 < limit2 then limit2 else 0)
      else
        (if limit1 > limit2 then limit2 else if limit1 < limit2 then limit1 else limit1))"

text \<open>\<^verbatim>\<open>int64(...) * 1000000 / 8\<close>, bytes per second\<close>

definition byte_rate :: "int \<Rightarrow> int" where
  "byte_rate mbit = wrap64 (mbit * 1000000) sdiv 8"

definition speed_bucket :: "string \<Rightarrow> int \<Rightarrow> limiter \<Rightarrow> bucket option \<times> limiter" where
  "speed_bucket taguuid user_speed l =
     (let limit = byte_rate (determine_speed_limit (max (speed_limit l) 0) user_speed) in
        if limit > 0 then
          (case map_of (speed_limiter l) taguuid of
             Some b \<Rightarrow> (Some b, l)
           | None \<Rightarrow> (let b = NewBucketWithQuantum second limit limit in
               (Some b, l\<lparr>speed_limiter := mput taguuid b (speed_limiter l)\<rparr>)))
        else (None, l))"

text \<open>Result: the bucket, reject, the new state and the kicks started.\<close>

definition check_limit ::
    "int \<Rightarrow> nat \<Rightarrow> string \<Rightarrow> string \<Rightarrow> bool \<Rightarrow> limiter \<Rightarrow> bucket option \<times> bool \<times> limiter \<times> kick list" where
  "check_limit now r taguuid ip0 noSSUDP l =
     (let ip = trim_ip ip0 in
        case map_of (user_limit_info l) taguuid of
          None \<Rightarrow> (None, True, l, [])
        | Some u \<Rightarrow>
            (let uid = ul_uid u; device_limit = ul_device u; user_speed = max (ul_speed u) 0 in
               if noSSUDP then
                 (case try_open_conn now r uid taguuid ip device_limit l of
                    (False, l1, ks) \<Rightarrow> (None, True, l1, ks)
                  | (True, l1, ks) \<Rightarrow>
                      (case speed_bucket taguuid user_speed l1 of (b, l2) \<Rightarrow> (b, False, l2, ks)))
               else if device_limit > 0 \<and> fst (check_device_gate now r uid ip device_limit l) then
                 (None, True, l, [])
               else (case speed_bucket taguuid user_speed l of (b, l2) \<Rightarrow> (b, False, l2, []))))"

section \<open>Reports and the global table\<close>

definition get_online_device :: "limiter \<Rightarrow> online_user list" where
  "get_online_device l = concat (map (\<lambda>(uid, m). map (\<lambda>ip. (uid, ip)) (mkeys m)) (entries (ref_shards l)))"

definition ip_set :: "string list \<Rightarrow> (string, bool) gomap" where
  "ip_set ips = fold (\<lambda>ip. mput (trim_ip ip) True) ips []"

definition update_global_devices :: "int \<Rightarrow> (int, string list) gomap option \<Rightarrow> limiter \<Rightarrow> limiter" where
  "update_global_devices now users0 l =
     (let users = (case users0 of None \<Rightarrow> [] | Some m \<Rightarrow> m);
          devices = fold (\<lambda>(uid, ips). mput uid (ip_set ips)) users [];
          counts = fold (\<lambda>(uid, m). mput uid (int (length m))) devices []
      in l\<lparr>global_devices := devices, global_count := counts, global_last_update := Some now\<rparr>)"

fun merge_cooling :: "int \<Rightarrow> (string, int) gomap \<Rightarrow> string list \<Rightarrow> string list" where
  "merge_cooling now [] cur = cur"
| "merge_cooling now ((ip, exp) # ips) cur =
     merge_cooling now ips (if now < exp \<and> ip \<notin> set cur then cur @ [ip] else cur)"

definition local_device_snapshot :: "int \<Rightarrow> limiter \<Rightarrow> (int, string list) gomap" where
  "local_device_snapshot now l =
     (let out = fold (\<lambda>(uid, m). mput uid (mkeys m)) (entries (ref_shards l)) [] in
        if cooldown_count l = 0 then out
        else fold (\<lambda>(uid, ips) out. mput uid (merge_cooling now ips (mget [] out uid)) out)
               (entries (kick_cooldown l)) out)"

definition purge_user :: "int \<Rightarrow> (string, int) gomap \<Rightarrow> (string, int) gomap" where
  "purge_user now ips = filter (\<lambda>(ip, exp). now < exp) ips"

definition purge_shard :: "int \<Rightarrow> (int, (string, int) gomap) gomap \<Rightarrow> (int, (string, int) gomap) gomap" where
  "purge_shard now sh = filter (\<lambda>(uid, ips). ips \<noteq> []) (map (\<lambda>(uid, ips). (uid, purge_user now ips)) sh)"

definition purge_expired_cooldowns :: "int \<Rightarrow> limiter \<Rightarrow> bool \<times> limiter" where
  "purge_expired_cooldowns now l =
     (if cooldown_count l = 0 then (False, l)
      else
        let gone = (\<Sum>i\<leftarrow>[0..<256]. \<Sum>(uid, ips)\<leftarrow>kick_cooldown l i.
                      int (length ips) - int (length (purge_user now ips)));
            removed = (gone > 0)
        in (removed, l\<lparr>kick_cooldown := (\<lambda>i. purge_shard now (kick_cooldown l i)),
                       cooldown_count := cooldown_count l - gone,
                       device_dirty := device_dirty l \<or> removed\<rparr>))"

definition devices_dirty :: "int \<Rightarrow> limiter \<Rightarrow> bool \<times> limiter" where
  "devices_dirty now l =
     (case purge_expired_cooldowns now l of (removed, l1) \<Rightarrow> (device_dirty l1 \<or> removed, l1))"

definition reset_devices_dirty :: "limiter \<Rightarrow> limiter" where
  "reset_devices_dirty l = l\<lparr>device_dirty := False\<rparr>"

section \<open>Rules\<close>

definition check_domain_rule :: "(string \<Rightarrow> string \<Rightarrow> bool) \<Rightarrow> string \<Rightarrow> limiter \<Rightarrow> bool" where
  "check_domain_rule re_match destination l = list_ex (\<lambda>re. re_match re destination) (domain_rules l)"

definition check_protocol_rule :: "string \<Rightarrow> limiter \<Rightarrow> bool" where
  "check_protocol_rule protocol l = list_ex (\<lambda>p. p = protocol) (protocol_rules l)"

fun compile_all :: "(string \<Rightarrow> bool) \<Rightarrow> string list \<Rightarrow> string + string list" where
  "compile_all re_ok [] = Inr []"
| "compile_all re_ok (re # res) =
     (if \<not> re_ok re then Inl re
      else case compile_all re_ok res of Inl e \<Rightarrow> Inl e | Inr cs \<Rightarrow> Inr (re # cs))"

text \<open>The error carries the expression that does not compile.\<close>

definition update_rule :: "(string \<Rightarrow> bool) \<Rightarrow> rules \<Rightarrow> limiter \<Rightarrow> string + limiter" where
  "update_rule re_ok rule l =
     (case compile_all re_ok (rl_regexp rule) of
        Inl e \<Rightarrow> Inl e
      | Inr compiled \<Rightarrow> Inr (l\<lparr>domain_rules := compiled, protocol_rules := rl_protocol rule\<rparr>))"

end
