(* ===== verification/LimiterInv.thy ===== *)
theory LimiterInv
  imports Limiter
begin

text \<open>
  The limiter's invariant and the runs of a node's limiter. \<open>limiter_inv\<close> says that every
  table is a Go map, that a user has an inner map only while it has an entry, that live
  counts are positive, that the atomic counter \<^verbatim>\<open>cooldownCount\<close> is the number of cooldown
  entries and that \<^verbatim>\<open>globalCount\<close> holds the sizes of \<^verbatim>\<open>globalDevices\<close>. \<open>limiter_step\<close> is the
  whole interface of the limiter as a step relation, with a clock and the kicks that have
  been started and not yet run (Go starts \<^verbatim>\<open>kickDevice\<close> in a goroutine).
\<close>

section \<open>The invariant\<close>

definition refs_ok :: "(string, int) gomap shards \<Rightarrow> bool" where
  "refs_ok sh \<longleftrightarrow> sharded_wf sh \<and>
     (\<forall>uid m. slookup sh uid = Some m \<longrightarrow> wf_map m \<and> m \<noteq> [] \<and> (\<forall>ip c. map_of m ip = Some c \<longrightarrow> 0 < c))"

definition cool_ok :: "(string, int) gomap shards \<Rightarrow> bool" where
  "cool_ok sh \<longleftrightarrow> sharded_wf sh \<and> (\<forall>uid m. slookup sh uid = Some m \<longrightarrow> wf_map m \<and> m \<noteq> [])"

definition global_ok :: "(int, (string, bool) gomap) gomap \<Rightarrow> (int, int) gomap \<Rightarrow> bool" where
  "global_ok g c \<longleftrightarrow> wf_map g \<and> wf_map c \<and>
     (\<forall>uid. mget 0 c uid = int (length (mget [] g uid)) \<and> wf_map (mget [] g uid)
        \<and> (\<forall>ip b. map_of (mget [] g uid) ip = Some b \<longrightarrow> b))"

definition limiter_inv :: "limiter \<Rightarrow> bool" where
  "limiter_inv l \<longleftrightarrow> refs_ok (ref_shards l) \<and> cool_ok (kick_cooldown l)
     \<and> cooldown_count l = total (kick_cooldown l)
     \<and> global_ok (global_devices l) (global_count l)
     \<and> wf_map (user_limit_info l) \<and> wf_map (speed_limiter l) \<and> wf_map (alive_list l)"

named_theorems inv_simps \<comment> \<open>the fields an operation leaves alone\<close>

lemma refs_ok_empty [simp]: "refs_ok (\<lambda>i. [])"
  by (simp add: refs_ok_def)

lemma cool_ok_empty [simp]: "cool_ok (\<lambda>i. [])"
  by (simp add: cool_ok_def)

lemma global_ok_empty [simp]: "global_ok [] []"
  by (simp add: global_ok_def)

lemma limiter_invI:
  "refs_ok (ref_shards l) \<Longrightarrow> cool_ok (kick_cooldown l) \<Longrightarrow> cooldown_count l = total (kick_cooldown l) \<Longrightarrow>
   global_ok (global_devices l) (global_count l) \<Longrightarrow> wf_map (user_limit_info l) \<Longrightarrow>
   wf_map (speed_limiter l) \<Longrightarrow> wf_map (alive_list l) \<Longrightarrow> limiter_inv l"
  by (simp add: limiter_inv_def)

lemma refs_okD: "refs_ok sh \<Longrightarrow> sharded_wf sh"
  by (simp add: refs_ok_def)

lemma cool_okD: "cool_ok sh \<Longrightarrow> sharded_wf sh"
  by (simp add: cool_ok_def)

lemma wf_sget_refs: "refs_ok sh \<Longrightarrow> wf_map (sget [] sh uid)"
  by (auto simp: refs_ok_def sget_slookup split: option.splits)

lemma wf_sget_cool: "cool_ok sh \<Longrightarrow> wf_map (sget [] sh uid)"
  by (auto simp: cool_ok_def sget_slookup split: option.splits)

lemma pos_sget_refs: "refs_ok sh \<Longrightarrow> map_of (sget [] sh uid) ip = Some c \<Longrightarrow> 0 < c"
  by (auto simp: refs_ok_def sget_slookup split: option.splits)

lemma local_of_wf: "limiter_inv l \<Longrightarrow> wf_map (local_of l uid)"
  by (simp add: limiter_inv_def local_of_def wf_sget_refs)

lemma local_of_pos: "limiter_inv l \<Longrightarrow> map_of (local_of l uid) ip = Some c \<Longrightarrow> 0 < c"
  by (auto simp: limiter_inv_def local_of_def dest: pos_sget_refs)

text \<open>A live count is positive exactly for the addresses in the table.\<close>

lemma local_live: "limiter_inv l \<Longrightarrow> 0 < mget 0 (local_of l uid) ip \<longleftrightarrow> mhas (local_of l uid) ip"
  using local_of_pos [of l uid ip] by (auto simp: mget_def mhas_def split: option.splits)

lemma cool_of_wf: "limiter_inv l \<Longrightarrow> wf_map (cool_of l uid)"
  by (simp add: limiter_inv_def cool_of_def wf_sget_cool)

lemma refs_ok_sput:
  "refs_ok sh \<Longrightarrow> wf_map m \<Longrightarrow> m \<noteq> [] \<Longrightarrow> (\<And>ip c. map_of m ip = Some c \<Longrightarrow> 0 < c) \<Longrightarrow> refs_ok (sput uid m sh)"
  by (auto simp: refs_ok_def intro: wf_intros)

lemma refs_ok_sdel: "refs_ok sh \<Longrightarrow> refs_ok (sdel uid sh)"
  by (auto simp: refs_ok_def intro: wf_intros split: if_splits)

lemma cool_ok_sput: "cool_ok sh \<Longrightarrow> wf_map m \<Longrightarrow> m \<noteq> [] \<Longrightarrow> cool_ok (sput uid m sh)"
  by (auto simp: cool_ok_def intro: wf_intros)

lemma cool_ok_sdel: "cool_ok sh \<Longrightarrow> cool_ok (sdel uid sh)"
  by (auto simp: cool_ok_def intro: wf_intros split: if_splits)

lemma global_ok_mdel: "global_ok g c \<Longrightarrow> global_ok (mdel uid g) (mdel uid c)"
  by (auto simp: global_ok_def intro: wf_intros)

section \<open>Construction and users\<close>

lemma inv_new_limiter: "limiter_inv (new_limiter tag speed users alive)"
proof -
  have "wf_map (fold (\<lambda>u. mput (user_tag tag (Uuid u)) (make_user_limit u)) users [])"
    by (rule gm.valid_store_all) simp
  moreover have "wf_map (fold (\<lambda>(k, v). mput k v) alive [])"
    using gm.valid_store_all [of "[]" fst snd alive] by (simp add: case_prod_unfold)
  ultimately show ?thesis
    by (simp add: limiter_inv_def new_limiter_def)
qed

lemma inv_drop_user: "limiter_inv l \<Longrightarrow> limiter_inv (drop_user tag u l)"
proof -
  assume inv: "limiter_inv l"
  have nil: "slookup (kick_cooldown l) uid = None" if "kick_cooldown l (shard_of uid) = []" for uid
    using that by (simp add: slookup_def)
  have "cool_ok (kick_cooldown (drop_user tag u l)) \<and>
      cooldown_count (drop_user tag u l) = total (kick_cooldown (drop_user tag u l))"
    using inv nil total_sdel [OF cool_okD, of "kick_cooldown l" "Id u"]
    by (auto simp: drop_user_def limiter_inv_def del_alive_def Let_def sget_slookup
        intro: cool_ok_sdel split: option.splits)
  moreover have "ref_shards (drop_user tag u l) = sdel (Id u) (ref_shards l)"
    "global_devices (drop_user tag u l) = mdel (Id u) (global_devices l)"
    "global_count (drop_user tag u l) = mdel (Id u) (global_count l)"
    "user_limit_info (drop_user tag u l) = mdel (user_tag tag (Uuid u)) (user_limit_info l)"
    "speed_limiter (drop_user tag u l) = mdel (user_tag tag (Uuid u)) (speed_limiter l)"
    "alive_list (drop_user tag u l) = mdel (Id u) (alive_list l)"
    by (auto simp: drop_user_def del_alive_def Let_def split: option.splits)
  ultimately show ?thesis
    using inv by (auto simp: limiter_inv_def intro: refs_ok_sdel global_ok_mdel wf_map_mdel)
qed

lemma inv_modify_user: "limiter_inv l \<Longrightarrow> limiter_inv (modify_user tag u l)"
  by (auto simp: modify_user_def limiter_inv_def Let_def intro: wf_intros split: option.splits)

lemma inv_insert_user: "limiter_inv l \<Longrightarrow> limiter_inv (insert_user tag u l)"
  by (auto simp: insert_user_def limiter_inv_def intro: wf_intros)

lemma fold_keeps: "(\<And>x s. P s \<Longrightarrow> P (f x s)) \<Longrightarrow> P s \<Longrightarrow> P (fold f xs s)"
  by (induction xs arbitrary: s) auto

lemma inv_update_user: "limiter_inv l \<Longrightarrow> limiter_inv (update_user tag added deleted modified l)"
  unfolding update_user_def
  by (intro fold_keeps [where P = limiter_inv] inv_insert_user inv_modify_user inv_drop_user)

section \<open>Connections and kicks\<close>

lemma inv_conn_opened: "limiter_inv l \<Longrightarrow> limiter_inv (conn_opened uid ip l)"
proof -
  assume inv: "limiter_inv l"
  have "0 \<le> mget 0 (sget [] (ref_shards l) uid) i" for i
    using inv by (auto simp: limiter_inv_def mget_def dest: pos_sget_refs intro: less_imp_le split: option.splits)
  then have "0 < mget 0 (sget [] (ref_shards l) uid) i + 1" for i
    by (simp add: add_nonneg_pos)
  then have "refs_ok (sput uid (mput i (mget 0 (sget [] (ref_shards l) uid) i + 1)
      (sget [] (ref_shards l) uid)) (ref_shards l))" for i
    using inv by (intro refs_ok_sput)
      (auto simp: limiter_inv_def intro: wf_intros wf_sget_refs dest: pos_sget_refs split: if_splits)
  with inv show ?thesis by (simp add: limiter_inv_def conn_opened_def Let_def)
qed

lemma map_of_dec_ref:
  "map_of (dec_ref ip m) i = (if i = ip then (if mget 0 m ip \<le> 1 then None else Some (mget 0 m ip - 1)) else map_of m i)"
  by (auto simp: dec_ref_def Let_def)

lemma wf_dec_ref [wf_intros]: "wf_map m \<Longrightarrow> wf_map (dec_ref ip m)"
  by (auto simp: dec_ref_def Let_def intro: wf_intros)

lemma refs_ok_dec:
  "refs_ok sh \<Longrightarrow> slookup sh uid = Some m \<Longrightarrow> dec_ref ip m \<noteq> [] \<Longrightarrow> refs_ok (sput uid (dec_ref ip m) sh)"
  by (intro refs_ok_sput) (auto simp: refs_ok_def map_of_dec_ref intro: wf_intros split: if_splits)

lemma inv_conn_closed: "limiter_inv l \<Longrightarrow> limiter_inv (conn_closed k ip l)"
  by (auto simp: limiter_inv_def conn_closed_def Let_def refs_ok_sdel refs_ok_dec split: option.splits)

lemma inv_kick_device: "limiter_inv l \<Longrightarrow> limiter_inv (kick_device now k l)"
proof -
  assume inv: "limiter_inv l"
  obtain uid taguuid ip where k: "k = (uid, taguuid, ip)" by (cases k) auto
  let ?ips = "sget [] (kick_cooldown l) uid"
  have "cool_ok (sput uid (mput ip t ?ips) (kick_cooldown l))" for t
    using inv by (intro cool_ok_sput) (auto simp: limiter_inv_def intro: wf_intros wf_sget_cool)
  moreover have "total (sput uid (mput ip t ?ips) (kick_cooldown l))
      = total (kick_cooldown l) + (if mhas ?ips ip then 0 else 1)" for t
    using inv by (simp add: limiter_inv_def total_sput cool_okD length_mput)
  ultimately show ?thesis
    using inv by (simp add: limiter_inv_def kick_device_def k Let_def)
qed

lemma inv_throttle: "limiter_inv l \<Longrightarrow> limiter_inv (l\<lparr>kick_throttle := t\<rparr>)"
  by (simp add: limiter_inv_def)

lemma inv_try_open_conn:
  "limiter_inv l \<Longrightarrow> try_open_conn now r uid k ip limit l = (ok, l', ks) \<Longrightarrow> limiter_inv l'"
  by (auto simp: try_open_conn_def Let_def intro: inv_conn_opened inv_throttle split: if_splits prod.splits bool.splits)

lemma inv_speed_bucket: "limiter_inv l \<Longrightarrow> speed_bucket k s l = (b, l') \<Longrightarrow> limiter_inv l'"
  by (auto simp: speed_bucket_def Let_def limiter_inv_def intro: wf_intros split: if_splits option.splits)

lemma inv_check_limit:
  "limiter_inv l \<Longrightarrow> check_limit now r k ip tcp l = (b, rej, l', ks) \<Longrightarrow> limiter_inv l'"
  by (auto simp: check_limit_def Let_def intro: inv_try_open_conn inv_speed_bucket
      split: if_splits prod.splits option.splits bool.splits)


section \<open>The global table and the cooldown list\<close>

lemma map_of_ip_set: "map_of (ip_set ips) ip = (if ip \<in> trim_ip ` set ips then Some True else None)"
proof -
  have "map_of (fold (\<lambda>ip. mput (trim_ip ip) True) ips m) ip
      = (if ip \<in> trim_ip ` set ips then Some True else map_of m ip)" for m
    by (induction ips arbitrary: m) auto
  then show ?thesis by (simp add: ip_set_def)
qed

lemma wf_ip_set: "wf_map (ip_set ips)"
  unfolding ip_set_def by (rule gm.valid_store_all) simp

lemma fold_mput_list:
  "wf_map m \<Longrightarrow> wf_map (fold (\<lambda>(k, v). mput k (f v)) xs m) \<and>
     (distinct (map fst xs) \<longrightarrow> map_of (fold (\<lambda>(k, v). mput k (f v)) xs m) =
        map_of m ++ (\<lambda>k. map_option f (map_of xs k)))"
proof (induction xs arbitrary: m)
  case (Cons p xs)
  obtain k v where p: "p = (k, v)" by (cases p)
  have "k \<notin> fst ` set xs \<Longrightarrow> map_of xs k = None"
    by (simp add: map_of_eq_None_iff)
  then show ?case
    using Cons.IH [of "mput k (f v) m"] Cons.prems
    by (auto simp: p wf_map_mput map_add_def fun_eq_iff split: option.splits)
qed (simp add: fun_eq_iff map_add_def)

lemma fold_mput_fresh:
  "wf_map (fold (\<lambda>(k, v). mput k (f v)) xs [])"
  "wf_map xs \<Longrightarrow> map_of (fold (\<lambda>(k, v). mput k (f v)) xs []) k = map_option f (map_of xs k)"
  using fold_mput_list [of "[]" f xs] by (simp_all add: wf_map_def map_add_def split: option.splits)

lemma fold_mput_vals:
  "map_of m k = Some v \<Longrightarrow> (\<And>k v. map_of m0 k = Some v \<Longrightarrow> \<exists>x. v = f x) \<Longrightarrow>
     m = fold (\<lambda>(k, v). mput k (f v)) xs m0 \<Longrightarrow> \<exists>x. v = f x"
proof (induction xs arbitrary: m0)
  case (Cons p xs)
  show ?case
  proof (rule Cons.IH)
    show "map_of m k = Some v" by fact
    show "m = fold (\<lambda>(k, v). mput k (f v)) xs (mput (fst p) (f (snd p)) m0)"
      using Cons.prems(3) by (simp add: case_prod_unfold)
  qed (use Cons.prems(2) in \<open>auto split: if_splits\<close>)
qed auto

lemma inv_update_global: "limiter_inv l \<Longrightarrow> limiter_inv (update_global_devices now users l)"
proof -
  assume inv: "limiter_inv l"
  let ?u = "case users of None \<Rightarrow> [] | Some m \<Rightarrow> m"
  define dev where "dev = fold (\<lambda>(uid, ips). mput uid (ip_set ips)) ?u []"
  define cnt where "cnt = fold (\<lambda>(uid, m). mput uid (int (length m))) dev []"
  have wd: "wf_map dev" and wc: "wf_map cnt"
    unfolding dev_def cnt_def by (rule fold_mput_fresh)+
  have cnt: "map_of cnt uid = map_option (\<lambda>m. int (length m)) (map_of dev uid)" for uid
    unfolding cnt_def by (rule fold_mput_fresh(2)) (rule wd)
  have set: "\<exists>x. m = ip_set x" if "map_of dev uid = Some m" for uid m
    using that by (rule fold_mput_vals [of _ _ _ "[]" ip_set ?u]) (auto simp: dev_def)
  have "wf_map (mget [] dev uid) \<and> (\<forall>ip b. map_of (mget [] dev uid) ip = Some b \<longrightarrow> b)" for uid
  proof (cases "map_of dev uid")
    case (Some m)
    with set obtain x where "m = ip_set x" by blast
    with Some show ?thesis by (simp add: mget_def map_of_ip_set wf_ip_set)
  qed (simp add: mget_def)
  moreover have "mget 0 cnt uid = int (length (mget [] dev uid))" for uid
    by (simp add: mget_def cnt split: option.splits)
  ultimately have "global_ok dev cnt"
    using wd wc unfolding global_ok_def by blast
  moreover have "update_global_devices now users l =
      l\<lparr>global_devices := dev, global_count := cnt, global_last_update := Some now\<rparr>"
    by (simp add: update_global_devices_def Let_def dev_def cnt_def)
  ultimately show ?thesis
    using inv by (simp add: limiter_inv_def)
qed

lemma wf_map_filter: "wf_map m \<Longrightarrow> wf_map (filter P m)"
  by (simp add: wf_map_def distinct_map_filter)

lemma wf_map_vals: "wf_map m \<Longrightarrow> wf_map (map (\<lambda>(k, v). (k, f v)) m)"
  by (simp add: wf_map_def comp_def case_prod_unfold)

lemma map_of_filter_val:
  "wf_map m \<Longrightarrow> map_of (filter (\<lambda>(k, v). P v) m) k =
     (case map_of m k of Some v \<Rightarrow> (if P v then Some v else None) | None \<Rightarrow> None)"
proof (induction m)
  case (Cons p m)
  then show ?case
    by (cases p) (auto simp: wf_map_def map_of_eq_None_iff image_iff split: option.splits)
qed simp

lemma map_of_purge_user:
  "wf_map m \<Longrightarrow> map_of (purge_user now m) ip =
     (case map_of m ip of Some e \<Rightarrow> (if now < e then Some e else None) | None \<Rightarrow> None)"
  unfolding purge_user_def by (rule map_of_filter_val)

lemma wf_purge_user: "wf_map m \<Longrightarrow> wf_map (purge_user now m)"
  by (simp add: purge_user_def wf_map_filter)

lemma map_of_map_val: "map_of (map (\<lambda>(k, v). (k, f v)) m) k = map_option f (map_of m k)"
  by (induction m) auto

lemma slookup_purge:
  "sharded_wf sh \<Longrightarrow> slookup (\<lambda>i. purge_shard now (sh i)) uid =
     (case slookup sh uid of None \<Rightarrow> None
      | Some m \<Rightarrow> if purge_user now m = [] then None else Some (purge_user now m))"
  unfolding slookup_def purge_shard_def
  by (subst map_of_filter_val) (auto simp: sharded_wf_def map_of_map_val intro: wf_map_vals split: option.splits)

lemma sharded_wf_purge: "sharded_wf sh \<Longrightarrow> sharded_wf (\<lambda>i. purge_shard now (sh i))"
  by (auto simp: sharded_wf_def purge_shard_def intro!: wf_map_filter wf_map_vals)

lemma cool_ok_purge: "cool_ok sh \<Longrightarrow> cool_ok (\<lambda>i. purge_shard now (sh i))"
  by (auto simp: cool_ok_def sharded_wf_purge slookup_purge wf_purge_user split: option.splits if_splits)

lemma sum_purge_shard:
  "(\<Sum>p\<leftarrow>purge_shard now m. int (length (snd p))) =
     (\<Sum>p\<leftarrow>m. int (length (snd p))) - (\<Sum>(uid, ips)\<leftarrow>m. int (length ips) - int (length (purge_user now ips)))"
  by (induction m) (auto simp: purge_shard_def)

lemma sum_upt_256: "(\<Sum>i\<leftarrow>[0..<256]. f i) = (\<Sum>i<256. f i :: int)"
  by (simp add: interv_sum_list_conv_sum_set_nat atLeast0LessThan)

lemma total_purge:
  "total (\<lambda>i. purge_shard now (sh i)) = total sh -
     (\<Sum>i\<leftarrow>[0..<256]. \<Sum>(uid, ips)\<leftarrow>sh i. int (length ips) - int (length (purge_user now ips)))"
  unfolding total_def sum_upt_256 sum_purge_shard by (simp add: sum_subtractf)

lemma inv_purge: "limiter_inv l \<Longrightarrow> purge_expired_cooldowns now l = (b, l') \<Longrightarrow> limiter_inv l'"
  by (auto simp: purge_expired_cooldowns_def Let_def limiter_inv_def cool_ok_purge total_purge split: if_splits)

lemma inv_devices_dirty: "limiter_inv l \<Longrightarrow> devices_dirty now l = (b, l') \<Longrightarrow> limiter_inv l'"
  by (auto simp: devices_dirty_def intro: inv_purge split: prod.splits)

lemma inv_update_rule: "limiter_inv l \<Longrightarrow> update_rule re_ok rl l = Inr l' \<Longrightarrow> limiter_inv l'"
  by (auto simp: update_rule_def limiter_inv_def split: sum.splits)

lemma inv_set_alive: "limiter_inv l \<Longrightarrow> wf_map m \<Longrightarrow> limiter_inv (set_alive_list m l)"
  by (simp add: set_alive_list_def limiter_inv_def)

lemma inv_reset_dirty: "limiter_inv l \<Longrightarrow> limiter_inv (reset_devices_dirty l)"
  by (simp add: reset_devices_dirty_def limiter_inv_def)


section \<open>Runs of a node's limiter\<close>

record sys =
  lim :: limiter
  pending :: "kick list"
  clock :: int
  started :: "(int \<times> kick) list" \<comment> \<open>history: when each kick was started\<close>

definition new_sys :: "int \<Rightarrow> limiter \<Rightarrow> sys" where
  "new_sys t l = \<lparr>lim = l, pending = [], clock = t, started = []\<rparr>"

datatype limiter_op =
    Tick int
  | Check nat string string bool
  | Closed string string
  | RunKick nat
  | UpdateUsers string "user_info list" "user_info list" "user_info list"
  | SetAlive "(int, int) gomap"
  | PushGlobal "(int, string list) gomap option"
  | Dirty
  | ResetDirty
  | Rule "string \<Rightarrow> bool" rules

definition run_check :: "nat \<Rightarrow> string \<Rightarrow> string \<Rightarrow> bool \<Rightarrow> sys \<Rightarrow> sys" where
  "run_check r k ip tcp s =
     (case check_limit (clock s) r k ip tcp (lim s) of
        (b, rej, l', ks) \<Rightarrow>
          s\<lparr>lim := l', pending := pending s @ ks, started := started s @ map (\<lambda>x. (clock s, x)) ks\<rparr>)"

definition run_kick :: "nat \<Rightarrow> sys \<Rightarrow> sys" where
  "run_kick n s =
     (if n < length (pending s) then
        s\<lparr>lim := kick_device (clock s) (pending s ! n) (lim s),
          pending := take n (pending s) @ drop (Suc n) (pending s)\<rparr>
      else s)"

primrec do_op :: "limiter_op \<Rightarrow> sys \<Rightarrow> sys" where
  "do_op (Tick d) s = s\<lparr>clock := clock s + d\<rparr>"
| "do_op (Check r k ip tcp) s = run_check r k ip tcp s"
| "do_op (Closed k ip) s = s\<lparr>lim := conn_closed k ip (lim s)\<rparr>"
| "do_op (RunKick n) s = run_kick n s"
| "do_op (UpdateUsers tag added deleted modified) s = s\<lparr>lim := update_user tag added deleted modified (lim s)\<rparr>"
| "do_op (SetAlive m) s = s\<lparr>lim := set_alive_list m (lim s)\<rparr>"
| "do_op (PushGlobal g) s = s\<lparr>lim := update_global_devices (clock s) g (lim s)\<rparr>"
| "do_op Dirty s = s\<lparr>lim := snd (devices_dirty (clock s) (lim s))\<rparr>"
| "do_op ResetDirty s = s\<lparr>lim := reset_devices_dirty (lim s)\<rparr>"
| "do_op (Rule re_ok rl) s =
     (case update_rule re_ok rl (lim s) of Inl e \<Rightarrow> s | Inr l' \<Rightarrow> s\<lparr>lim := l'\<rparr>)"

text \<open>The maps an operation is given are Go maps, and the clock does not go back.\<close>

fun op_ok :: "limiter_op \<Rightarrow> bool" where
  "op_ok (SetAlive m) \<longleftrightarrow> wf_map m"
| "op_ok (Tick d) \<longleftrightarrow> 0 \<le> d"
| "op_ok _ \<longleftrightarrow> True"

definition limiter_step :: "sys \<Rightarrow> sys \<Rightarrow> bool" where
  "limiter_step s t \<longleftrightarrow> (\<exists>op. op_ok op \<and> t = do_op op s)"

definition run_ops :: "limiter_op list \<Rightarrow> sys \<Rightarrow> sys" where
  "run_ops ops s = fold do_op ops s"

definition sys_inv :: "sys \<Rightarrow> bool" where
  "sys_inv s \<longleftrightarrow> limiter_inv (lim s)"

lemma inv_do_op: "op_ok op \<Longrightarrow> limiter_inv (lim s) \<Longrightarrow> limiter_inv (lim (do_op op s))"
  by (cases op) (auto simp: run_check_def run_kick_def intro: inv_check_limit inv_conn_closed
      inv_kick_device inv_update_user inv_set_alive inv_update_global inv_reset_dirty
      inv_update_rule inv_devices_dirty [OF _ prod.collapse [symmetric]] split: prod.splits sum.splits)

interpretation lim: kept_by_steps limiter_step sys_inv
  by unfold_locales (auto simp: limiter_step_def sys_inv_def inv_do_op)

lemma run_ops_reach: "list_all op_ok ops \<Longrightarrow> limiter_step\<^sup>*\<^sup>* s (run_ops ops s)"
proof (induction ops arbitrary: s)
  case (Cons op ops)
  then have "limiter_step s (do_op op s)" by (auto simp: limiter_step_def)
  with Cons show ?case by (simp add: run_ops_def converse_rtranclp_into_rtranclp)
qed (simp add: run_ops_def)

lemma run_inv: "list_all op_ok ops \<Longrightarrow> limiter_inv (lim s) \<Longrightarrow> limiter_inv (lim (run_ops ops s))"
  using lim.reach_keeps [OF run_ops_reach, of ops s] by (simp add: sys_inv_def)

text \<open>A property of states that every operation of a run keeps, under a condition on the
  operation, beside the invariant.\<close>

lemma run_induct:
  assumes "list_all op_ok ops" "limiter_inv (lim s)" "P s" "list_all Q ops"
    and "\<And>op s. op_ok op \<Longrightarrow> Q op \<Longrightarrow> limiter_inv (lim s) \<Longrightarrow> P s \<Longrightarrow> P (do_op op s)"
  shows "P (run_ops ops s)"
  using assms(1-4)
  by (induction ops arbitrary: s) (auto simp: run_ops_def intro: assms(5) inv_do_op)

lemma run_ops_Nil [simp]: "run_ops [] s = s"
  by (simp add: run_ops_def)

lemma run_ops_Cons [simp]: "run_ops (op # ops) s = run_ops ops (do_op op s)"
  by (simp add: run_ops_def)

text \<open>C5. In every run of a node's limiter from its construction, whatever the order of
  connections, disconnections, kicks (which run later than they are started), user updates,
  panel pushes and reports, the tables stay consistent: maps without duplicate keys, no
  empty inner map, only positive live counts, the atomic cooldown counter equal to the
  number of cooldown entries, and the cached global counts equal to the table's sizes.\<close>

theorem limiter_runs_keep_inv:
  "list_all op_ok ops \<Longrightarrow>
     limiter_inv (lim (run_ops ops (new_sys t (new_limiter tag speed users alive))))"
  by (rule run_inv) (simp_all add: new_sys_def inv_new_limiter)


theorem limiter_runs_keep_inv_witness:
  "limiter_inv (lim (run_ops
      [Check 0 ''t|a'' ''1.1.1.1'' True, Tick 5, Closed ''t|a'' ''1.1.1.1'', SetAlive [(1, 2)], Dirty]
      (new_sys 0 (new_limiter ''t'' 0 [\<lparr>Id = 1, Uuid = ''a'', SpeedLimit = 0, DeviceLimit = 1\<rparr>] []))))"
  by (rule limiter_runs_keep_inv) (simp add: wf_map_def)

end
