(* ===== verification/Gate.thy ===== *)
theory Gate
  imports LimiterInv
begin

text \<open>
  What the device gate of \<^verbatim>\<open>limiter/limiter.go\<close> promises. \<open>gate_rejects\<close> states the documented
  policy on sets: the devices of a user are the addresses live on this node and, while the
  panel's table is fresh, those it lists. The lemmas show that the code, with its fast paths
  over cached sizes, decides exactly this; that the kick victim is a device that is online
  and never the newcomer; that live counts are the number of open connections; that
  cooldowns hold and expire; that kicks are throttled; and what the reports contain.
\<close>

section \<open>The policy on sets\<close>

definition local_set :: "limiter \<Rightarrow> int \<Rightarrow> string set" where
  "local_set l uid = dom (map_of (local_of l uid))"

definition global_set :: "limiter \<Rightarrow> int \<Rightarrow> string set" where
  "global_set l uid = dom (map_of (mget [] (global_devices l) uid))"

definition gate_rejects :: "int \<Rightarrow> int \<Rightarrow> string \<Rightarrow> int \<Rightarrow> limiter \<Rightarrow> bool" where
  "gate_rejects now uid ip limit l \<longleftrightarrow>
     0 < limit \<and> ip \<notin> local_set l uid \<and>
     (if is_stale now l then limit \<le> int (card (local_set l uid)) \<or> limit \<le> get_alive_count l uid
      else ip \<in> global_set l uid \<or> limit \<le> int (card (local_set l uid \<union> global_set l uid)))"

lemma finite_local_set [simp]: "finite (local_set l uid)"
  by (simp add: local_set_def finite_dom_map_of)

lemma finite_global_set [simp]: "finite (global_set l uid)"
  by (simp add: global_set_def finite_dom_map_of)

lemma in_local_set: "ip \<in> local_set l uid \<longleftrightarrow> mhas (local_of l uid) ip"
  by (simp add: local_set_def mhas_def dom_def)

lemma live_iff: "limiter_inv l \<Longrightarrow> 0 < mget 0 (local_of l uid) ip \<longleftrightarrow> ip \<in> local_set l uid"
  by (simp add: local_live in_local_set)

lemma length_local: "limiter_inv l \<Longrightarrow> length (local_of l uid) = card (local_set l uid)"
  by (simp add: local_set_def length_eq_card_dom local_of_wf)

lemma mkeys_local: "set (mkeys (local_of l uid)) = local_set l uid"
  by (simp add: set_mkeys local_set_def)

lemma global_ok_inv: "limiter_inv l \<Longrightarrow> global_ok (global_devices l) (global_count l)"
  by (simp add: limiter_inv_def)

lemma in_global_set:
  "limiter_inv l \<Longrightarrow> mget False (mget [] (global_devices l) uid) ip \<longleftrightarrow> ip \<in> global_set l uid"
proof -
  assume "limiter_inv l"
  then have "\<forall>b. map_of (mget [] (global_devices l) uid) ip = Some b \<longrightarrow> b"
    unfolding limiter_inv_def global_ok_def by blast
  then show ?thesis
    by (auto simp: global_set_def dom_def mget_def [of False] split: option.splits)
qed

lemma count_global: "limiter_inv l \<Longrightarrow> mget 0 (global_count l) uid = int (card (global_set l uid))"
  by (auto dest!: global_ok_inv simp: global_ok_def global_set_def length_eq_card_dom)

lemma distinct_global: "limiter_inv l \<Longrightarrow> distinct (mkeys (mget [] (global_devices l) uid))"
  by (auto dest!: global_ok_inv simp: global_ok_def distinct_mkeys)

lemma count_union_filter:
  "count_union local gips n = n + int (length (filter (\<lambda>g. \<not> mhas local g) gips))"
  by (induction gips arbitrary: n) auto

lemma count_union_card:
  assumes "limiter_inv l"
  shows "count_union (local_of l uid) (mkeys (mget [] (global_devices l) uid)) (int (card (local_set l uid)))
    = int (card (local_set l uid \<union> global_set l uid))"
proof -
  let ?G = "mkeys (mget [] (global_devices l) uid)" and ?L = "local_of l uid"
  have "length (filter (\<lambda>g. \<not> mhas ?L g) ?G) = card (global_set l uid - local_set l uid)"
    using distinct_global [OF assms, of uid]
    by (subst distinct_card [symmetric])
      (auto simp: in_local_set set_mkeys global_set_def intro!: arg_cong [where f = card])
  moreover have "card (S \<union> T) = card S + card (T - S)" if "finite S" "finite T" for S T :: "string set"
    using that card_Un_disjoint [of S "T - S"] by (simp add: Un_Diff_cancel Int_Diff)
  ultimately show ?thesis
    by (simp add: count_union_filter)
qed

lemma gate_equation:
  assumes inv: "limiter_inv l"
  shows "fst (check_device_gate now r uid ip limit l) = gate_rejects now uid ip limit l"
proof -
  let ?L = "local_set l uid" and ?G = "global_set l uid"
  have "card ?L \<le> card (?L \<union> ?G)" "card ?G \<le> card (?L \<union> ?G)"
    by (auto intro: card_mono)
  moreover have "card (?L \<union> ?G) \<le> card ?L + card ?G"
    by (rule card_Un_le)
  ultimately show ?thesis
    using inv by (auto simp: check_device_gate_def gate_rejects_def Let_def live_iff length_local
        in_global_set count_global count_union_card)
qed

text \<open>C1. The device gate with its upper- and lower-bound shortcuts over cached sizes decides
  exactly the documented policy: an address already live on this node is let in; otherwise,
  with a fresh panel table, it is rejected if the table lists it or the distinct devices of
  node and table have reached the limit; with a stale table, if the node's devices or the
  panel's last count have reached it.\<close>

theorem gate_decides_policy:
  "limiter_inv l \<Longrightarrow>
     fst (check_device_gate now r uid ip limit l) = gate_rejects now uid ip limit l"
  by (rule gate_equation)


definition demo_users :: "user_info list" where
  "demo_users = [\<lparr>Id = 1, Uuid = ''a'', SpeedLimit = 0, DeviceLimit = 2\<rparr>,
                 \<lparr>Id = 2, Uuid = ''b'', SpeedLimit = 100, DeviceLimit = 0\<rparr>]"

definition demo :: limiter where
  "demo = new_limiter ''t'' 0 demo_users []"

lemma inv_demo: "limiter_inv demo"
  by (simp add: demo_def inv_new_limiter)

theorem gate_decides_policy_witness:
  "fst (check_device_gate 0 0 1 ''1.1.1.1'' 2 demo) = gate_rejects 0 1 ''1.1.1.1'' 2 demo"
  by (rule gate_decides_policy) (rule inv_demo)

section \<open>The victim\<close>

lemma pick_victim_cases:
  "pick_victim r local glob \<in> (if local \<noteq> [] then set (mkeys local) else insert [] (set (mkeys glob)))"
  by (auto simp: pick_victim_def split: option.splits dest!: range_first_Some)

lemma gate_victim_form:
  assumes "snd (check_device_gate now r uid ip limit l) = v" "v \<noteq> ''''"
  shows "fst (check_device_gate now r uid ip limit l) \<and>
     v = pick_victim r (local_of l uid) (if is_stale now l then [] else mget [] (global_devices l) uid)"
  using assms by (auto simp: check_device_gate_def Let_def split: if_splits)

lemma victim_online:
  assumes inv: "limiter_inv l" and v: "snd (check_device_gate now r uid ip limit l) = v" "v \<noteq> ''''"
  shows "v \<in> (if local_set l uid \<noteq> {} then local_set l uid
              else if is_stale now l then {} else global_set l uid)"
proof -
  have "v = pick_victim r (local_of l uid) (if is_stale now l then [] else mget [] (global_devices l) uid)"
    using gate_victim_form [OF v] by simp
  then show ?thesis
    using v(2) pick_victim_cases [of r "local_of l uid" "if is_stale now l then [] else mget [] (global_devices l) uid"]
    by (auto simp: mkeys_local set_mkeys global_set_def local_set_def split: if_splits)
qed

lemma victim_not_newcomer:
  assumes inv: "limiter_inv l" and v: "snd (check_device_gate now r uid ip limit l) = v" "v \<noteq> ''''"
  shows "v \<noteq> ip"
proof
  assume eq: "v = ip"
  have "gate_rejects now uid ip limit l"
    using gate_victim_form [OF v] gate_equation [OF inv] by simp
  then have "ip \<notin> local_set l uid" by (simp add: gate_rejects_def)
  moreover have "snd (check_device_gate now r uid ip limit l) = ''''"
    if "\<not> is_stale now l" "ip \<in> global_set l uid"
    using that inv by (simp add: check_device_gate_def Let_def in_global_set)
  ultimately show False
    using victim_online [OF inv v] v eq by (auto split: if_splits)
qed

lemma victim_any:
  assumes inv: "limiter_inv l" and rej: "gate_rejects now uid ip limit l"
    and ip: "is_stale now l \<or> ip \<notin> global_set l uid" and v: "v \<in> local_set l uid"
  shows "\<exists>r. snd (check_device_gate now r uid ip limit l) = v"
proof -
  obtain r where r: "range_first r (mkeys (local_of l uid)) = Some v"
    using v range_first_any [of v "mkeys (local_of l uid)"] by (auto simp: mkeys_local)
  have "fst (check_device_gate now r uid ip limit l)"
    using rej gate_equation [OF inv] by simp
  then have "snd (check_device_gate now r uid ip limit l) = v"
    using r ip inv
    by (auto simp: check_device_gate_def Let_def pick_victim_def in_global_set split: if_splits)
  then show ?thesis ..
qed

text \<open>Whenever the gate names a victim, it rejects the newcomer and the victim is another
  address that is really online: one live on this node if there is any, else one the fresh
  panel table lists. Conversely, when the device limit is what rejects, every address live
  on this node can be the victim (the choice is Go's map order).\<close>

theorem gate_victim_is_online:
  "limiter_inv l \<Longrightarrow> snd (check_device_gate now r uid ip limit l) = v \<Longrightarrow> v \<noteq> '''' \<Longrightarrow>
     gate_rejects now uid ip limit l \<and> v \<noteq> ip \<and>
     v \<in> (if local_set l uid \<noteq> {} then local_set l uid
          else if is_stale now l then {} else global_set l uid) \<and>
     (\<forall>w \<in> local_set l uid. \<exists>r. snd (check_device_gate now r uid ip limit l) = w)"
  using gate_victim_form [of now r uid ip limit l v] gate_equation [of l now r uid ip limit]
    victim_online [of l now r uid ip limit v] victim_not_newcomer [of l now r uid ip limit v]
    victim_any [of l now uid ip limit]
  by (auto simp: check_device_gate_def Let_def in_global_set split: if_splits)


definition demo2 :: limiter where
  "demo2 = conn_opened 1 ''2.2.2.2'' (conn_opened 1 ''1.1.1.1'' demo)"

lemma inv_demo2: "limiter_inv demo2"
  by (simp add: demo2_def inv_conn_opened inv_demo)

lemma demo2_victim: "snd (check_device_gate 0 0 1 ''3.3.3.3'' 2 demo2) = ''1.1.1.1''"
  by code_simp

theorem gate_victim_is_online_witness:
  "gate_rejects 0 1 ''3.3.3.3'' 2 demo2 \<and> ''1.1.1.1'' \<in> local_set demo2 1"
  using gate_victim_is_online [OF inv_demo2 demo2_victim]
  by (auto split: if_splits) (auto simp: local_set_def demo2_def conn_opened_def local_of_def Let_def
      trim_ip_def trim_prefix_def has_prefix_def)

section \<open>Live counts are the open connections\<close>

lemma trim_ip_id: "\<not> has_prefix ''::ffff:'' ip \<Longrightarrow> trim_ip ip = ip"
  by (simp add: trim_ip_def)

lemma local_conn_opened:
  "local_of (conn_opened uid ip l) u =
     (if u = uid then mput (trim_ip ip) (mget 0 (local_of l uid) (trim_ip ip) + 1) (local_of l uid) else local_of l u)"
  by (simp add: local_of_def conn_opened_def Let_def)

lemma local_conn_closed:
  "local_of (conn_closed k ip l) u =
     (case map_of (user_limit_info l) k of
        None \<Rightarrow> local_of l u
      | Some v \<Rightarrow> if u = ul_uid v \<and> slookup (ref_shards l) u \<noteq> None
                  then dec_ref (trim_ip ip) (local_of l u) else local_of l u)"
  by (auto simp: local_of_def conn_closed_def Let_def sget_slookup split: option.splits)

lemma mget_dec_ref:
  "(\<And>c. map_of m ip = Some c \<Longrightarrow> 0 < c) \<Longrightarrow>
     mget 0 (dec_ref ip m) i = (if i = ip then max 0 (mget 0 m ip - 1) else mget 0 m i)"
  by (auto simp: mget_def map_of_dec_ref split: option.splits)

text \<open>The open connections of all users as a multiset of (user, address) pairs.\<close>

definition counts_conns :: "limiter \<Rightarrow> (int \<times> string) multiset \<Rightarrow> bool" where
  "counts_conns l M \<longleftrightarrow> (\<forall>uid ip. mget 0 (local_of l uid) ip = int (count M (uid, ip)))"

lemma counts_opened: "counts_conns l M \<Longrightarrow> counts_conns (conn_opened uid ip l) (add_mset (uid, trim_ip ip) M)"
  by (auto simp: counts_conns_def local_conn_opened)

lemma counts_closed:
  assumes inv: "limiter_inv l" and M: "counts_conns l M" and v: "map_of (user_limit_info l) k = Some v"
  shows "counts_conns (conn_closed k ip l) (M - {#(ul_uid v, trim_ip ip)#})"
proof -
  have nil: "slookup (ref_shards l) u = None \<Longrightarrow> count M (u, i) = 0" for u i
    using M by (auto simp: counts_conns_def local_of_def sget_slookup dest!: spec [of _ u] spec [of _ i])
  have "mget 0 (dec_ref (trim_ip ip) (local_of l u)) i =
      (if i = trim_ip ip then max 0 (mget 0 (local_of l u) i - 1) else mget 0 (local_of l u) i)" for u i
    using local_of_pos [OF inv] by (subst mget_dec_ref) auto
  then show ?thesis
    using M v nil by (auto simp: counts_conns_def local_conn_closed max_def not_in_iff)
qed

text \<open>The connections of one node, by the tag of their user.\<close>

datatype conn_event = Opened string string | Closes string string

definition conn_event_do :: "conn_event \<Rightarrow> limiter \<Rightarrow> limiter" where
  "conn_event_do e l = (case e of
     Opened k ip \<Rightarrow> (case map_of (user_limit_info l) k of None \<Rightarrow> l | Some v \<Rightarrow> conn_opened (ul_uid v) ip l)
   | Closes k ip \<Rightarrow> conn_closed k ip l)"

definition event_pair :: "limiter \<Rightarrow> string \<Rightarrow> string \<Rightarrow> (int \<times> string) multiset" where
  "event_pair l k ip = (case map_of (user_limit_info l) k of None \<Rightarrow> {#} | Some v \<Rightarrow> {#(ul_uid v, trim_ip ip)#})"

fun open_conns :: "limiter \<Rightarrow> conn_event list \<Rightarrow> (int \<times> string) multiset \<Rightarrow> (int \<times> string) multiset" where
  "open_conns l [] M = M"
| "open_conns l (Opened k ip # es) M = open_conns l es (event_pair l k ip + M)"
| "open_conns l (Closes k ip # es) M = open_conns l es (M - event_pair l k ip)"

lemma user_info_conn [simp]:
  "user_limit_info (conn_opened uid ip l) = user_limit_info l"
  "user_limit_info (conn_closed k ip l) = user_limit_info l"
  by (simp_all add: conn_opened_def conn_closed_def Let_def split: option.splits)

lemma open_conns_cong: "user_limit_info l = user_limit_info l' \<Longrightarrow> open_conns l es M = open_conns l' es M"
  by (induction l es M rule: open_conns.induct) (simp_all add: event_pair_def)

lemma conn_closed_unknown: "map_of (user_limit_info l) k = None \<Longrightarrow> conn_closed k ip l = l"
  by (simp add: conn_closed_def Let_def)

lemma counts_event:
  "limiter_inv l \<Longrightarrow> counts_conns l M \<Longrightarrow> limiter_inv (conn_event_do e l) \<and>
     user_limit_info (conn_event_do e l) = user_limit_info l \<and>
     counts_conns (conn_event_do e l)
       (case e of Opened k ip \<Rightarrow> event_pair l k ip + M | Closes k ip \<Rightarrow> M - event_pair l k ip)"
  by (cases e) (auto simp: conn_event_do_def event_pair_def conn_closed_unknown inv_conn_opened
      inv_conn_closed counts_opened counts_closed split: option.splits)

lemma counts_events:
  "limiter_inv l \<Longrightarrow> counts_conns l M \<Longrightarrow> counts_conns (fold conn_event_do es l) (open_conns l es M)"
proof (induction es arbitrary: l M)
  case (Cons e es)
  note ev = counts_event [OF Cons.prems, of e]
  then have "counts_conns (fold conn_event_do es (conn_event_do e l))
      (open_conns (conn_event_do e l) es
        (case e of Opened k ip \<Rightarrow> event_pair l k ip + M | Closes k ip \<Rightarrow> M - event_pair l k ip))"
    by (intro Cons.IH) auto
  moreover have "open_conns (conn_event_do e l) es N = open_conns l es N" for N
    using ev by (intro open_conns_cong) simp
  ultimately show ?case by (cases e) auto
qed simp

lemma counts_new: "counts_conns (new_limiter tag speed users alive) {#}"
  by (simp add: counts_conns_def new_limiter_def local_of_def sget_slookup slookup_def)

text \<open>C3. The sharded reference counts are exactly the multiset of open connections: after
  any sequence of opened and closed connections, of any users and addresses in any order,
  the count of a user's address is the number of its connections still open, and the
  address is in the reported device set if and only if one is open. A close without an open
  changes nothing, and connections of unknown users are not counted.\<close>

theorem refcounts_are_open_connections:
  "limiter_inv l \<Longrightarrow> counts_conns l M \<Longrightarrow>
     counts_conns (fold conn_event_do es l) (open_conns l es M) \<and>
     (\<forall>uid ip. ip \<in> local_set (fold conn_event_do es l) uid \<longleftrightarrow> (uid, ip) \<in># open_conns l es M)"
proof -
  assume inv: "limiter_inv l" and M: "counts_conns l M"
  have "limiter_inv (fold conn_event_do es l)"
    using inv M counts_event by (induction es arbitrary: l M) (simp, force)
  then show ?thesis
    using counts_events [OF inv M, of es] by (auto simp: counts_conns_def simp flip: live_iff)
qed

theorem refcounts_are_open_connections_witness:
  "local_set (fold conn_event_do [Opened ''t|a'' ''1.1.1.1'', Opened ''t|a'' ''::ffff:1.1.1.1'',
      Opened ''t|b'' ''2.2.2.2'', Closes ''t|b'' ''2.2.2.2'', Closes ''t|a'' ''1.1.1.1''] demo) 2 = {}"
proof -
  let ?es = "[Opened ''t|a'' ''1.1.1.1'', Opened ''t|a'' ''::ffff:1.1.1.1'',
      Opened ''t|b'' ''2.2.2.2'', Closes ''t|b'' ''2.2.2.2'', Closes ''t|a'' ''1.1.1.1'']"
  have "event_pair demo ''t|a'' ip = {#(1, trim_ip ip)#}" "event_pair demo ''t|b'' ip = {#(2, trim_ip ip)#}" for ip
    by (simp_all add: event_pair_def demo_def new_limiter_def demo_users_def make_user_limit_def user_tag_def)
  then have "set_mset (open_conns demo ?es {#}) = {(1, ''1.1.1.1'')}"
    by (simp add: trim_ip_def trim_prefix_def has_prefix_def)
  then show ?thesis
    using refcounts_are_open_connections [OF inv_demo counts_new [of "''t''" 0 demo_users "[]", folded demo_def], of ?es]
    by auto
qed

end
