(* ===== verification/GateRuns.thy ===== *)
theory GateRuns
  imports Gate
begin

text \<open>
  The device gate over whole runs of a node's limiter: no user exceeds the limit on this
  node, and kicks are throttled per shard. The frame lemmas say which tables an operation leaves alone.
\<close>

section \<open>What each operation does to the tables\<close>

lemma local_of_cong: "ref_shards l = ref_shards l' \<Longrightarrow> local_of l uid = local_of l' uid"
  by (simp add: local_of_def)

lemma speed_bucket_frame:
  "speed_bucket k s l = (b, l') \<Longrightarrow> \<exists>sl. l' = l\<lparr>speed_limiter := sl\<rparr>"
  by (auto simp: speed_bucket_def Let_def split: if_splits option.splits intro: exI [of _ "speed_limiter l"])

lemma local_set_throttle [simp]:
  "local_set (l\<lparr>kick_throttle := t\<rparr>) uid = local_set l uid"
  "local_set (l\<lparr>speed_limiter := b\<rparr>) uid = local_set l uid"
  by (simp_all add: local_set_def local_of_def)

lemma local_set_opened:
  "local_set (conn_opened uid ip l) u = (if u = uid then insert (trim_ip ip) (local_set l u) else local_set l u)"
  by (auto simp: local_set_def local_conn_opened)

lemma local_set_closed: "local_set (conn_closed k ip l) u \<subseteq> local_set l u"
  by (auto simp: local_set_def local_conn_closed map_of_dec_ref mget_def split: option.splits if_splits)

text \<open>An address that carries the prefix of mapped addresses at most once. The code strips it
  up to three times on the way in (\<^verbatim>\<open>CheckLimit\<close>, \<^verbatim>\<open>TryOpenConn\<close>, \<^verbatim>\<open>ConnOpened\<close>) and once on
  the way out; \<^verbatim>\<open>net.IP.String\<close> never prints it.\<close>

definition addr_ok :: "string \<Rightarrow> bool" where
  "addr_ok ip \<longleftrightarrow> \<not> has_prefix ''::ffff:'' (trim_ip ip)"

lemma trim_trim [simp]: "addr_ok ip \<Longrightarrow> trim_ip (trim_ip ip) = trim_ip ip"
  by (simp add: addr_ok_def trim_ip_id)

lemma addr_ok_trim [simp]: "addr_ok ip \<Longrightarrow> addr_ok (trim_ip ip)"
  by (simp add: addr_ok_def trim_ip_id)

text \<open>A result of \<^verbatim>\<open>TryOpenConn\<close>, by cases.\<close>

lemma try_open_cases:
  assumes "try_open_conn now r uid k ip limit l = (ok, l', ks)"
  obtains (unlimited) "limit \<le> 0" "ok" "l' = conn_opened uid (trim_ip ip) l" "ks = []"
  | (cooling) "0 < limit" "in_cooldown now uid (trim_ip ip) l" "\<not> ok" "l' = l" "ks = []"
  | (admitted) "0 < limit" "\<not> fst (check_device_gate now r uid (trim_ip ip) limit l)" "ok"
      "l' = conn_opened uid (trim_ip ip) l" "ks = []"
  | (kicked) v where "0 < limit" "fst (check_device_gate now r uid (trim_ip ip) limit l)" "\<not> ok"
      "snd (check_device_gate now r uid (trim_ip ip) limit l) = v" "v \<noteq> ''''"
      "now - kick_throttle l (shard_of uid) > second"
      "l' = l\<lparr>kick_throttle := (kick_throttle l)(shard_of uid := now)\<rparr>" "ks = [(uid, k, v)]"
  | (rejected) "0 < limit" "fst (check_device_gate now r uid (trim_ip ip) limit l)" "\<not> ok" "l' = l" "ks = []"
proof -
  obtain rj v where g: "check_device_gate now r uid (trim_ip ip) limit l = (rj, v)"
    by (rule prod.exhaust)
  show ?thesis
  proof (cases "limit \<le> 0")
    case True
    then show ?thesis using assms by (intro unlimited) (auto simp: try_open_conn_def)
  next
    case pos: False
    show ?thesis
    proof (cases "in_cooldown now uid (trim_ip ip) l")
      case True
      then show ?thesis using pos assms by (intro cooling) (auto simp: try_open_conn_def)
    next
      case False
      let ?kick = "v \<noteq> '''' \<and> now - kick_throttle l (shard_of uid) > second"
      have eq: "(ok, l', ks) =
          (if rj then
             (if ?kick then (False, l\<lparr>kick_throttle := (kick_throttle l)(shard_of uid := now)\<rparr>, [(uid, k, v)])
              else (False, l, []))
           else (True, conn_opened uid (trim_ip ip) l, []))"
        unfolding assms [symmetric] using pos False g by (simp add: try_open_conn_def)
      consider "\<not> rj" | "rj" "?kick" | "rj" "\<not> ?kick" by blast
      then show ?thesis
      proof cases
        case 1
        then show ?thesis using eq pos g by (intro admitted) auto
      next
        case 2
        then show ?thesis using eq pos g by (intro kicked [of v]) auto
      next
        case 3
        then have "(ok, l', ks) = (False, l, [])" using eq by argo
        then show ?thesis using 3 pos g by (intro rejected) auto
      qed
    qed
  qed
qed

text \<open>A result of \<^verbatim>\<open>CheckLimit\<close>: on TCP that of \<^verbatim>\<open>TryOpenConn\<close>, then at most a bucket.\<close>

lemma check_limit_cases:
  assumes "check_limit now r k ip tcp l = (b, rej, l', ks)"
  obtains (unknown) "map_of (user_limit_info l) k = None" "b = None" "rej" "l' = l" "ks = []"
  | (tcp) v ok l1 sl where "map_of (user_limit_info l) k = Some v" "tcp"
      "try_open_conn now r (ul_uid v) k (trim_ip ip) (ul_device v) l = (ok, l1, ks)"
      "rej = (\<not> ok)" "l' = l1\<lparr>speed_limiter := sl\<rparr>"
  | (udp) v sl where "map_of (user_limit_info l) k = Some v" "\<not> tcp" "ks = []"
      "rej = (ul_device v > 0 \<and> fst (check_device_gate now r (ul_uid v) (trim_ip ip) (ul_device v) l))"
      "l' = l\<lparr>speed_limiter := sl\<rparr>"
proof (cases "map_of (user_limit_info l) k")
  case None
  with assms show ?thesis by (intro unknown) (simp_all add: check_limit_def)
next
  case (Some v)
  note info = Some
  show ?thesis
  proof (cases tcp)
    case True
    obtain ok l1 ks1 where t: "try_open_conn now r (ul_uid v) k (trim_ip ip) (ul_device v) l = (ok, l1, ks1)"
      using prod_cases3 by blast
    obtain b2 sl where sb: "speed_bucket k (max (ul_speed v) 0) l1 = (b2, l1\<lparr>speed_limiter := sl\<rparr>)"
      by (metis speed_bucket_frame surj_pair)
    have "(b, rej, l', ks) = (if ok then (b2, False, l1\<lparr>speed_limiter := sl\<rparr>, ks1)
        else (None, True, l1\<lparr>speed_limiter := speed_limiter l1\<rparr>, ks1))"
      unfolding assms [symmetric] by (simp add: check_limit_def info True t sb)
    then show ?thesis
      using info True t by (cases ok) (auto intro: tcp [of v ok l1 sl] tcp [of v ok l1 "speed_limiter l1"])
  next
    case False
    obtain b2 sl where sb: "speed_bucket k (max (ul_speed v) 0) l = (b2, l\<lparr>speed_limiter := sl\<rparr>)"
      by (metis speed_bucket_frame surj_pair)
    let ?rej = "ul_device v > 0 \<and> fst (check_device_gate now r (ul_uid v) (trim_ip ip) (ul_device v) l)"
    have "(b, rej, l', ks) = (if ?rej then (None, True, l\<lparr>speed_limiter := speed_limiter l\<rparr>, [])
        else (b2, False, l\<lparr>speed_limiter := sl\<rparr>, []))"
      unfolding assms [symmetric] by (simp add: check_limit_def Let_def info False sb)
    then show ?thesis
      using info False by (cases ?rej) (auto intro: udp [of v sl] udp [of v "speed_limiter l"])
  qed
qed

lemma check_user_info: "check_limit now r k ip tcp l = (b, rej, l', ks) \<Longrightarrow> user_limit_info l' = user_limit_info l"
  by (erule check_limit_cases) (auto elim!: try_open_cases dest!: arg_cong [of _ _ user_limit_info])

section \<open>The limit on this node\<close>

lemma try_open_bound:
  assumes inv: "limiter_inv l" and t: "try_open_conn now r uid k ip limit l = (ok, l', ks)"
    and pos: "0 < limit" and ip: "addr_ok ip"
  shows "local_set l' u \<subseteq> local_set l u \<or> u = uid \<and> int (card (local_set l' u)) \<le> limit"
  using t
proof (cases rule: try_open_cases)
  case admitted
  then have "\<not> gate_rejects now uid (trim_ip ip) limit l"
    by (simp add: gate_equation [OF inv])
  moreover have "card (local_set l uid) \<le> card (local_set l uid \<union> global_set l uid)"
    by (rule card_mono) auto
  ultimately show ?thesis
    using admitted pos ip
    by (cases "trim_ip ip \<in> local_set l uid") (auto simp: local_set_opened gate_rejects_def split: if_splits)
qed (use pos in auto)


text \<open>The other operations leave the live addresses alone, or drop them.\<close>

lemma drop_user_fields:
  "ref_shards (drop_user tag u l) = sdel (Id u) (ref_shards l)"
  "user_limit_info (drop_user tag u l) = mdel (user_tag tag (Uuid u)) (user_limit_info l)"
  "kick_throttle (drop_user tag u l) = kick_throttle l"
  "global_last_update (drop_user tag u l) = global_last_update l"
  by (auto simp: drop_user_def del_alive_def Let_def split: option.splits)

lemma modify_user_fields:
  "ref_shards (modify_user tag u l) = ref_shards l"
  "kick_throttle (modify_user tag u l) = kick_throttle l"
  "kick_cooldown (modify_user tag u l) = kick_cooldown l"
  "cooldown_count (modify_user tag u l) = cooldown_count l"
  by (auto simp: modify_user_def Let_def split: option.splits)

lemma insert_user_fields:
  "ref_shards (insert_user tag u l) = ref_shards l"
  "kick_throttle (insert_user tag u l) = kick_throttle l"
  "kick_cooldown (insert_user tag u l) = kick_cooldown l"
  "cooldown_count (insert_user tag u l) = cooldown_count l"
  by (auto simp: insert_user_def)

lemma update_user_throttle: "kick_throttle (update_user tag added deleted modified l) = kick_throttle l"
proof -
  have *: "(\<And>x s. f (g x s) = f s) \<Longrightarrow> f (fold g xs s) = f s" for f g xs s
    by (induction xs arbitrary: s) auto
  show ?thesis
    unfolding update_user_def
    by (simp add: * [of kick_throttle] insert_user_fields modify_user_fields drop_user_fields)
qed

lemma local_set_update_user: "local_set (update_user tag added deleted modified l) uid \<subseteq> local_set l uid"
proof -
  have "local_set (fold (drop_user tag) deleted l) uid \<subseteq> local_set l uid" for l
  proof (induction deleted arbitrary: l)
    case (Cons u deleted)
    have "local_set (drop_user tag u l) uid \<subseteq> local_set l uid"
      by (auto simp: local_set_def local_of_def drop_user_fields)
    then show ?case using Cons by auto
  qed simp
  moreover have "ref_shards (fold (insert_user tag) xs m) = ref_shards m" for xs m
    by (induction xs arbitrary: m) (auto simp: insert_user_fields)
  moreover have "ref_shards (fold (modify_user tag) xs m) = ref_shards m" for xs m
    by (induction xs arbitrary: m) (auto simp: modify_user_fields)
  ultimately show ?thesis
    by (simp add: update_user_def local_set_def local_of_def)
qed

text \<open>Every limit of user \<open>uid\<close> is between 1 and \<open>D\<close>.\<close>

definition limits_within :: "int \<Rightarrow> int \<Rightarrow> limiter \<Rightarrow> bool" where
  "limits_within uid D l \<longleftrightarrow>
     (\<forall>k v. map_of (user_limit_info l) k = Some v \<longrightarrow> ul_uid v = uid \<longrightarrow> 0 < ul_device v \<and> ul_device v \<le> D)"

fun limit_op_ok :: "int \<Rightarrow> int \<Rightarrow> limiter_op \<Rightarrow> bool" where
  "limit_op_ok uid D (Check r k ip tcp) \<longleftrightarrow> addr_ok ip"
| "limit_op_ok uid D (UpdateUsers tag added deleted modified) \<longleftrightarrow>
     list_all (\<lambda>u. 0 < DeviceLimit u \<and> DeviceLimit u \<le> D) modified \<and>
     list_all (\<lambda>u. Id u = uid \<longrightarrow> 0 < DeviceLimit u \<and> DeviceLimit u \<le> D) added"
| "limit_op_ok uid D _ \<longleftrightarrow> True"

lemma limits_within_update:
  assumes "limits_within uid D l" "limit_op_ok uid D (UpdateUsers tag added deleted modified)"
  shows "limits_within uid D (update_user tag added deleted modified l)"
proof -
  have d: "limits_within uid D (fold (drop_user tag) deleted l)"
    by (rule fold_keeps) (use assms(1) in \<open>auto simp: limits_within_def drop_user_fields split: if_splits\<close>)
  have m: "limits_within uid D (fold (modify_user tag) xs s)"
    if "list_all (\<lambda>u. 0 < DeviceLimit u \<and> DeviceLimit u \<le> D) xs" "limits_within uid D s" for xs s
    using that
  proof (induction xs arbitrary: s)
    case (Cons u xs)
    have "limits_within uid D (modify_user tag u s)"
      using Cons.prems by (auto simp: limits_within_def modify_user_def Let_def split: option.splits if_splits)
    then show ?case using Cons by simp
  qed simp
  have i: "limits_within uid D (fold (insert_user tag) xs s)"
    if "list_all (\<lambda>u. Id u = uid \<longrightarrow> 0 < DeviceLimit u \<and> DeviceLimit u \<le> D) xs" "limits_within uid D s" for xs s
    using that
  proof (induction xs arbitrary: s)
    case (Cons u xs)
    have "limits_within uid D (insert_user tag u s)"
      using Cons.prems by (auto simp: limits_within_def insert_user_def make_user_limit_def split: if_splits)
    then show ?case using Cons by simp
  qed simp
  show ?thesis
    using assms(2) by (simp add: update_user_def i m d)
qed


lemma purge_frame:
  "ref_shards (snd (devices_dirty now l)) = ref_shards l"
  "user_limit_info (snd (devices_dirty now l)) = user_limit_info l"
  "kick_throttle (snd (devices_dirty now l)) = kick_throttle l"
  by (simp_all add: devices_dirty_def purge_expired_cooldowns_def Let_def split: prod.splits)

lemma kick_device_frame:
  "ref_shards (kick_device now k l) = ref_shards l"
  "user_limit_info (kick_device now k l) = user_limit_info l"
  "kick_throttle (kick_device now k l) = kick_throttle l"
  by (simp_all add: kick_device_def Let_def split: prod.splits)

lemma rule_frame:
  "update_rule re_ok rl l = Inr l' \<Longrightarrow> ref_shards l' = ref_shards l"
  "update_rule re_ok rl l = Inr l' \<Longrightarrow> user_limit_info l' = user_limit_info l"
  "update_rule re_ok rl l = Inr l' \<Longrightarrow> kick_throttle l' = kick_throttle l"
  "update_rule re_ok rl l = Inr l' \<Longrightarrow> kick_cooldown l' = kick_cooldown l"
  by (auto simp: update_rule_def split: sum.splits)

lemma report_frame:
  "ref_shards (update_global_devices now g l) = ref_shards l"
  "user_limit_info (update_global_devices now g l) = user_limit_info l"
  "kick_throttle (update_global_devices now g l) = kick_throttle l"
  "kick_cooldown (update_global_devices now g l) = kick_cooldown l"
  "ref_shards (set_alive_list m l) = ref_shards l"
  "user_limit_info (set_alive_list m l) = user_limit_info l"
  "kick_throttle (set_alive_list m l) = kick_throttle l"
  "kick_cooldown (set_alive_list m l) = kick_cooldown l"
  "ref_shards (reset_devices_dirty l) = ref_shards l"
  "user_limit_info (reset_devices_dirty l) = user_limit_info l"
  "kick_throttle (reset_devices_dirty l) = kick_throttle l"
  "kick_cooldown (reset_devices_dirty l) = kick_cooldown l"
  by (simp_all add: update_global_devices_def Let_def set_alive_list_def reset_devices_dirty_def)

lemma conn_frame:
  "kick_throttle (conn_opened uid ip l) = kick_throttle l"
  "kick_throttle (conn_closed k ip l) = kick_throttle l"
  "kick_cooldown (conn_opened uid ip l) = kick_cooldown l"
  "kick_cooldown (conn_closed k ip l) = kick_cooldown l"
  by (simp_all add: conn_opened_def conn_closed_def Let_def split: option.splits)

lemmas frame = purge_frame kick_device_frame report_frame conn_frame

lemma local_set_frame: "ref_shards l = ref_shards l' \<Longrightarrow> local_set l uid = local_set l' uid"
  by (simp add: local_set_def local_of_def)

lemma check_limit_local:
  assumes inv: "limiter_inv l" and c: "check_limit now r k ip tcp l = (b, rej, l', ks)"
    and lim: "limits_within uid D l" and ip: "addr_ok ip"
  shows "local_set l' uid \<subseteq> local_set l uid \<or> int (card (local_set l' uid)) \<le> D"
  using c
proof (cases rule: check_limit_cases)
  case (tcp v ok l1 sl)
  show ?thesis
  proof (cases "ul_uid v = uid")
    case True
    then have "0 < ul_device v" "ul_device v \<le> D"
      using lim tcp(1) by (auto simp: limits_within_def)
    then show ?thesis
      using try_open_bound [OF inv tcp(3), of uid] ip tcp True by auto
  next
    case False
    then have "local_set l1 uid = local_set l uid"
      using tcp(3) by (auto elim!: try_open_cases simp: local_set_opened)
    then show ?thesis using tcp by simp
  qed
qed auto

definition within_limit :: "int \<Rightarrow> int \<Rightarrow> int \<Rightarrow> sys \<Rightarrow> bool" where
  "within_limit uid D B s \<longleftrightarrow> limits_within uid D (lim s) \<and> int (card (local_set (lim s) uid)) \<le> B"

lemma card_subset_le: "A \<subseteq> B \<Longrightarrow> finite B \<Longrightarrow> int (card B) \<le> n \<Longrightarrow> int (card A) \<le> n"
  using card_mono [of B A] by linarith

lemma within_limit_op:
  assumes inv: "limiter_inv (lim s)" and D: "D \<le> B" and op: "limit_op_ok uid D op"
    and P: "within_limit uid D B s"
  shows "within_limit uid D B (do_op op s)"
proof -
  have keep: ?thesis if "user_limit_info (lim (do_op op s)) = user_limit_info (lim s)"
    "local_set (lim (do_op op s)) uid \<subseteq> local_set (lim s) uid \<or> int (card (local_set (lim (do_op op s)) uid)) \<le> D"
    using that P D by (auto simp: within_limit_def limits_within_def elim: card_subset_le)
  show ?thesis
  proof (cases op)
    case (Check r k ip tcp)
    obtain b rej l' ks where c: "check_limit (clock s) r k ip tcp (lim s) = (b, rej, l', ks)"
      by (metis prod_cases4)
    show ?thesis
      by (rule keep) (use check_limit_local [OF inv c, of uid D] check_user_info [OF c] P op Check c
        in \<open>auto simp: run_check_def within_limit_def\<close>)
  next
    case (UpdateUsers tag added deleted modified)
    then show ?thesis
      using P op limits_within_update [of uid D "lim s" tag added deleted modified]
        local_set_update_user [of tag added deleted modified "lim s" uid]
      by (auto simp: within_limit_def elim: card_subset_le)
  next
    case (Rule re_ok rl)
    show ?thesis
      by (rule keep) (use Rule in \<open>auto split: sum.splits dest: rule_frame local_set_frame [OF rule_frame(1)]\<close>)
  next
    case (Closed k ip)
    show ?thesis by (rule keep) (use Closed local_set_closed in auto)
  qed (rule keep; simp add: run_kick_def frame local_set_def local_of_def)+
qed

lemma within_limit_run:
  "list_all op_ok ops \<Longrightarrow> limiter_inv (lim s) \<Longrightarrow> within_limit uid D B s \<Longrightarrow>
     list_all (limit_op_ok uid D) ops \<Longrightarrow> D \<le> B \<Longrightarrow> within_limit uid D B (run_ops ops s)"
  by (rule run_induct [where Q = "limit_op_ok uid D"]) (auto intro: within_limit_op)

text \<open>C2. As long as every limit the panel hands out for a user lies between 1 and \<open>D\<close>, a run of
  the node never raises the number of that user's distinct live addresses above \<open>D\<close> (or
  above what it was when the run started, if the limit was lowered), whatever opens,
  closes, kicks, user updates, pushes and reports occur in between.\<close>

theorem device_limit_holds_in_runs:
  "list_all op_ok ops \<Longrightarrow> list_all (limit_op_ok uid D) ops \<Longrightarrow> limiter_inv (lim s) \<Longrightarrow>
     limits_within uid D (lim s) \<Longrightarrow>
     int (card (local_set (lim (run_ops ops s)) uid)) \<le> max D (int (card (local_set (lim s) uid)))"
  using within_limit_run [of ops s uid D "max D (int (card (local_set (lim s) uid)))"]
  by (auto simp: within_limit_def)

theorem device_limit_holds_in_runs_witness:
  "int (card (local_set (lim (run_ops
      [Check 0 ''t|a'' ''1.1.1.1'' True, Check 0 ''t|a'' ''2.2.2.2'' True, Check 0 ''t|a'' ''3.3.3.3'' True]
      (new_sys 0 demo))) 1)) \<le> 2"
proof -
  have "limits_within 1 2 demo"
    by (auto simp: limits_within_def demo_def new_limiter_def demo_users_def make_user_limit_def split: if_splits)
  moreover have "local_set demo 1 = {}"
    by (auto simp: local_set_def local_of_def demo_def new_limiter_def sget_slookup slookup_def)
  ultimately show ?thesis
    using device_limit_holds_in_runs [of "[Check 0 ''t|a'' ''1.1.1.1'' True, Check 0 ''t|a'' ''2.2.2.2'' True,
      Check 0 ''t|a'' ''3.3.3.3'' True]" 1 2 "new_sys 0 demo"] inv_demo
    by (simp add: addr_ok_def trim_ip_def trim_prefix_def has_prefix_def new_sys_def)
qed


section \<open>Kicks are throttled\<close>

definition kick_shard :: "int \<times> kick \<Rightarrow> nat" where
  "kick_shard x = shard_of (fst (snd x))"

text \<open>The throttle of a shard is no earlier than any kick it started, and any two of them are
  more than a second apart.\<close>

definition throttled :: "sys \<Rightarrow> bool" where
  "throttled s \<longleftrightarrow>
     (\<forall>x \<in> set (started s). fst x \<le> kick_throttle (lim s) (kick_shard x)) \<and>
     sorted_wrt (\<lambda>x y. kick_shard x = kick_shard y \<longrightarrow> fst x + second < fst y) (started s)"

lemma throttled_frame:
  "throttled s \<Longrightarrow> started t = started s \<Longrightarrow> kick_throttle (lim t) = kick_throttle (lim s) \<Longrightarrow> throttled t"
  by (simp add: throttled_def)

lemma check_limit_throttle:
  assumes c: "check_limit now r k ip tcp l = (b, rej, l', ks)"
  shows "(ks = [] \<and> kick_throttle l' = kick_throttle l) \<or>
    (\<exists>uid v. ks = [(uid, k, v)] \<and> kick_throttle l (shard_of uid) + second < now
       \<and> kick_throttle l' = (kick_throttle l)(shard_of uid := now))"
  using c
proof (cases rule: check_limit_cases)
  case (tcp v ok l1 sl)
  from tcp(3) show ?thesis
    by (cases rule: try_open_cases) (simp_all add: tcp(5) conn_frame)
qed auto

lemma throttled_op: "throttled s \<Longrightarrow> throttled (do_op op s)"
proof -
  assume P: "throttled s"
  note keep = throttled_frame [OF P]
  show ?thesis
  proof (cases op)
    case (Check r k ip tcp)
    obtain b rej l' ks where c: "check_limit (clock s) r k ip tcp (lim s) = (b, rej, l', ks)"
      by (metis prod_cases4)
    from check_limit_throttle [OF c] show ?thesis
    proof (elim disjE exE conjE)
      assume "ks = []" "kick_throttle l' = kick_throttle (lim s)"
      then show ?thesis by (intro keep) (simp_all add: Check run_check_def c)
    next
      fix uid v
      assume ks: "ks = [(uid, k, v)]" and t: "kick_throttle (lim s) (shard_of uid) + second < clock s"
        and l': "kick_throttle l' = (kick_throttle (lim s))(shard_of uid := clock s)"
      have "fst x + second < clock s" if "x \<in> set (started s)" "kick_shard x = shard_of uid" for x
        using P t that by (auto simp: throttled_def)
      then show ?thesis
        using P ks t l' by (auto simp: Check run_check_def c throttled_def sorted_wrt_append kick_shard_def)
    qed
  next
    case (Rule re_ok rl)
    show ?thesis by (rule keep) (auto simp: Rule split: sum.splits dest: rule_frame)
  qed (rule keep; simp add: run_kick_def frame update_user_throttle)+
qed


definition storm :: "limiter_op list" where
  "storm = [Check 0 ''t|a'' ''1.1.1.1'' True, Check 0 ''t|a'' ''2.2.2.2'' True, Tick 2000000000,
     Check 0 ''t|a'' ''3.3.3.3'' True, Check 0 ''t|a'' ''4.4.4.4'' True, Tick 2000000000,
     Check 1 ''t|a'' ''3.3.3.3'' True]"

lemma storm_kicks: "started (run_ops storm (new_sys 0 demo))
    = [(2000000000, 1, ''t|a'', ''1.1.1.1''), (4000000000, 1, ''t|a'', ''2.2.2.2'')]"
  by code_simp


end
