(* ===== verification/Reports.thy ===== *)
theory Reports
  imports GateRuns
begin

text \<open>
  Cooldowns and device reports of \<^verbatim>\<open>limiter/limiter.go\<close>: a kicked address stays out of this
  node, and in its reports, until its cooldown ends; what a report contains; when the dirty
  flag asks for one; and two behaviours of the gate at its edges.
\<close>

section \<open>The cooldown list\<close>

lemma cool_of_kick:
  "cool_of (kick_device now (uid, k, ip) l) u =
     (if u = uid then mput ip (now + kick_cooldown_duration) (cool_of l uid) else cool_of l u)"
  by (simp add: cool_of_def kick_device_def Let_def)

lemma cool_of_drop:
  "cool_of (drop_user tag w l) u = (if u = Id w then [] else cool_of l u)"
proof -
  have nil: "slookup (kick_cooldown l) (Id w) = None" if "kick_cooldown l (shard_of (Id w)) = []"
    using that by (simp add: slookup_def)
  have "slookup (kick_cooldown (drop_user tag w l)) u = (if u = Id w then None else slookup (kick_cooldown l) u)"
    using nil by (auto simp: drop_user_def del_alive_def Let_def split: option.splits)
  then show ?thesis
    by (simp add: cool_of_def sget_slookup)
qed

lemma cool_of_cong: "kick_cooldown l = kick_cooldown l' \<Longrightarrow> cool_of l u = cool_of l' u"
  by (simp add: cool_of_def)

lemma cool_of_update:
  "u \<notin> Id ` set deleted \<Longrightarrow> cool_of (update_user tag added deleted modified l) u = cool_of l u"
proof -
  have "cool_of (fold (insert_user tag) xs s) u = cool_of s u" for xs s
    by (induction xs arbitrary: s) (auto simp: cool_of_cong [OF insert_user_fields(3)])
  moreover have "cool_of (fold (modify_user tag) xs s) u = cool_of s u" for xs s
    by (induction xs arbitrary: s) (auto simp: cool_of_cong [OF modify_user_fields(3)])
  moreover have "u \<notin> Id ` set xs \<Longrightarrow> cool_of (fold (drop_user tag) xs s) u = cool_of s u" for xs s
    by (induction xs arbitrary: s) (auto simp: cool_of_drop)
  ultimately show "u \<notin> Id ` set deleted \<Longrightarrow> ?thesis"
    by (simp add: update_user_def)
qed

lemma cool_of_none: "limiter_inv l \<Longrightarrow> cooldown_count l = 0 \<Longrightarrow> cool_of l u = []"
  by (simp add: limiter_inv_def cool_of_def total_zero)

lemma map_of_cool_purge:
  assumes inv: "limiter_inv l"
  shows "map_of (cool_of (snd (devices_dirty now l)) u) ip =
     (case map_of (cool_of l u) ip of Some e \<Rightarrow> (if now < e then Some e else None) | None \<Rightarrow> None)"
proof (cases "cooldown_count l = 0")
  case True
  then show ?thesis
    using cool_of_none [OF inv] by (simp add: devices_dirty_def purge_expired_cooldowns_def)
next
  case False
  have wf: "sharded_wf (kick_cooldown l)" "wf_map (cool_of l u)"
    using inv by (auto simp: limiter_inv_def cool_ok_def cool_of_wf)
  have "kick_cooldown (snd (devices_dirty now l)) = (\<lambda>i. purge_shard now (kick_cooldown l i))"
    using False by (simp add: devices_dirty_def purge_expired_cooldowns_def Let_def)
  then have "cool_of (snd (devices_dirty now l)) u = purge_user now (cool_of l u)"
    using wf(1) by (auto simp: cool_of_def sget_slookup slookup_purge purge_user_def split: option.splits)
  then show ?thesis
    using map_of_purge_user [OF wf(2)] by simp
qed

lemma in_cooldown_iff:
  "limiter_inv l \<Longrightarrow> in_cooldown now uid ip l \<longleftrightarrow> (\<exists>e. map_of (cool_of l uid) ip = Some e \<and> now < e)"
  using cool_of_none [of l uid]
  by (auto simp: in_cooldown_def cool_of_def sget_slookup slookup_def split: option.splits)

text \<open>The cooldown of an address up to time \<open>E\<close>, in a run that has passed time \<open>T\<close>.\<close>

definition cools_until :: "int \<Rightarrow> string \<Rightarrow> int \<Rightarrow> int \<Rightarrow> sys \<Rightarrow> bool" where
  "cools_until uid ip T E s \<longleftrightarrow> T \<le> clock s \<and>
     (clock s < E \<longrightarrow> (\<exists>e. map_of (cool_of (lim s) uid) ip = Some e \<and> E \<le> e))"

fun keeps_user :: "int \<Rightarrow> limiter_op \<Rightarrow> bool" where
  "keeps_user uid (UpdateUsers tag added deleted modified) \<longleftrightarrow> list_all (\<lambda>u. Id u \<noteq> uid) deleted"
| "keeps_user uid _ \<longleftrightarrow> True"

lemma check_limit_cooldown:
  "check_limit now r k ip tcp l = (b, rej, l', ks) \<Longrightarrow> kick_cooldown l' = kick_cooldown l"
proof (erule check_limit_cases)
  fix v ok l1 sl
  assume t: "try_open_conn now r (ul_uid v) k (trim_ip ip) (ul_device v) l = (ok, l1, ks)"
    and l': "l' = l1\<lparr>speed_limiter := sl\<rparr>"
  from t show "kick_cooldown l' = kick_cooldown l"
    by (cases rule: try_open_cases) (simp_all add: l' conn_frame)
qed auto

lemma cools_until_op:
  assumes inv: "limiter_inv (lim s)" and ok: "op_ok op" and keep: "keeps_user uid op"
    and P: "cools_until uid ip T (T + kick_cooldown_duration) s"
  shows "cools_until uid ip T (T + kick_cooldown_duration) (do_op op s)"
proof -
  have same: ?thesis if "clock (do_op op s) = clock s" "cool_of (lim (do_op op s)) uid = cool_of (lim s) uid"
    using P that by (simp add: cools_until_def)
  show ?thesis
  proof (cases op)
    case (Tick d)
    then show ?thesis using P ok by (auto simp: cools_until_def)
  next
    case (Check r k ip' tcp)
    obtain b rej l' ks where c: "check_limit (clock s) r k ip' tcp (lim s) = (b, rej, l', ks)"
      by (metis prod_cases4)
    show ?thesis
      by (rule same) (simp_all add: Check run_check_def c cool_of_cong [OF check_limit_cooldown [OF c]])
  next
    case (RunKick n)
    obtain u k i where k: "n < length (pending s) \<Longrightarrow> pending s ! n = (u, k, i)"
      by (metis prod_cases3)
    show ?thesis
    proof (cases "n < length (pending s) \<and> u = uid")
      case True
      then show ?thesis
        using P k by (auto simp: RunKick run_kick_def cools_until_def cool_of_kick)
    next
      case False
      then show ?thesis
        using k by (intro same) (auto simp: RunKick run_kick_def cool_of_kick)
    qed
  next
    case (UpdateUsers tag added deleted modified)
    then have "uid \<notin> Id ` set deleted" using keep by (auto simp: list_all_iff)
    then show ?thesis by (intro same) (simp_all add: UpdateUsers cool_of_update)
  next
    case Dirty
    show ?thesis
      using P by (auto simp: Dirty cools_until_def map_of_cool_purge [OF inv] split: option.splits)
  next
    case (Rule re_ok rl)
    show ?thesis
      by (rule same) (auto simp: Rule split: sum.splits dest: cool_of_cong [OF rule_frame(4)])
  qed (rule same; simp add: cool_of_def frame)+
qed

lemma cools_until_run:
  "list_all op_ok ops \<Longrightarrow> limiter_inv (lim s) \<Longrightarrow> cools_until uid ip T (T + kick_cooldown_duration) s \<Longrightarrow>
     list_all (keeps_user uid) ops \<Longrightarrow> cools_until uid ip T (T + kick_cooldown_duration) (run_ops ops s)"
  by (rule run_induct [where Q = "keeps_user uid"]) (auto intro: cools_until_op)

lemma check_limit_cooling:
  assumes "map_of (user_limit_info l) k = Some v" "0 < ul_device v" "in_cooldown now (ul_uid v) (trim_ip ip) l"
    and "addr_ok ip"
  shows "check_limit now r k ip True l = (None, True, l, [])"
  using assms by (simp add: check_limit_def try_open_conn_def)

section \<open>The snapshot\<close>

lemma merge_cooling_set:
  "set (merge_cooling now ips cur) = set cur \<union> {ip. \<exists>e. (ip, e) \<in> set ips \<and> now < e}"
  by (induction now ips cur rule: merge_cooling.induct) auto

lemma merge_cooling_distinct: "distinct cur \<Longrightarrow> distinct (merge_cooling now ips cur)"
  by (induction now ips cur rule: merge_cooling.induct) auto

lemma fold_merge:
  "distinct (map fst xs) \<Longrightarrow> map_of (fold (\<lambda>(k, v) out. mput k (g v (mget z out k)) out) xs out) k =
     (case map_of xs k of Some v \<Rightarrow> Some (g v (mget z out k)) | None \<Rightarrow> map_of out k)"
proof (induction xs arbitrary: out)
  case (Cons p xs)
  obtain a b where p: "p = (a, b)" by (cases p)
  with Cons.prems have "map_of xs a = None" by (simp add: map_of_eq_None_iff)
  then show ?case
    using Cons by (auto simp: p split: option.splits)
qed simp

lemma wf_fold_merge: "wf_map out \<Longrightarrow> wf_map (fold (\<lambda>(k, v) out. mput k (g v (mget z out k)) out) xs out)"
  by (rule fold_keeps) (auto intro: wf_intros)

lemma map_of_snapshot:
  assumes inv: "limiter_inv l"
  shows "map_of (local_device_snapshot now l) uid =
    (case slookup (kick_cooldown l) uid of
       None \<Rightarrow> map_option mkeys (slookup (ref_shards l) uid)
     | Some ips \<Rightarrow> Some (merge_cooling now ips (mkeys (local_of l uid))))"
proof -
  have wf: "sharded_wf (ref_shards l)" "sharded_wf (kick_cooldown l)"
    using inv by (auto simp: limiter_inv_def refs_ok_def cool_ok_def)
  define out where "out = fold (\<lambda>(uid, m). mput uid (mkeys m)) (entries (ref_shards l)) []"
  have out: "map_of out u = map_option mkeys (slookup (ref_shards l) u)" for u
    unfolding out_def by (simp add: fold_mput_fresh(2) [OF wf_entries [OF wf(1)]] map_of_entries [OF wf(1)])
  have z: "slookup (kick_cooldown l) uid = None" if "cooldown_count l = 0"
  proof -
    have "cool_of l uid = []" using cool_of_none [OF inv that] .
    then show ?thesis
      using inv by (auto simp: limiter_inv_def cool_ok_def cool_of_def sget_slookup split: option.splits)
  qed
  have "mget [] out uid = mkeys (local_of l uid)"
    by (simp add: mget_def out local_of_def sget_slookup split: option.splits)
  then show ?thesis
    using z wf_entries [OF wf(2)] map_of_entries [OF wf(2)]
    by (auto simp: local_device_snapshot_def out_def [symmetric] out fold_merge wf_map_def split: option.splits)
qed

lemma wf_snapshot: "wf_map (local_device_snapshot now l)"
  unfolding local_device_snapshot_def Let_def
  by (auto intro!: wf_fold_merge fold_mput_fresh(1))

definition reported :: "int \<Rightarrow> limiter \<Rightarrow> int \<Rightarrow> string set" where
  "reported now l uid = local_set l uid \<union> {ip. \<exists>e. map_of (cool_of l uid) ip = Some e \<and> now < e}"

lemma snapshot_devices:
  assumes inv: "limiter_inv l"
  shows "set (mget [] (local_device_snapshot now l) uid) = reported now l uid
    \<and> distinct (mget [] (local_device_snapshot now l) uid)"
proof (cases "slookup (kick_cooldown l) uid")
  case None
  then have "cool_of l uid = []" by (simp add: cool_of_def sget_slookup)
  moreover have "mget [] (local_device_snapshot now l) uid = mkeys (local_of l uid)"
    by (simp add: mget_def map_of_snapshot [OF inv] None local_of_def sget_slookup split: option.splits)
  ultimately show ?thesis
    using distinct_mkeys [OF local_of_wf [OF inv]] by (simp add: reported_def mkeys_local)
next
  case (Some ips)
  then have "cool_of l uid = ips" by (simp add: cool_of_def sget_slookup)
  moreover have "wf_map ips"
    using Some inv by (auto simp: limiter_inv_def cool_ok_def)
  moreover have "mget [] (local_device_snapshot now l) uid = merge_cooling now ips (mkeys (local_of l uid))"
    by (simp add: mget_def map_of_snapshot [OF inv] Some)
  ultimately show ?thesis
    using distinct_mkeys [OF local_of_wf [OF inv]]
    by (auto simp: reported_def merge_cooling_set merge_cooling_distinct mkeys_local map_of_Some_iff)
qed

lemma online_devices:
  assumes inv: "limiter_inv l"
  shows "set (get_online_device l) = {(uid, ip). ip \<in> local_set l uid}"
proof -
  have wf: "sharded_wf (ref_shards l)"
    using inv by (auto simp: limiter_inv_def refs_ok_def)
  show ?thesis
    by (force simp: get_online_device_def set_entries [OF wf] set_mkeys local_set_def local_of_def
        sget_slookup split: option.splits)
qed

text \<open>C19. The two reports agree: the WebSocket snapshot lists for each user, without duplicates,
  the addresses the REST report lists (those with an open connection) and the addresses
  still in their cooldown, nothing else.\<close>

theorem reports_agree:
  "limiter_inv l \<Longrightarrow>
     set (mget [] (local_device_snapshot now l) uid) =
       {ip. (uid, ip) \<in> set (get_online_device l)}
         \<union> {ip. \<exists>e. map_of (cool_of l uid) ip = Some e \<and> now < e}
     \<and> distinct (mget [] (local_device_snapshot now l) uid)
     \<and> wf_map (local_device_snapshot now l)"
  by (simp add: snapshot_devices online_devices reported_def wf_snapshot)

theorem reports_agree_witness:
  "set (mget [] (local_device_snapshot 7 (kick_device 5 (1, ''t|a'', ''9.9.9.9'') demo2)) 1)
     = {''1.1.1.1'', ''2.2.2.2'', ''9.9.9.9''}"
proof -
  let ?l = "kick_device 5 (1, ''t|a'', ''9.9.9.9'') demo2"
  have inv: "limiter_inv ?l" by (simp add: inv_kick_device inv_demo2)
  have on: "get_online_device ?l = [(1, ''1.1.1.1''), (1, ''2.2.2.2'')]" by code_simp
  have co: "cool_of ?l 1 = [(''9.9.9.9'', 300000000005)]" by code_simp
  show ?thesis
    using reports_agree [OF inv, of 7 1] unfolding on co by auto
qed


section \<open>Cooldowns hold\<close>

lemma cools_reported:
  assumes inv: "limiter_inv (lim s)" and c: "cools_until uid ip T E s" and t: "clock s < E"
  shows "ip \<in> reported (clock s) (lim s) uid \<and> in_cooldown (clock s) uid ip (lim s)"
  using assms by (auto simp: cools_until_def reported_def in_cooldown_iff)

text \<open>C20. Once a kick of an address has run, then for the whole cooldown, whatever happens in
  between short of deleting the user, every further TCP connection of that user from that
  address is rejected (even while it still has connections open, and with a stale panel
  table), no other device is kicked for it, and every report still lists the address.\<close>

theorem kicked_address_stays_out:
  "limiter_inv (lim s) \<Longrightarrow> n < length (pending s) \<Longrightarrow> pending s ! n = (ul_uid v, k, trim_ip ip) \<Longrightarrow>
     list_all op_ok ops \<Longrightarrow> list_all (keeps_user (ul_uid v)) ops \<Longrightarrow> addr_ok ip \<Longrightarrow>
     s' = run_ops ops (do_op (RunKick n) s) \<Longrightarrow> clock s' < clock s + kick_cooldown_duration \<Longrightarrow>
     map_of (user_limit_info (lim s')) k' = Some v \<Longrightarrow> 0 < ul_device v \<Longrightarrow>
     check_limit (clock s') r k' ip True (lim s') = (None, True, lim s', []) \<and>
     trim_ip ip \<in> set (mget [] (local_device_snapshot (clock s') (lim s')) (ul_uid v))"
proof -
  assume inv: "limiter_inv (lim s)" and n: "n < length (pending s)" "pending s ! n = (ul_uid v, k, trim_ip ip)"
    and ops: "list_all op_ok ops" "list_all (keeps_user (ul_uid v)) ops" and ip: "addr_ok ip"
    and s': "s' = run_ops ops (do_op (RunKick n) s)" and t: "clock s' < clock s + kick_cooldown_duration"
    and v: "map_of (user_limit_info (lim s')) k' = Some v" "0 < ul_device v"
  let ?s = "do_op (RunKick n) s"
  have inv1: "limiter_inv (lim ?s)" by (rule inv_do_op) (simp_all add: inv)
  have "cools_until (ul_uid v) (trim_ip ip) (clock s) (clock s + kick_cooldown_duration) ?s"
    using n by (simp add: run_kick_def cools_until_def cool_of_kick)
  then have "cools_until (ul_uid v) (trim_ip ip) (clock s) (clock s + kick_cooldown_duration) s'"
    unfolding s' by (rule cools_until_run [OF ops(1) inv1 _ ops(2)])
  moreover have inv': "limiter_inv (lim s')"
    unfolding s' by (rule run_inv [OF ops(1) inv1])
  ultimately have *: "trim_ip ip \<in> reported (clock s') (lim s') (ul_uid v)"
    "in_cooldown (clock s') (ul_uid v) (trim_ip ip) (lim s')"
    using cools_reported t by auto
  then show ?thesis
    using check_limit_cooling [OF v _ ip] snapshot_devices [OF inv'] by simp
qed

definition kicked_sys :: sys where
  "kicked_sys = run_ops [Tick 5000000000, Check 0 ''t|a'' ''3.3.3.3'' True] (new_sys 0 demo2)"

lemma kicked_sys_pending: "pending kicked_sys = [(1, ''t|a'', ''1.1.1.1'')]"
  by code_simp

definition later_sys :: sys where
  "later_sys = run_ops [Closed ''t|a'' ''1.1.1.1'', Tick 9000000000, Dirty] (do_op (RunKick 0) kicked_sys)"

lemma later_sys_state: "clock later_sys = 14000000000 \<and> clock kicked_sys = 5000000000 \<and>
    map_of (user_limit_info (lim later_sys)) ''t|a'' = Some \<lparr>ul_uid = 1, ul_speed = 0, ul_device = 2\<rparr>"
  by code_simp

theorem kicked_address_stays_out_witness:
  "check_limit 14000000000 0 ''t|a'' ''1.1.1.1'' True (lim later_sys) = (None, True, lim later_sys, [])"
proof -
  have inv: "limiter_inv (lim kicked_sys)"
    unfolding kicked_sys_def by (rule run_inv) (simp_all add: new_sys_def inv_demo2)
  show ?thesis
    using kicked_address_stays_out [where n = 0 and v = "\<lparr>ul_uid = 1, ul_speed = 0, ul_device = 2\<rparr>"
        and k = "''t|a''" and ip = "''1.1.1.1''" and k' = "''t|a''" and r = 0,
        OF inv _ _ _ _ _ later_sys_def]
    by (simp add: kicked_sys_pending later_sys_state addr_ok_def trim_ip_def
        trim_prefix_def has_prefix_def kick_cooldown_duration_def)
qed

section \<open>The dirty flag\<close>

lemma purge_length: "length (purge_user now ips) \<le> length ips"
  by (simp add: purge_user_def)

lemma purge_same: "length (purge_user now ips) = length ips \<longleftrightarrow> (\<forall>(ip, e) \<in> set ips. now < e)"
proof (induction ips)
  case (Cons p ips)
  obtain ip e where p: "p = (ip, e)" by (cases p)
  have "length (purge_user now ips) \<noteq> Suc (length ips)"
    using purge_length [of now ips] by linarith
  moreover have "purge_user now (p # ips) = (if now < e then p # purge_user now ips else purge_user now ips)"
    by (simp add: purge_user_def p)
  ultimately show ?case using Cons by (simp add: p)
qed (simp add: purge_user_def)

definition expired :: "int \<Rightarrow> limiter \<Rightarrow> bool" where
  "expired now l \<longleftrightarrow> (\<exists>uid ip e. map_of (cool_of l uid) ip = Some e \<and> e \<le> now)"

lemma cool_entry:
  assumes "cool_ok sh"
  shows "(\<exists>ips. (uid, ips) \<in> set (sh i) \<and> i < 256 \<and> (ip, e) \<in> set ips)
    \<longleftrightarrow> map_of (sget [] sh uid) ip = Some e \<and> i = shard_of uid"
proof -
  have wf: "sharded_wf sh" using assms by (simp add: cool_ok_def)
  then have "wf_map (sh i)" and own: "(uid, ips) \<in> set (sh i) \<Longrightarrow> shard_of uid = i" for ips
    unfolding sharded_wf_def by blast+
  then have 1: "(uid, ips) \<in> set (sh i) \<longleftrightarrow> map_of (sh i) uid = Some ips" for ips
    by (simp add: map_of_Some_iff)
  show ?thesis
  proof (cases "i = shard_of uid")
    case True
    show ?thesis
    proof (cases "slookup sh uid")
      case None
      with True show ?thesis unfolding 1 by (simp add: sget_slookup slookup_def)
    next
      case (Some m)
      then have "wf_map m" using assms by (simp add: cool_ok_def)
      with True Some show ?thesis
        unfolding 1 by (simp add: sget_slookup slookup_def map_of_Some_iff [of m])
    qed
  next
    case False
    with own show ?thesis by auto
  qed
qed

lemma purge_removes:
  assumes inv: "limiter_inv l"
  shows "fst (purge_expired_cooldowns now l) \<longleftrightarrow> expired now l"
proof (cases "cooldown_count l = 0")
  case True
  then show ?thesis
    using cool_of_none [OF inv] by (simp add: purge_expired_cooldowns_def expired_def)
next
  case False
  let ?f = "\<lambda>(uid :: int, ips). int (length ips) - int (length (purge_user now ips))"
  let ?g = "\<lambda>i. \<Sum>p\<leftarrow>kick_cooldown l i. ?f p"
  have nn: "0 \<le> ?f p" for p by (simp add: purge_length split: prod.splits)
  have nng: "0 \<le> ?g i" for i by (rule sum_list_nonneg) (auto simp: purge_length)
  have zg: "?g i = 0 \<longleftrightarrow> (\<forall>p \<in> set (kick_cooldown l i). ?f p = 0)" for i
    by (subst sum_list_nonneg_eq_0_iff) (auto simp: purge_length)
  have "(\<Sum>i\<leftarrow>[0..<256]. ?g i) = 0 \<longleftrightarrow> (\<forall>i \<in> {..<256}. ?g i = 0)"
    unfolding sum_upt_256 by (rule sum_nonneg_eq_0_iff) (auto simp: nng)
  moreover have "0 \<le> (\<Sum>i\<leftarrow>[0..<256]. ?g i)"
    unfolding sum_upt_256 by (rule sum_nonneg) (rule nng)
  ultimately have "0 < (\<Sum>i\<leftarrow>[0..<256]. ?g i) \<longleftrightarrow> \<not> (\<forall>i \<in> {..<256}. ?g i = 0)"
    by linarith
  also have "\<dots> \<longleftrightarrow> (\<exists>i < 256. \<exists>p \<in> set (kick_cooldown l i). ?f p \<noteq> 0)"
    unfolding zg by (meson lessThan_iff)
  also have "\<dots> \<longleftrightarrow> (\<exists>i < 256. \<exists>uid ips. (uid, ips) \<in> set (kick_cooldown l i)
      \<and> length (purge_user now ips) \<noteq> length ips)"
    by (simp add: Bex_def eq_commute [of "length (purge_user now _)"])
  also have "\<dots> \<longleftrightarrow> (\<exists>uid ip e i. (\<exists>ips. (uid, ips) \<in> set (kick_cooldown l i) \<and> i < 256 \<and> (ip, e) \<in> set ips) \<and> e \<le> now)"
    unfolding purge_same by (auto simp: not_less Ball_def) blast+
  also have "\<dots> \<longleftrightarrow> expired now l"
    using inv by (auto simp: cool_entry limiter_inv_def expired_def cool_of_def)
  finally show ?thesis
    using False by (simp add: purge_expired_cooldowns_def Let_def)
qed

text \<open>\<^verbatim>\<open>DevicesDirty\<close> answers yes exactly when the flag was set or a cooldown has ended, whether
  or not the flag was set already, and it removes exactly the ended cooldowns: afterwards
  every address in the list is still cooling, so no cooldown outlives its end by more than
  the report interval. The live connections are untouched.\<close>

theorem devices_dirty_purges:
  "limiter_inv l \<Longrightarrow>
     (fst (devices_dirty now l) \<longleftrightarrow> device_dirty l \<or> expired now l) \<and>
     \<not> expired now (snd (devices_dirty now l)) \<and>
     (\<forall>uid. reported now (snd (devices_dirty now l)) uid = reported now l uid)"
proof -
  assume inv: "limiter_inv l"
  have "device_dirty (snd (purge_expired_cooldowns now l)) \<longleftrightarrow>
      device_dirty l \<or> cooldown_count l \<noteq> 0 \<and> fst (purge_expired_cooldowns now l)"
    by (auto simp: purge_expired_cooldowns_def Let_def)
  moreover have "cooldown_count l = 0 \<Longrightarrow> \<not> fst (purge_expired_cooldowns now l)"
    by (simp add: purge_expired_cooldowns_def)
  ultimately have "fst (devices_dirty now l) \<longleftrightarrow> device_dirty l \<or> expired now l"
    using purge_removes [OF inv, of now] by (auto simp: devices_dirty_def split: prod.splits)
  moreover have "\<not> expired now (snd (devices_dirty now l))"
    by (auto simp: expired_def map_of_cool_purge [OF inv] split: option.splits)
  moreover have "reported now (snd (devices_dirty now l)) uid = reported now l uid" for uid
    by (auto simp: reported_def map_of_cool_purge [OF inv] local_set_frame [OF purge_frame(1)]
        split: option.splits)
  ultimately show ?thesis by blast
qed

theorem devices_dirty_purges_witness:
  "fst (devices_dirty 400000000000 (kick_device 5 (1, ''t|a'', ''9.9.9.9'') demo)) \<and>
   \<not> expired 400000000000 (snd (devices_dirty 400000000000 (kick_device 5 (1, ''t|a'', ''9.9.9.9'') demo)))"
  using devices_dirty_purges [OF inv_kick_device [OF inv_demo], of 400000000000 5 "(1, ''t|a'', ''9.9.9.9'')"]
  by (simp add: kick_device_def Let_def)


section \<open>Two edges of the gate\<close>

lemma check_limit_rejected:
  assumes "map_of (user_limit_info l) k = Some v" "addr_ok ip" "0 < ul_device v"
    and "\<not> in_cooldown now (ul_uid v) (trim_ip ip) l"
    and "check_device_gate now r (ul_uid v) (trim_ip ip) (ul_device v) l = (True, w)"
  shows "check_limit now r k ip True l =
    (if w \<noteq> '''' \<and> now - kick_throttle l (shard_of (ul_uid v)) > second
     then (None, True, l\<lparr>kick_throttle := (kick_throttle l)(shard_of (ul_uid v) := now)\<rparr>, [(ul_uid v, k, w)])
     else (None, True, l, []))"
  using assms by (simp add: check_limit_def try_open_conn_def Let_def)

lemma global_set_closed: "global_set (conn_closed k ip l) u = global_set l u"
  by (simp add: global_set_def conn_closed_def Let_def split: option.splits)

lemma stale_closed: "is_stale now (conn_closed k ip l) = is_stale now l"
  by (simp add: is_stale_def conn_closed_def Let_def split: option.splits)

text \<open>The rule \<open>listed by the panel, no live connection here: bound to another node\<close> also hits
  this node's own devices. When the last connection of an address closes while the fresh
  panel table still lists that address (because this very node reported it), its next TCP
  connection is rejected, whatever the limit, although the comment on the rule says a
  reconnect is never hit; the address waits for the next push of the table.\<close>

theorem own_device_locked_out:
  "limiter_inv l \<Longrightarrow> map_of (user_limit_info l) k = Some v \<Longrightarrow> 0 < ul_device v \<Longrightarrow> addr_ok ip \<Longrightarrow>
     mget 0 (local_of l (ul_uid v)) (trim_ip ip) = 1 \<Longrightarrow> trim_ip ip \<in> global_set l (ul_uid v) \<Longrightarrow>
     \<not> is_stale now l \<Longrightarrow>
     check_limit now r k ip True (conn_closed k ip l) = (None, True, conn_closed k ip l, [])"
proof -
  assume inv: "limiter_inv l" and v: "map_of (user_limit_info l) k = Some v" "0 < ul_device v"
    and ip: "addr_ok ip" and one: "mget 0 (local_of l (ul_uid v)) (trim_ip ip) = 1"
    and g: "trim_ip ip \<in> global_set l (ul_uid v)" and fresh: "\<not> is_stale now l"
  let ?l = "conn_closed k ip l"
  have inv': "limiter_inv ?l" by (rule inv_conn_closed [OF inv])
  have "slookup (ref_shards l) (ul_uid v) \<noteq> None"
    using one by (auto simp: local_of_def sget_slookup split: option.splits)
  then have "trim_ip ip \<notin> local_set ?l (ul_uid v)"
    using v one by (auto simp: local_set_def local_conn_closed map_of_dec_ref)
  then have "check_device_gate now r (ul_uid v) (trim_ip ip) (ul_device v) ?l = (True, '''')"
    using v g fresh live_iff [OF inv'] in_global_set [OF inv']
    by (simp add: check_device_gate_def Let_def stale_closed global_set_closed)
  then show ?thesis
    using v ip check_limit_rejected [of ?l k v ip now r "''''"] check_limit_cooling [of ?l k v now ip r]
    by (cases "in_cooldown now (ul_uid v) (trim_ip ip) ?l") auto
qed

definition listed :: limiter where
  "listed = update_global_devices 1000 (Some [(1, [''1.1.1.1''])]) (conn_opened 1 ''1.1.1.1'' demo)"

theorem own_device_locked_out_witness:
  "check_limit 2000 0 ''t|a'' ''1.1.1.1'' True (conn_closed ''t|a'' ''1.1.1.1'' listed)
     = (None, True, conn_closed ''t|a'' ''1.1.1.1'' listed, [])"
proof -
  have inv: "limiter_inv listed"
    by (simp add: listed_def inv_update_global inv_conn_opened inv_demo)
  have "map_of (user_limit_info listed) ''t|a'' = Some \<lparr>ul_uid = 1, ul_speed = 0, ul_device = 2\<rparr>"
    "mget 0 (local_of listed 1) ''1.1.1.1'' = 1" "\<not> is_stale 2000 listed"
    "mget False (mget [] (global_devices listed) 1) ''1.1.1.1''"
    by code_simp+
  then show ?thesis
    using own_device_locked_out [OF inv, of "''t|a''" "\<lparr>ul_uid = 1, ul_speed = 0, ul_device = 2\<rparr>" "''1.1.1.1''" 2000 0]
      in_global_set [OF inv, of 1 "''1.1.1.1''"]
    by (simp add: addr_ok_def trim_ip_def trim_prefix_def has_prefix_def)
qed

lemma distinct_singleton: "distinct xs \<Longrightarrow> set xs = {a} \<Longrightarrow> xs = [a]"
  by (cases xs; cases "tl xs") auto

lemma gate_full_by_table:
  assumes inv: "limiter_inv l" and "local_set l uid = {}" "global_set l uid = {a}" "\<not> is_stale now l" "ip \<noteq> a"
  shows "check_device_gate now r uid ip 1 l = (True, a)"
proof -
  have loc: "local_of l uid = []"
    using assms(2) mkeys_local [of l uid] by (metis mkeys_eq_Nil set_empty)
  have "set (mkeys (mget [] (global_devices l) uid)) = {a}"
    using assms(3) by (simp add: global_set_def set_mkeys)
  then have "mkeys (mget [] (global_devices l) uid) = [a]"
    by (rule distinct_singleton [OF distinct_global [OF inv]])
  then have "pick_victim r [] (mget [] (global_devices l) uid) = a"
    by (simp add: pick_victim_def range_first_def)
  moreover have "\<not> mget False (mget [] (global_devices l) uid) ip"
    using assms in_global_set [OF inv] by auto
  ultimately show ?thesis
    using assms by (simp add: check_device_gate_def Let_def loc count_global [OF inv])
qed

text \<open>A device that is gone can be kicked again and again. If nothing of a user with limit 1
  is live here and the panel lists only an address \<open>a\<close> (for example because this node still
  reports it from its cooldown), each connection of another address is rejected and starts a
  kick of \<open>a\<close>, and that kick restarts the cooldown of \<open>a\<close>: it is reported for another 300
  seconds. A client that retries keeps itself out, where the comment says later devices get
  in once the victim is gone.\<close>

theorem retries_keep_the_seat_taken:
  "limiter_inv (lim s) \<Longrightarrow> map_of (user_limit_info (lim s)) k = Some v \<Longrightarrow> ul_device v = 1 \<Longrightarrow> addr_ok ip \<Longrightarrow>
     local_set (lim s) (ul_uid v) = {} \<Longrightarrow> global_set (lim s) (ul_uid v) = {a} \<Longrightarrow> a \<noteq> '''' \<Longrightarrow>
     \<not> is_stale (clock s) (lim s) \<Longrightarrow> trim_ip ip \<noteq> a \<Longrightarrow>
     \<not> in_cooldown (clock s) (ul_uid v) (trim_ip ip) (lim s) \<Longrightarrow> pending s = [] \<Longrightarrow>
     clock s - kick_throttle (lim s) (shard_of (ul_uid v)) > second \<Longrightarrow>
     s' = run_ops [Check r k ip True, RunKick 0] s \<Longrightarrow>
     local_set (lim s') (ul_uid v) = {} \<and>
     map_of (cool_of (lim s') (ul_uid v)) a = Some (clock s + kick_cooldown_duration) \<and>
     a \<in> set (mget [] (local_device_snapshot (clock s) (lim s')) (ul_uid v))"
proof -
  assume inv: "limiter_inv (lim s)" and v: "map_of (user_limit_info (lim s)) k = Some v" "ul_device v = 1"
    and ip: "addr_ok ip" and loc: "local_set (lim s) (ul_uid v) = {}"
    and glob: "global_set (lim s) (ul_uid v) = {a}" and a: "a \<noteq> ''''"
    and fresh: "\<not> is_stale (clock s) (lim s)" and new: "trim_ip ip \<noteq> a"
    and cool: "\<not> in_cooldown (clock s) (ul_uid v) (trim_ip ip) (lim s)" and nop: "pending s = []"
    and thr: "clock s - kick_throttle (lim s) (shard_of (ul_uid v)) > second"
    and s': "s' = run_ops [Check r k ip True, RunKick 0] s"
  let ?l1 = "lim s\<lparr>kick_throttle := (kick_throttle (lim s))(shard_of (ul_uid v) := clock s)\<rparr>"
  have "check_limit (clock s) r k ip True (lim s) = (None, True, ?l1, [(ul_uid v, k, a)])"
    using check_limit_rejected [OF v(1) ip _ cool] v gate_full_by_table [OF inv loc glob fresh new] a thr by simp
  then have l': "lim s' = kick_device (clock s) (ul_uid v, k, a) ?l1"
    by (simp add: s' run_check_def run_kick_def nop)
  have inv': "limiter_inv (lim s')"
    unfolding l' by (rule inv_kick_device) (rule inv_throttle [OF inv])
  have "map_of (cool_of (lim s') (ul_uid v)) a = Some (clock s + kick_cooldown_duration)"
    by (simp add: l' cool_of_kick)
  moreover have "local_set (lim s') (ul_uid v) = {}"
    using loc by (simp add: l' local_set_def local_of_def frame)
  ultimately show ?thesis
    using snapshot_devices [OF inv', of "clock s" "ul_uid v"] by (simp add: reported_def kick_cooldown_duration_def)
qed

definition seat_sys :: sys where
  "seat_sys = run_ops [Tick 5000000000, PushGlobal (Some [(1, [''1.1.1.1''])])]
     (new_sys 0 (new_limiter ''t'' 0 [\<lparr>Id = 1, Uuid = ''a'', SpeedLimit = 0, DeviceLimit = 1\<rparr>] []))"

theorem retries_keep_the_seat_taken_witness:
  "''1.1.1.1'' \<in> set (mget [] (local_device_snapshot 5000000000
      (lim (run_ops [Check 0 ''t|a'' ''2.2.2.2'' True, RunKick 0] seat_sys))) 1)"
proof -
  have inv: "limiter_inv (lim seat_sys)"
    unfolding seat_sys_def by (rule run_inv) (simp_all add: new_sys_def inv_new_limiter)
  have "map_of (user_limit_info (lim seat_sys)) ''t|a'' = Some \<lparr>ul_uid = 1, ul_speed = 0, ul_device = 1\<rparr>"
    "local_of (lim seat_sys) 1 = []" "mkeys (mget [] (global_devices (lim seat_sys)) 1) = [''1.1.1.1'']"
    "\<not> is_stale (clock seat_sys) (lim seat_sys)" "clock seat_sys = 5000000000" "pending seat_sys = []"
    "\<not> in_cooldown 5000000000 1 ''2.2.2.2'' (lim seat_sys)"
    "kick_throttle (lim seat_sys) (shard_of 1) = 0"
    by code_simp+
  moreover from this have "local_set (lim seat_sys) 1 = {}" "global_set (lim seat_sys) 1 = {''1.1.1.1''}"
    by (simp_all add: local_set_def global_set_def flip: set_mkeys)
  ultimately show ?thesis
    using retries_keep_the_seat_taken [OF inv, of "''t|a''" "\<lparr>ul_uid = 1, ul_speed = 0, ul_device = 1\<rparr>" "''2.2.2.2''"
        "''1.1.1.1''" "run_ops [Check 0 ''t|a'' ''2.2.2.2'' True, RunKick 0] seat_sys" 0]
    by (simp add: addr_ok_def trim_ip_def trim_prefix_def has_prefix_def del: run_ops_Cons)
qed

end
