(* ===== verification/Json.thy ===== *)
theory Json
  imports Prelude
begin

text \<open>
  What the panel client uses of \<^verbatim>\<open>encoding/json\<close>: a message is given as its syntax tree (\<open>None\<close>
  for text that is no JSON), with numbers as their literals, and the functions decode a tree
  into the Go type of a field the way \<^verbatim>\<open>Unmarshal\<close> does: \<^verbatim>\<open>null\<close> and an absent key leave the
  zero value, object keys match field names without regard to (ASCII) case, a value of
  another kind is an error. Objects are taken to repeat no key.
\<close>

datatype json =
    JNull
  | JBool bool
  | JNum string
  | JStr string
  | JArr "json list"
  | JObj "(string \<times> json) list"

definition fold_char :: "char \<Rightarrow> char" where
  "fold_char c = (let n = of_char c :: nat in if 65 \<le> n \<and> n \<le> 90 then char_of (n + 32) else c)"

definition lower :: "string \<Rightarrow> string" where
  "lower = map fold_char"

definition fold_eq :: "string \<Rightarrow> string \<Rightarrow> bool" where
  "fold_eq a b \<longleftrightarrow> map fold_char a = map fold_char b"

fun field :: "string \<Rightarrow> (string \<times> json) list \<Rightarrow> json" where
  "field name [] = JNull"
| "field name ((k, v) # kvs) = (if fold_eq k name then v else field name kvs)"

fun find_field :: "string \<Rightarrow> (string \<times> json) list \<Rightarrow> json option" where
  "find_field name [] = None"
| "find_field name ((k, v) # kvs) = (if fold_eq k name then Some v else find_field name kvs)"

text \<open>\<open>None\<close> is the error of a type mismatch.\<close>

fun as_int :: "json \<Rightarrow> int option" where
  "as_int JNull = Some 0"
| "as_int (JNum lit) = (case atoi lit of Inr i \<Rightarrow> Some i | Inl e \<Rightarrow> None)"
| "as_int _ = None"

fun as_str :: "json \<Rightarrow> string option" where
  "as_str JNull = Some ''''"
| "as_str (JStr s) = Some s"
| "as_str _ = None"

fun map_all :: "('a \<Rightarrow> 'b option) \<Rightarrow> 'a list \<Rightarrow> 'b list option" where
  "map_all f [] = Some []"
| "map_all f (x # xs) =
     (case f x of None \<Rightarrow> None | Some y \<Rightarrow> (case map_all f xs of None \<Rightarrow> None | Some ys \<Rightarrow> Some (y # ys)))"

text \<open>A slice, \<open>None\<close> inside for the nil slice; a map likewise, with \<^verbatim>\<open>int\<close> or \<^verbatim>\<open>string\<close> keys.\<close>

fun as_slice :: "(json \<Rightarrow> 'a option) \<Rightarrow> json \<Rightarrow> 'a list option option" where
  "as_slice f JNull = Some None"
| "as_slice f (JArr js) = map_option Some (map_all f js)"
| "as_slice f _ = None"

fun as_bool :: "json \<Rightarrow> bool option" where
  "as_bool JNull = Some False"
| "as_bool (JBool b) = Some b"
| "as_bool _ = None"

text \<open>A nested struct: \<^verbatim>\<open>null\<close> or absent leaves it zero.\<close>

definition struct_fields :: "json \<Rightarrow> (string \<times> json) list option" where
  "struct_fields j = (case j of JNull \<Rightarrow> Some [] | JObj kvs \<Rightarrow> Some kvs | _ \<Rightarrow> None)"

definition int_key :: "string \<Rightarrow> int option" where
  "int_key k = (case atoi k of Inr i \<Rightarrow> Some i | Inl e \<Rightarrow> None)"

fun as_map :: "(string \<Rightarrow> 'k option) \<Rightarrow> (json \<Rightarrow> 'v option) \<Rightarrow> json \<Rightarrow> ('k, 'v) gomap option option" where
  "as_map key f JNull = Some None"
| "as_map key f (JObj kvs) =
     (case map_all (\<lambda>(k, v). case key k of None \<Rightarrow> None
          | Some k' \<Rightarrow> (case f v of None \<Rightarrow> None | Some v' \<Rightarrow> Some (k', v'))) kvs of
        None \<Rightarrow> None
      | Some ps \<Rightarrow> Some (Some (fold (\<lambda>(k, v). mput k v) ps [])))"
| "as_map key f _ = None"

lemma map_all_Some: "map_all f xs = Some ys \<Longrightarrow> length ys = length xs \<and> (\<forall>i < length xs. f (xs ! i) = Some (ys ! i))"
  by (induction xs arbitrary: ys) (auto split: option.splits simp: nth_Cons split: nat.splits)

lemma map_all_map: "(\<And>x. x \<in> set xs \<Longrightarrow> f x = Some (g x)) \<Longrightarrow> map_all f xs = Some (map g xs)"
  by (induction xs) auto

end
