(* ===== verification/Conf.thy ===== *)
theory Conf
  imports Users Json
begin

text \<open>
  The configuration file, \<^verbatim>\<open>conf/\<close>: its types, their defaults, and the \<^verbatim>\<open>UnmarshalJSON\<close> methods that
  decide which half of an object is read when. A file is given as its syntax tree, after the cleaner
  of \<open>Json5\<close>; reading an included file or URL is an argument. \<^verbatim>\<open>Unmarshal\<close> into a value that
  is already filled keeps what the text does not name: \<open>upd\<close>.
\<close>

section \<open>Decoding over defaults\<close>

text \<open>An absent field and \<^verbatim>\<open>null\<close> keep the old value (of a type that is no pointer, slice or map).\<close>

definition upd :: "(json \<Rightarrow> 'a option) \<Rightarrow> string \<Rightarrow> (string \<times> json) list \<Rightarrow> 'a \<Rightarrow> 'a option" where
  "upd f name kvs old = (case find_field name kvs of None \<Rightarrow> Some old | Some JNull \<Rightarrow> Some old | Some j \<Rightarrow> f j)"

text \<open>A pointer to a struct: \<^verbatim>\<open>null\<close> makes it nil, an object is read over what it points to, or over
  the zero struct.\<close>

definition upd_ptr :: "('a \<Rightarrow> json \<Rightarrow> 'a option) \<Rightarrow> 'a \<Rightarrow> string \<Rightarrow> (string \<times> json) list \<Rightarrow> 'a option \<Rightarrow> 'a option option" where
  "upd_ptr f zero name kvs old =
     (case find_field name kvs of
        None \<Rightarrow> Some old
      | Some JNull \<Rightarrow> Some None
      | Some j \<Rightarrow> map_option Some (f (case old of None \<Rightarrow> zero | Some x \<Rightarrow> x) j))"

definition upd_raw :: "string \<Rightarrow> (string \<times> json) list \<Rightarrow> json option \<Rightarrow> json option" where
  "upd_raw name kvs old = (case find_field name kvs of None \<Rightarrow> old | Some j \<Rightarrow> Some j)"

definition as_uint :: "nat \<Rightarrow> json \<Rightarrow> int option" where
  "as_uint w j =
     (case j of
        JNull \<Rightarrow> Some 0
      | JNum lit \<Rightarrow> (if lit \<noteq> [] \<and> list_all is_digit lit \<and> digits_val 0 lit < 2 ^ w then Some (int (digits_val 0 lit)) else None)
      | _ \<Rightarrow> None)"

definition as_int32 :: "json \<Rightarrow> int option" where
  "as_int32 j = (case as_int j of None \<Rightarrow> None | Some i \<Rightarrow> if - (2 ^ 31) \<le> i \<and> i < 2 ^ 31 then Some i else None)"

section \<open>Options of the Xray core\<close>

record fallback_config =
  fb_sni :: string
  fb_alpn :: string
  fb_path :: string
  fb_dest :: string
  fb_xver :: int

text \<open>\<open>xo_fallbacks = None\<close>: the nil slice.\<close>

record xray_options =
  xo_proxy_protocol :: bool
  xo_dns :: bool
  xo_dns_type :: string
  xo_tfo :: bool
  xo_no_sniffing :: bool
  xo_fallback :: bool
  xo_fallbacks :: "fallback_config list option"

definition new_xray_options :: xray_options where
  "new_xray_options =
     \<lparr>xo_proxy_protocol = False, xo_dns = False, xo_dns_type = ''AsIs'', xo_tfo = False, xo_no_sniffing = False,
      xo_fallback = False, xo_fallbacks = None\<rparr>"

definition zero_xray_options :: xray_options where
  "zero_xray_options = new_xray_options\<lparr>xo_dns_type := ''''\<rparr>"

definition decode_fallback :: "json \<Rightarrow> fallback_config option" where
  "decode_fallback j = (case struct_fields j of None \<Rightarrow> None | Some kvs \<Rightarrow>
     (case (upd as_str ''SNI'' kvs '''', upd as_str ''Alpn'' kvs '''', upd as_str ''Path'' kvs '''',
            upd as_str ''Dest'' kvs '''', upd (as_uint 64) ''ProxyProtocolVer'' kvs 0) of
        (Some s, Some a, Some p, Some d, Some x) \<Rightarrow>
          Some \<lparr>fb_sni = s, fb_alpn = a, fb_path = p, fb_dest = d, fb_xver = x\<rparr>
      | _ \<Rightarrow> None))"

definition upd_fallbacks :: "(string \<times> json) list \<Rightarrow> fallback_config list option \<Rightarrow> fallback_config list option option" where
  "upd_fallbacks kvs old =
     (case find_field ''FallBackConfigs'' kvs of None \<Rightarrow> Some old | Some j \<Rightarrow> as_slice decode_fallback j)"

definition decode_xray_options :: "xray_options \<Rightarrow> json \<Rightarrow> xray_options option" where
  "decode_xray_options xo j = (case struct_fields j of None \<Rightarrow> None | Some kvs \<Rightarrow>
     (case (upd as_bool ''EnableProxyProtocol'' kvs (xo_proxy_protocol xo), upd as_bool ''EnableDNS'' kvs (xo_dns xo),
            upd as_str ''DNSType'' kvs (xo_dns_type xo), upd as_bool ''EnableTFO'' kvs (xo_tfo xo)) of
        (Some pp, Some d, Some dt, Some t) \<Rightarrow>
          (case (upd as_bool ''DisableSniffing'' kvs (xo_no_sniffing xo), upd as_bool ''EnableFallback'' kvs (xo_fallback xo),
                 upd_fallbacks kvs (xo_fallbacks xo)) of
             (Some s, Some f, Some fs) \<Rightarrow>
               Some \<lparr>xo_proxy_protocol = pp, xo_dns = d, xo_dns_type = dt, xo_tfo = t, xo_no_sniffing = s,
                 xo_fallback = f, xo_fallbacks = fs\<rparr>
           | _ \<Rightarrow> None)
      | _ \<Rightarrow> None))"

section \<open>Node options\<close>

record cert_config =
  cc_mode :: string
  cc_reject_sni :: bool
  cc_domain :: string
  cc_cert_file :: string
  cc_key_file :: string
  cc_provider :: string
  cc_email :: string
  cc_dns_env :: "(string, string) gomap"

definition zero_cert_config :: cert_config where
  "zero_cert_config =
     \<lparr>cc_mode = '''', cc_reject_sni = False, cc_domain = '''', cc_cert_file = '''', cc_key_file = '''',
      cc_provider = '''', cc_email = '''', cc_dns_env = []\<rparr>"

definition new_cert_config :: cert_config where
  "new_cert_config = zero_cert_config\<lparr>cc_mode := ''none''\<rparr>"

text \<open>A map field is read into the map it holds; \<^verbatim>\<open>null\<close> makes it nil.\<close>

definition upd_env :: "(string \<times> json) list \<Rightarrow> (string, string) gomap \<Rightarrow> (string, string) gomap option" where
  "upd_env kvs old =
     (case find_field ''DNSEnv'' kvs of
        None \<Rightarrow> Some old
      | Some j \<Rightarrow> map_option (\<lambda>m. case m of None \<Rightarrow> [] | Some ps \<Rightarrow> fold (\<lambda>(k, v). mput k v) ps old) (as_map Some as_str j))"

definition decode_cert_config :: "cert_config \<Rightarrow> json \<Rightarrow> cert_config option" where
  "decode_cert_config c j = (case struct_fields j of None \<Rightarrow> None | Some kvs \<Rightarrow>
     (case (upd as_str ''CertMode'' kvs (cc_mode c), upd as_bool ''RejectUnknownSni'' kvs (cc_reject_sni c),
            upd as_str ''CertDomain'' kvs (cc_domain c), upd as_str ''CertFile'' kvs (cc_cert_file c)) of
        (Some m, Some r, Some d, Some cf) \<Rightarrow>
          (case (upd as_str ''KeyFile'' kvs (cc_key_file c), upd as_str ''Provider'' kvs (cc_provider c),
                 upd as_str ''Email'' kvs (cc_email c), upd_env kvs (cc_dns_env c)) of
             (Some kf, Some p, Some e, Some env) \<Rightarrow>
               Some \<lparr>cc_mode = m, cc_reject_sni = r, cc_domain = d, cc_cert_file = cf, cc_key_file = kf,
                 cc_provider = p, cc_email = e, cc_dns_env = env\<rparr>
           | _ \<Rightarrow> None)
      | _ \<Rightarrow> None))"

record node_options =
  opt_name :: string
  opt_core :: string
  opt_core_name :: string
  opt_listen_ip :: string
  opt_send_ip :: string
  opt_min_online :: int
  opt_min_traffic :: int
  opt_speed_limit :: int
  opt_raw :: "json option"
  opt_xray :: "xray_options option"
  opt_cert :: "cert_config option"

definition decode_limit :: "int \<Rightarrow> json \<Rightarrow> int option" where
  "decode_limit old j = (case struct_fields j of None \<Rightarrow> None | Some kvs \<Rightarrow> upd as_int ''SpeedLimit'' kvs old)"

text \<open>The fields, then by \<open>opt_core\<close>: the Xray options from the same object, over their defaults; or,
  for a core that is not named here, the object itself is kept for later.\<close>

definition decode_opt :: "node_options \<Rightarrow> json \<Rightarrow> node_options option" where
  "decode_opt opts j = (case struct_fields j of None \<Rightarrow> None | Some kvs \<Rightarrow>
     (case (upd as_str ''Name'' kvs (opt_name opts), upd as_str ''Core'' kvs (opt_core opts), upd as_str ''CoreName'' kvs (opt_core_name opts),
            upd as_str ''ListenIP'' kvs (opt_listen_ip opts), upd as_str ''SendIP'' kvs (opt_send_ip opts)) of
        (Some n, Some c, Some cn, Some l, Some s) \<Rightarrow>
          (case (upd as_int ''DeviceOnlineMinTraffic'' kvs (opt_min_online opts), upd as_int ''ReportMinTraffic'' kvs (opt_min_traffic opts),
                 upd (decode_limit (opt_speed_limit opts)) ''LimitConfig'' kvs (opt_speed_limit opts)) of
             (Some mo, Some mt, Some sl) \<Rightarrow>
               (case (upd_ptr decode_xray_options zero_xray_options ''XrayOptions'' kvs (opt_xray opts),
                      upd_ptr decode_cert_config zero_cert_config ''CertConfig'' kvs (opt_cert opts)) of
                  (Some x, Some cc) \<Rightarrow>
                    Some \<lparr>opt_name = n, opt_core = c, opt_core_name = cn, opt_listen_ip = l, opt_send_ip = s,
                      opt_min_online = mo, opt_min_traffic = mt, opt_speed_limit = sl,
                      opt_raw = upd_raw ''RawOptions'' kvs (opt_raw opts), opt_xray = x, opt_cert = cc\<rparr>
                | _ \<Rightarrow> None)
           | _ \<Rightarrow> None)
      | _ \<Rightarrow> None))"

definition unmarshal_options :: "node_options \<Rightarrow> json \<Rightarrow> node_options option" where
  "unmarshal_options opts j =
     (case decode_opt opts j of
        None \<Rightarrow> None
      | Some o1 \<Rightarrow>
          if opt_core o1 = ''xray'' then
            (case decode_xray_options new_xray_options j of None \<Rightarrow> None | Some x \<Rightarrow> Some (o1\<lparr>opt_xray := Some x\<rparr>))
          else Some (o1\<lparr>opt_core := '''', opt_raw := Some j\<rparr>))"

definition default_options :: node_options where
  "default_options =
     \<lparr>opt_name = '''', opt_core = '''', opt_core_name = '''', opt_listen_ip = ''0.0.0.0'', opt_send_ip = ''0.0.0.0'',
      opt_min_online = 0, opt_min_traffic = 0, opt_speed_limit = 0, opt_raw = None, opt_xray = None,
      opt_cert = Some new_cert_config\<rparr>"

section \<open>Node, core and file\<close>

record api_config =
  ac_host :: string
  ac_send_ip :: string
  ac_node_id :: int
  ac_key :: string
  ac_node_type :: string
  ac_timeout :: int

definition default_api :: api_config where
  "default_api =
     \<lparr>ac_host = ''http://127.0.0.1'', ac_send_ip = '''', ac_node_id = 0, ac_key = '''', ac_node_type = '''',
      ac_timeout = 30\<rparr>"

definition decode_api :: "api_config \<Rightarrow> json \<Rightarrow> api_config option" where
  "decode_api a j = (case struct_fields j of None \<Rightarrow> None | Some kvs \<Rightarrow>
     (case (upd as_str ''ApiHost'' kvs (ac_host a), upd as_str ''ApiSendIP'' kvs (ac_send_ip a),
            upd as_int ''NodeID'' kvs (ac_node_id a)) of
        (Some h, Some s, Some i) \<Rightarrow>
          (case (upd as_str ''ApiKey'' kvs (ac_key a), upd as_str ''NodeType'' kvs (ac_node_type a),
                 upd as_int ''Timeout'' kvs (ac_timeout a)) of
             (Some k, Some t, Some tm) \<Rightarrow>
               Some \<lparr>ac_host = h, ac_send_ip = s, ac_node_id = i, ac_key = k, ac_node_type = t, ac_timeout = tm\<rparr>
           | _ \<Rightarrow> None)
      | _ \<Rightarrow> None))"

record node_config =
  nc_api :: api_config
  nc_options :: node_options

record raw_node =
  rn_include :: string
  rn_api :: "json option"
  rn_opt :: "json option"

definition decode_raw_node :: "raw_node \<Rightarrow> json \<Rightarrow> raw_node option" where
  "decode_raw_node r j = (case struct_fields j of None \<Rightarrow> None | Some kvs \<Rightarrow>
     (case upd as_str ''Include'' kvs (rn_include r) of
        None \<Rightarrow> None
      | Some i \<Rightarrow> Some \<lparr>rn_include = i, rn_api = upd_raw ''ApiConfig'' kvs (rn_api r), rn_opt = upd_raw ''Options'' kvs (rn_opt r)\<rparr>))"

text \<open>Reading the included file: a URL, with or without a colon before it, is fetched; anything else
  is a path.\<close>

definition read_include :: "(string \<Rightarrow> json option) \<Rightarrow> (string \<Rightarrow> json option) \<Rightarrow> string \<Rightarrow> json option" where
  "read_include fetch open i =
     (let f = trim_prefix '':'' i in
        if has_prefix ''http://'' f \<or> has_prefix ''https://'' f then fetch f else open i)"

text \<open>The node from its raw parts: each half from its own object if there is one, else from the whole.\<close>

definition node_of :: "json \<Rightarrow> raw_node \<Rightarrow> node_config option" where
  "node_of data rn =
     (case decode_api default_api (case rn_api rn of Some j \<Rightarrow> j | None \<Rightarrow> data) of
        None \<Rightarrow> None
      | Some a \<Rightarrow>
          (case unmarshal_options default_options (case rn_opt rn of Some j \<Rightarrow> j | None \<Rightarrow> data) of
             None \<Rightarrow> None
           | Some opts \<Rightarrow> Some \<lparr>nc_api = a, nc_options = opts\<rparr>))"

definition unmarshal_node :: "(string \<Rightarrow> json option) \<Rightarrow> (string \<Rightarrow> json option) \<Rightarrow> json \<Rightarrow> node_config option" where
  "unmarshal_node fetch open data =
     (case decode_raw_node \<lparr>rn_include = '''', rn_api = None, rn_opt = None\<rparr> data of
        None \<Rightarrow> None
      | Some rn \<Rightarrow>
          if rn_include rn = '''' then node_of data rn
          else
            (case read_include fetch open (rn_include rn) of
               None \<Rightarrow> None
             | Some data' \<Rightarrow>
                 (case decode_raw_node rn data' of None \<Rightarrow> None | Some rn' \<Rightarrow> node_of data' rn')))"

record xray_log_config =
  xl_level :: string
  xl_access :: string
  xl_error :: string

record xray_connection_config =
  xn_handshake :: int
  xn_idle :: int
  xn_uplink :: int
  xn_downlink :: int
  xn_buffer :: int

record xray_config =
  xc_log :: "xray_log_config option"
  xc_asset :: string
  xc_dns :: string
  xc_route :: string
  xc_connection :: "xray_connection_config option"
  xc_inbound :: string
  xc_outbound :: string

definition new_xray_config :: xray_config where
  "new_xray_config =
     \<lparr>xc_log = Some \<lparr>xl_level = ''warning'', xl_access = '''', xl_error = ''''\<rparr>, xc_asset = ''/etc/ljfxznode/'',
      xc_dns = '''', xc_route = '''',
      xc_connection = Some \<lparr>xn_handshake = 4, xn_idle = 30, xn_uplink = 2, xn_downlink = 4, xn_buffer = 64\<rparr>,
      xc_inbound = '''', xc_outbound = ''''\<rparr>"

definition decode_xray_log :: "xray_log_config \<Rightarrow> json \<Rightarrow> xray_log_config option" where
  "decode_xray_log l j = (case struct_fields j of None \<Rightarrow> None | Some kvs \<Rightarrow>
     (case (upd as_str ''Level'' kvs (xl_level l), upd as_str ''AccessPath'' kvs (xl_access l), upd as_str ''ErrorPath'' kvs (xl_error l)) of
        (Some v, Some a, Some e) \<Rightarrow> Some \<lparr>xl_level = v, xl_access = a, xl_error = e\<rparr>
      | _ \<Rightarrow> None))"

definition decode_xray_connection :: "xray_connection_config \<Rightarrow> json \<Rightarrow> xray_connection_config option" where
  "decode_xray_connection c j = (case struct_fields j of None \<Rightarrow> None | Some kvs \<Rightarrow>
     (case (upd (as_uint 32) ''handshake'' kvs (xn_handshake c), upd (as_uint 32) ''connIdle'' kvs (xn_idle c),
            upd (as_uint 32) ''uplinkOnly'' kvs (xn_uplink c), upd (as_uint 32) ''downlinkOnly'' kvs (xn_downlink c),
            upd as_int32 ''bufferSize'' kvs (xn_buffer c)) of
        (Some h, Some i, Some u, Some d, Some b) \<Rightarrow>
          Some \<lparr>xn_handshake = h, xn_idle = i, xn_uplink = u, xn_downlink = d, xn_buffer = b\<rparr>
      | _ \<Rightarrow> None))"

definition decode_xray_config :: "xray_config \<Rightarrow> json \<Rightarrow> xray_config option" where
  "decode_xray_config c j = (case struct_fields j of None \<Rightarrow> None | Some kvs \<Rightarrow>
     (case (upd_ptr decode_xray_log \<lparr>xl_level = '''', xl_access = '''', xl_error = ''''\<rparr> ''Log'' kvs (xc_log c),
            upd_ptr decode_xray_connection \<lparr>xn_handshake = 0, xn_idle = 0, xn_uplink = 0, xn_downlink = 0, xn_buffer = 0\<rparr>
              ''XrayConnectionConfig'' kvs (xc_connection c)) of
        (Some l, Some cn) \<Rightarrow>
          (case (upd as_str ''AssetPath'' kvs (xc_asset c), upd as_str ''DnsConfigPath'' kvs (xc_dns c),
                 upd as_str ''RouteConfigPath'' kvs (xc_route c), upd as_str ''InboundConfigPath'' kvs (xc_inbound c),
                 upd as_str ''OutboundConfigPath'' kvs (xc_outbound c)) of
             (Some a, Some d, Some r, Some i, Some ob) \<Rightarrow>
               Some \<lparr>xc_log = l, xc_asset = a, xc_dns = d, xc_route = r, xc_connection = cn, xc_inbound = i, xc_outbound = ob\<rparr>
           | _ \<Rightarrow> None)
      | _ \<Rightarrow> None))"

record core_config =
  kc_type :: string
  kc_name :: string
  kc_xray :: "xray_config option"

definition unmarshal_core :: "json \<Rightarrow> core_config option" where
  "unmarshal_core j = (case struct_fields j of None \<Rightarrow> None | Some kvs \<Rightarrow>
     (case (upd as_str ''Type'' kvs '''', upd as_str ''Name'' kvs '''') of
        (Some t, Some n) \<Rightarrow>
          if t = ''xray'' then map_option (\<lambda>x. \<lparr>kc_type = t, kc_name = n, kc_xray = Some x\<rparr>) (decode_xray_config new_xray_config j)
          else Some \<lparr>kc_type = t, kc_name = n, kc_xray = None\<rparr>
      | _ \<Rightarrow> None))"

record log_config =
  lc_level :: string
  lc_output :: string

record conf =
  cf_log :: log_config
  cf_cores :: "core_config list"
  cf_nodes :: "node_config list"

definition new_conf :: conf where
  "new_conf = \<lparr>cf_log = \<lparr>lc_level = ''info'', lc_output = ''''\<rparr>, cf_cores = [], cf_nodes = []\<rparr>"

definition decode_log :: "log_config \<Rightarrow> json \<Rightarrow> log_config option" where
  "decode_log l j = (case struct_fields j of None \<Rightarrow> None | Some kvs \<Rightarrow>
     (case (upd as_str ''Level'' kvs (lc_level l), upd as_str ''Output'' kvs (lc_output l)) of
        (Some v, Some p) \<Rightarrow> Some \<lparr>lc_level = v, lc_output = p\<rparr>
      | _ \<Rightarrow> None))"

text \<open>A slice field.\<close>

definition upd_list :: "(json \<Rightarrow> 'a option) \<Rightarrow> string \<Rightarrow> (string \<times> json) list \<Rightarrow> 'a list \<Rightarrow> 'a list option" where
  "upd_list f name kvs old =
     (case find_field name kvs of
        None \<Rightarrow> Some old
      | Some j \<Rightarrow> map_option (\<lambda>xs. case xs of None \<Rightarrow> [] | Some ys \<Rightarrow> ys) (as_slice f j))"

definition load_conf :: "(string \<Rightarrow> json option) \<Rightarrow> (string \<Rightarrow> json option) \<Rightarrow> json option \<Rightarrow> conf \<Rightarrow> conf option" where
  "load_conf fetch open file c =
     (case file of None \<Rightarrow> None | Some j \<Rightarrow>
        (case struct_fields j of None \<Rightarrow> None | Some kvs \<Rightarrow>
           (case (upd (decode_log (cf_log c)) ''Log'' kvs (cf_log c), upd_list unmarshal_core ''Cores'' kvs (cf_cores c),
                  upd_list (unmarshal_node fetch open) ''Nodes'' kvs (cf_nodes c)) of
              (Some l, Some cs, Some ns) \<Rightarrow> Some \<lparr>cf_log = l, cf_cores = cs, cf_nodes = ns\<rparr>
            | _ \<Rightarrow> None)))"

section \<open>Reading twice\<close>

text \<open>Reading the same object again over the result changes nothing.\<close>

lemma upd_again: "upd f name kvs old = Some x \<Longrightarrow> upd f name kvs x = Some x"
  by (auto simp: upd_def split: option.splits json.splits)

lemma upd_raw_again [simp]: "upd_raw name kvs (upd_raw name kvs old) = upd_raw name kvs old"
  by (simp add: upd_raw_def split: option.splits)

lemma upd_ptr_again:
  assumes "upd_ptr f zero name kvs old = Some x" and f: "\<And>a b j. f a j = Some b \<Longrightarrow> f b j = Some b"
  shows "upd_ptr f zero name kvs x = Some x"
  using assms(1) by (auto simp: upd_ptr_def split: option.splits json.splits dest: f)

lemma mput_present: "map_of m k = Some v \<Longrightarrow> mput k v m = m"
  unfolding mput_def by (induction m) (auto split: if_splits)

lemma mput_swap: "map_of m k = Some v \<Longrightarrow> map_of (mput k' v' m) k = Some (if k' = k then v' else v)"
  by simp

lemma fold_mput_kept:
  "k \<notin> fst ` set ps \<Longrightarrow> map_of m k = Some v \<Longrightarrow> map_of (fold (\<lambda>(k, v). mput k v) ps m) k = Some v"
  by (induction ps arbitrary: m) auto

lemma fold_mput_again:
  assumes "distinct (map fst ps)"
  shows "fold (\<lambda>(k, v). mput k v) ps (fold (\<lambda>(k, v). mput k v) ps m) = fold (\<lambda>(k, v). mput k v) ps m"
proof -
  have held: "(k, v) \<in> set ps \<Longrightarrow> map_of (fold (\<lambda>(k, v). mput k v) ps m) k = Some v" for k v
    using assms
  proof (induction ps arbitrary: m)
    case (Cons p ps)
    then show ?case
      using fold_mput_kept [of "fst p" ps "mput (fst p) (snd p) m" "snd p"] by (cases p) auto
  qed simp
  have "fold (\<lambda>(k, v). mput k v) qs n = n" if "\<forall>(k, v) \<in> set qs. map_of n k = Some v" for qs n
    using that by (induction qs) (auto simp: mput_present)
  then show ?thesis using held by auto
qed

lemma distinct_fold_mput: "distinct (map fst m) \<Longrightarrow> distinct (map fst (fold (\<lambda>(k, v). mput k v) ps m))"
  by (induction ps arbitrary: m) (auto simp: mput_def AList.distinct_update)

lemma upd_env_again:
  assumes "upd_env kvs old = Some x"
  shows "upd_env kvs x = Some x"
proof -
  have d: "distinct (map fst ps)" if "as_map Some as_str j = Some (Some ps)" for j ps
    using that by (cases j) (auto split: option.splits intro!: distinct_fold_mput)
  show ?thesis
  proof (cases "find_field ''DNSEnv'' kvs")
    case (Some j)
    obtain r where r: "as_map Some as_str j = Some r" "x = (case r of None \<Rightarrow> [] | Some ps \<Rightarrow> fold (\<lambda>(k, v). mput k v) ps old)"
      using assms Some by (auto simp: upd_env_def)
    then show ?thesis
      using Some fold_mput_again [OF d] by (cases r) (simp_all add: upd_env_def)
  qed (simp add: upd_env_def)
qed

lemma decode_xray_options_again: "decode_xray_options a j = Some b \<Longrightarrow> decode_xray_options b j = Some b"
  by (auto simp: decode_xray_options_def split: option.splits dest: upd_again)
    (auto simp: upd_fallbacks_def split: option.splits)

lemma decode_cert_config_again: "decode_cert_config a j = Some b \<Longrightarrow> decode_cert_config b j = Some b"
  by (auto simp: decode_cert_config_def split: option.splits dest: upd_again) (simp_all add: upd_env_again upd_again)

lemma upd_nested_again:
  assumes "upd (f old) name kvs old = Some x" and f: "\<And>a b j. f a j = Some b \<Longrightarrow> f b j = Some b"
  shows "upd (f x) name kvs x = Some x"
  using assms(1) by (auto simp: upd_def split: option.splits json.splits dest: f)

lemma decode_limit_again: "decode_limit a j = Some b \<Longrightarrow> decode_limit b j = Some b"
  by (auto simp: decode_limit_def split: option.splits intro: upd_again)

lemma decode_opt_again:
  assumes d: "decode_opt opts j = Some o1"
  shows "decode_opt o1 j = Some o1"
proof -
  obtain kvs where k: "struct_fields j = Some kvs"
    using d by (auto simp: decode_opt_def split: option.splits)
  obtain n c cn l s mo mt sl x cc where
      u: "upd as_str ''Name'' kvs (opt_name opts) = Some n" "upd as_str ''Core'' kvs (opt_core opts) = Some c"
        "upd as_str ''CoreName'' kvs (opt_core_name opts) = Some cn" "upd as_str ''ListenIP'' kvs (opt_listen_ip opts) = Some l"
        "upd as_str ''SendIP'' kvs (opt_send_ip opts) = Some s"
        "upd as_int ''DeviceOnlineMinTraffic'' kvs (opt_min_online opts) = Some mo"
        "upd as_int ''ReportMinTraffic'' kvs (opt_min_traffic opts) = Some mt"
      and sl: "upd (decode_limit (opt_speed_limit opts)) ''LimitConfig'' kvs (opt_speed_limit opts) = Some sl"
      and x: "upd_ptr decode_xray_options zero_xray_options ''XrayOptions'' kvs (opt_xray opts) = Some x"
      and cc: "upd_ptr decode_cert_config zero_cert_config ''CertConfig'' kvs (opt_cert opts) = Some cc"
      and o1: "o1 = \<lparr>opt_name = n, opt_core = c, opt_core_name = cn, opt_listen_ip = l, opt_send_ip = s,
          opt_min_online = mo, opt_min_traffic = mt, opt_speed_limit = sl,
          opt_raw = upd_raw ''RawOptions'' kvs (opt_raw opts), opt_xray = x, opt_cert = cc\<rparr>"
    using d k by (auto simp: decode_opt_def split: option.split_asm)
  show ?thesis
    by (simp add: decode_opt_def k o1 u [THEN upd_again] upd_nested_again [OF sl decode_limit_again]
        upd_ptr_again [OF x decode_xray_options_again] upd_ptr_again [OF cc decode_cert_config_again])
qed

section \<open>A core chosen late\<close>

text \<open>What \<^verbatim>\<open>Selector.AddNode\<close> does with options that name no core, once it has chosen one of type \<open>t\<close>
  (\<open>None\<close>: the raw options cannot be read, or there are none).\<close>

definition complete_options :: "string \<Rightarrow> node_options \<Rightarrow> node_options option" where
  "complete_options t opts =
     (case opt_raw opts of
        None \<Rightarrow> None
      | Some j \<Rightarrow> map_option (\<lambda>x. x\<lparr>opt_raw := None\<rparr>) (unmarshal_options (opts\<lparr>opt_core := t\<rparr>) j))"

lemma decode_opt_raw:
  "struct_fields j = Some kvs \<Longrightarrow>
     decode_opt (opts\<lparr>opt_raw := r\<rparr>) j = map_option (\<lambda>x. x\<lparr>opt_raw := upd_raw ''RawOptions'' kvs r\<rparr>) (decode_opt opts j)"
  by (simp add: decode_opt_def split: option.split)

lemma decode_opt_core:
  "struct_fields j = Some kvs \<Longrightarrow> find_field ''Core'' kvs \<in> {None, Some JNull} \<Longrightarrow>
     decode_opt (opts\<lparr>opt_core := t\<rparr>) j = map_option (\<lambda>x. x\<lparr>opt_core := t\<rparr>) (decode_opt opts j)"
  by (auto simp: decode_opt_def upd_def [of as_str "''Core''"] split: option.split)

lemma late_core_choice:
  assumes k: "struct_fields j = Some kvs" and c: "find_field ''Core'' kvs \<in> {None, Some JNull}"
    and o1: "unmarshal_options default_options j = Some o1"
  shows "complete_options ''xray'' o1 =
    map_option (\<lambda>x. x\<lparr>opt_raw := None\<rparr>) (unmarshal_options (default_options\<lparr>opt_core := ''xray''\<rparr>) j)"
proof -
  obtain d where d: "decode_opt default_options j = Some d"
    using o1 by (auto simp: unmarshal_options_def split: option.splits)
  have "default_options\<lparr>opt_core := ''''\<rparr> = default_options"
    by (simp add: default_options_def)
  then have "d = d\<lparr>opt_core := ''''\<rparr>"
    using decode_opt_core [OF k c, where opts = default_options and t = "''''"] d by simp
  then have "opt_core d = opt_core (d\<lparr>opt_core := ''''\<rparr>)"
    by (rule arg_cong)
  then have "opt_core d = ''''" by simp
  then have e: "o1 = d\<lparr>opt_core := '''', opt_raw := Some j\<rparr>"
    using o1 d by (simp add: unmarshal_options_def)
  have "decode_opt d j = Some d" by (rule decode_opt_again [OF d])
  then have "decode_opt (d\<lparr>opt_raw := Some j, opt_core := ''xray''\<rparr>) j
      = Some (d\<lparr>opt_raw := upd_raw ''RawOptions'' kvs (Some j), opt_core := ''xray''\<rparr>)"
    using decode_opt_core [OF k c, where opts = "d\<lparr>opt_raw := Some j\<rparr>" and t = "''xray''"] decode_opt_raw [OF k, where opts = d and r = "Some j"] by simp
  moreover have "decode_opt (default_options\<lparr>opt_core := ''xray''\<rparr>) j = Some (d\<lparr>opt_core := ''xray''\<rparr>)"
    using decode_opt_core [OF k c, where opts = default_options and t = "''xray''"] d by simp
  ultimately show ?thesis
    by (simp add: complete_options_def unmarshal_options_def e split: option.split)
qed

text \<open>Options that name an unknown core: the chosen core's type is overwritten by the text again,
  and no Xray options are read.\<close>

lemma unknown_core_name_lost:
  assumes k: "struct_fields j = Some kvs" and c: "find_field ''Core'' kvs = Some (JStr c)" "c \<noteq> ''xray''"
    and x: "find_field ''XrayOptions'' kvs = None"
    and o1: "unmarshal_options default_options j = Some o1"
  shows "\<exists>o2. complete_options t o1 = Some o2 \<and> opt_core o2 = '''' \<and> opt_xray o2 = None"
proof -
  obtain d where d: "decode_opt default_options j = Some d"
    using o1 by (auto simp: unmarshal_options_def split: option.splits)
  then have dc: "opt_core d = c" "opt_xray d = None"
    using k c x by (auto simp: decode_opt_def upd_def [of as_str "''Core''"] upd_ptr_def [of _ _ "''XrayOptions''"]
        default_options_def split: option.split_asm)
  then have e: "o1 = d\<lparr>opt_core := '''', opt_raw := Some j\<rparr>"
    using o1 d c by (simp add: unmarshal_options_def)
  have "decode_opt (m\<lparr>opt_core := t'\<rparr>) j = decode_opt m j" for m t'
    using c k by (simp add: decode_opt_def upd_def [of as_str "''Core''"] split: option.split)
  then have "decode_opt (o1\<lparr>opt_core := t\<rparr>) j = Some (d\<lparr>opt_raw := upd_raw ''RawOptions'' kvs (Some j)\<rparr>)"
    using decode_opt_raw [OF k, where opts = d and r = "Some j"] decode_opt_again [OF d] by (simp add: e)
  then show ?thesis
    using dc c by (simp add: complete_options_def e unmarshal_options_def)
qed

section \<open>What is loaded is well typed\<close>

definition is_int64 :: "int \<Rightarrow> bool" where
  "is_int64 i \<longleftrightarrow> min_int64 \<le> i \<and> i \<le> max_int64"

lemma as_int_range: "as_int j = Some i \<Longrightarrow> is_int64 i"
  by (cases j) (auto simp: is_int64_def dest: atoi_range split: sum.splits)

lemma upd_int_range: "upd as_int name kvs old = Some i \<Longrightarrow> is_int64 old \<Longrightarrow> is_int64 i"
  by (auto simp: upd_def simp del: as_int.simps dest: as_int_range split: option.splits json.splits)

definition options_typed :: "node_options \<Rightarrow> bool" where
  "options_typed opts \<longleftrightarrow> is_int64 (opt_min_online opts) \<and> is_int64 (opt_min_traffic opts) \<and> is_int64 (opt_speed_limit opts) \<and>
     (opt_core opts = ''xray'' \<and> opt_xray opts \<noteq> None \<or> opt_core opts = '''' \<and> opt_raw opts \<noteq> None)"

lemma decode_limit_range: "decode_limit old j = Some i \<Longrightarrow> is_int64 old \<Longrightarrow> is_int64 i"
  by (auto simp: decode_limit_def dest: upd_int_range split: option.splits)

lemma upd_limit_range: "upd (decode_limit old) name kvs old = Some i \<Longrightarrow> is_int64 old \<Longrightarrow> is_int64 i"
  by (auto simp: upd_def dest: decode_limit_range split: option.splits json.splits)

lemma decode_opt_range:
  assumes d: "decode_opt opts j = Some o1"
    and r: "is_int64 (opt_min_online opts)" "is_int64 (opt_min_traffic opts)" "is_int64 (opt_speed_limit opts)"
  shows "is_int64 (opt_min_online o1) \<and> is_int64 (opt_min_traffic o1) \<and> is_int64 (opt_speed_limit o1)"
proof -
  obtain kvs mo mt sl where
    "upd as_int ''DeviceOnlineMinTraffic'' kvs (opt_min_online opts) = Some mo"
    "upd as_int ''ReportMinTraffic'' kvs (opt_min_traffic opts) = Some mt"
    "upd (decode_limit (opt_speed_limit opts)) ''LimitConfig'' kvs (opt_speed_limit opts) = Some sl"
    "opt_min_online o1 = mo" "opt_min_traffic o1 = mt" "opt_speed_limit o1 = sl"
    using d by (auto simp: decode_opt_def split: option.splits prod.splits)
  then show ?thesis using r by (metis upd_int_range upd_limit_range)
qed

lemma unmarshal_options_typed:
  assumes "unmarshal_options opts j = Some o1"
    and "is_int64 (opt_min_online opts)" "is_int64 (opt_min_traffic opts)" "is_int64 (opt_speed_limit opts)"
  shows "options_typed o1"
  using assms decode_opt_range [OF _ assms(2-4), of j]
  by (auto simp: unmarshal_options_def options_typed_def split: option.splits if_splits)

lemma decode_api_typed:
  "decode_api a j = Some b \<Longrightarrow> is_int64 (ac_node_id a) \<Longrightarrow> is_int64 (ac_timeout a) \<Longrightarrow> is_int64 (ac_node_id b) \<and> is_int64 (ac_timeout b)"
  by (auto simp: decode_api_def dest: upd_int_range split: option.splits prod.splits)

text \<open>C31. Whatever the configuration says, inline or in an included file, a node that is loaded is well
  typed: its numbers are 64-bit integers, and its options either name the core \<^verbatim>\<open>xray\<close> and carry Xray
  options, or name no core and keep the text they came from, for the selector to read when it has chosen one.\<close>

theorem loaded_nodes_typed:
  assumes "unmarshal_node fetch open data = Some nc"
  shows "is_int64 (ac_node_id (nc_api nc)) \<and> is_int64 (ac_timeout (nc_api nc)) \<and> options_typed (nc_options nc)"
proof -
  obtain data' rn where n: "node_of data' rn = Some nc"
    using assms by (auto simp: unmarshal_node_def split: option.splits if_splits)
  obtain ja jo where "decode_api default_api ja = Some (nc_api nc)" "unmarshal_options default_options jo = Some (nc_options nc)"
    using n by (auto simp: node_of_def split: option.splits)
  then show ?thesis
    using decode_api_typed [of default_api] unmarshal_options_typed [of default_options]
    by (simp add: default_api_def default_options_def is_int64_def)
qed

theorem loaded_nodes_typed_witness:
  "\<exists>nc. unmarshal_node (\<lambda>u. None) (\<lambda>p. None) (JObj [(''NodeID'', JNum ''7''), (''Core'', JStr ''sing'')]) = Some nc \<and>
     ac_node_id (nc_api nc) = 7 \<and> opt_core (nc_options nc) = '''' \<and> opt_raw (nc_options nc) \<noteq> None"
proof -
  let ?u = "unmarshal_node (\<lambda>u. None) (\<lambda>p. None) (JObj [(''NodeID'', JNum ''7''), (''Core'', JStr ''sing'')])"
  have s: "map_option (\<lambda>nc. (ac_node_id (nc_api nc), opt_core (nc_options nc))) ?u = Some (7, '''')"
    by code_simp
  then obtain nc where u: "?u = Some nc" and f: "ac_node_id (nc_api nc) = 7" "opt_core (nc_options nc) = ''''"
    by auto
  show ?thesis
    using loaded_nodes_typed [OF u] u f by (auto simp: options_typed_def)
qed

end
