(* ===== verification/PanelUsers.thy ===== *)
theory PanelUsers
  imports Conf
begin

text \<open>
  The panel's REST client for users, \<^verbatim>\<open>api/panel/user.go\<close>, \<^verbatim>\<open>utils.go\<close>, \<^verbatim>\<open>handshake.go\<close> and
  \<^verbatim>\<open>status.go\<close>, and the client's state and construction (\<^verbatim>\<open>panel.go\<close>). The HTTP library is
  third-party: a call takes the reply it gets as an argument, and returns its result, the
  client's new state and (for a report) the body it posts.
\<close>

section \<open>The client and its replies\<close>

record client =
  api_host :: string
  send_ip :: string
  api_key :: string
  node_type :: string
  node_id :: int
  node_etag :: string
  user_etag :: string
  body_hash :: string

record 'b reply =
  r_nil :: bool
  r_err :: "string option"
  r_status :: int
  r_body :: 'b
  r_etag :: string

definition assemble_url :: "client \<Rightarrow> string \<Rightarrow> string" where
  "assemble_url c path = api_host c @ path"

definition check_response :: "client \<Rightarrow> 'b reply \<Rightarrow> ('b \<Rightarrow> string) \<Rightarrow> string \<Rightarrow> string option" where
  "check_response c r show path =
     (case r_err r of
        Some e \<Rightarrow> Some (''request '' @ assemble_url c path @ '' failed: '' @ e)
      | None \<Rightarrow> if r_status r \<ge> 400 then Some (''request '' @ assemble_url c path @ '' failed: '' @ show (r_body r))
                else None)"

text \<open>\<^verbatim>\<open>New\<close>: the configured node type is lowered and mapped; another one is an error.\<close>

definition panel_type :: "string \<Rightarrow> string option" where
  "panel_type s =
     (if s = ''v2ray'' then Some ''vmess''
      else if s \<in> {''vmess'', ''trojan'', ''shadowsocks'', ''vless''} then Some s else None)"

definition new_client :: "api_config \<Rightarrow> string + client" where
  "new_client c =
     (case panel_type (lower (ac_node_type c)) of
        None \<Rightarrow> Inl (''unsupported Node type: '' @ lower (ac_node_type c))
      | Some nt \<Rightarrow> Inr \<lparr>api_host = ac_host c, send_ip = ac_send_ip c, api_key = ac_key c, node_type = nt,
          node_id = ac_node_id c, node_etag = '''', user_etag = '''', body_hash = ''''\<rparr>)"

definition query_params :: "client \<Rightarrow> (string, string) gomap" where
  "query_params c = [(''node_type'', node_type c), (''node_id'', itoa (node_id c)), (''token'', api_key c)]"

text \<open>What \<^verbatim>\<open>New\<close> sets on the HTTP client: three retries, the timeout (5 s unless a positive number of
  seconds is configured, wrapping as an \<^verbatim>\<open>int64\<close> of nanoseconds) and the address to send from.\<close>

record http_setup =
  hc_local :: "string option"
  hc_retries :: int
  hc_timeout :: int
  hc_base :: string

definition client_setup :: "api_config \<Rightarrow> http_setup" where
  "client_setup c =
     \<lparr>hc_local = (if ac_send_ip c = '''' then None else Some (ac_send_ip c)), hc_retries = 3,
      hc_timeout = (if ac_timeout c > 0 then wrap64 (ac_timeout c * second) else 5 * second),
      hc_base = ac_host c\<rparr>"

section \<open>Users\<close>

definition decode_user :: "json \<Rightarrow> user_info option" where
  "decode_user j = (case j of
     JNull \<Rightarrow> Some \<lparr>Id = 0, Uuid = '''', SpeedLimit = 0, DeviceLimit = 0\<rparr>
   | JObj kvs \<Rightarrow>
       (case (as_int (field ''id'' kvs), as_str (field ''uuid'' kvs),
              as_int (field ''speed_limit'' kvs), as_int (field ''device_limit'' kvs)) of
          (Some i, Some u, Some s, Some d) \<Rightarrow> Some \<lparr>Id = i, Uuid = u, SpeedLimit = s, DeviceLimit = d\<rparr>
        | _ \<Rightarrow> None)
   | _ \<Rightarrow> None)"

text \<open>\<^verbatim>\<open>UserListBody\<close>; \<open>None\<close> inside is the nil slice.\<close>

definition decode_user_list :: "json option \<Rightarrow> user_info list option option" where
  "decode_user_list body = (case body of
     None \<Rightarrow> None
   | Some JNull \<Rightarrow> Some None
   | Some (JObj kvs) \<Rightarrow> as_slice decode_user (field ''users'' kvs)
   | Some _ \<Rightarrow> None)"

definition get_user_list ::
    "(json option \<Rightarrow> string) \<Rightarrow> json option reply \<Rightarrow> client \<Rightarrow> (string + user_info list option) \<times> client" where
  "get_user_list show r c =
     (if r_nil r then (Inl ''received nil response'', c)
      else if r_status r = 304 then (Inr None, c)
      else case check_response c r show ''/api/v1/server/UniProxy/user'' of
             Some e \<Rightarrow> (Inl e, c)
           | None \<Rightarrow>
               (case decode_user_list (r_body r) of
                  None \<Rightarrow> (Inl ''decode user list error'', c)
                | Some us \<Rightarrow> (Inr us, c\<lparr>user_etag := r_etag r\<rparr>)))"

definition decode_alive :: "json option \<Rightarrow> (int, int) gomap option option" where
  "decode_alive body = (case body of
     None \<Rightarrow> None
   | Some JNull \<Rightarrow> Some None
   | Some (JObj kvs) \<Rightarrow> as_map int_key as_int (field ''alive'' kvs)
   | Some _ \<Rightarrow> None)"

definition get_user_alive :: "json option reply \<Rightarrow> string + (int, int) gomap option" where
  "get_user_alive r =
     (case r_err r of
        Some e \<Rightarrow> Inl e
      | None \<Rightarrow>
          if r_nil r then Inl ''get alive list failed: received nil response''
          else if r_status r \<ge> 399 then Inl (''get alive list failed, status: '' @ itoa (r_status r))
          else (case decode_alive (r_body r) of
                  None \<Rightarrow> Inl ''unmarshal alive list failed''
                | Some m \<Rightarrow> Inr m))"

text \<open>\<^verbatim>\<open>data[UID] = []int64{Upload, Download}\<close>, row after row.\<close>

definition traffic_body :: "user_traffic list \<Rightarrow> (int, int \<times> int) gomap" where
  "traffic_body rows = fold (\<lambda>t. mput (UID t) (Upload t, Download t)) rows []"

definition report_user_traffic ::
    "('b \<Rightarrow> string) \<Rightarrow> 'b reply \<Rightarrow> user_traffic list \<Rightarrow> client \<Rightarrow> (int, int \<times> int) gomap \<times> string option" where
  "report_user_traffic show r rows c =
     (traffic_body rows, check_response c r show ''/api/v1/server/UniProxy/push'')"

definition report_node_online_users ::
    "('b \<Rightarrow> string) \<Rightarrow> 'b reply \<Rightarrow> (int, string list) gomap \<Rightarrow> client \<Rightarrow> (int, string list) gomap \<times> string option" where
  "report_node_online_users show r data c = (data, check_response c r show ''/api/v1/server/UniProxy/alive'')"

section \<open>Handshake and status\<close>

record handshake =
  ws_enabled :: bool
  ws_url :: string
  hs_push :: int
  hs_pull :: int

definition decode_handshake :: "json option \<Rightarrow> handshake option" where
  "decode_handshake body =
     (case body of None \<Rightarrow> None | Some j \<Rightarrow>
        (case struct_fields j of None \<Rightarrow> None | Some kvs \<Rightarrow>
           (case (struct_fields (field ''websocket'' kvs), struct_fields (field ''settings'' kvs)) of
              (Some ws, Some st) \<Rightarrow>
                (case (as_bool (field ''enabled'' ws), as_str (field ''ws_url'' ws),
                       as_int (field ''push_interval'' st), as_int (field ''pull_interval'' st)) of
                   (Some e, Some u, Some pu, Some pl) \<Rightarrow> Some \<lparr>ws_enabled = e, ws_url = u, hs_push = pu, hs_pull = pl\<rparr>
                 | _ \<Rightarrow> None)
            | _ \<Rightarrow> None)))"

definition do_handshake :: "(json option \<Rightarrow> string) \<Rightarrow> json option reply \<Rightarrow> client \<Rightarrow> string + handshake" where
  "do_handshake show r c =
     (case check_response c r show ''/api/v2/server/handshake'' of
        Some e \<Rightarrow> Inl e
      | None \<Rightarrow> (case decode_handshake (r_body r) of None \<Rightarrow> Inl ''decode handshake error'' | Some hs \<Rightarrow> Inr hs))"

definition report_node_status :: "('b \<Rightarrow> string) \<Rightarrow> 'b reply \<Rightarrow> client \<Rightarrow> string option" where
  "report_node_status show r c = check_response c r show ''/api/v1/server/UniProxy/status''"

section \<open>What a traffic report says\<close>

lemma map_of_traffic_body:
  "map_of (traffic_body rows) uid = map_of (rev (map (\<lambda>t. (UID t, (Upload t, Download t))) rows)) uid"
  unfolding traffic_body_def using gm.lookup_store_all [of "[]" UID "\<lambda>t. (Upload t, Download t)" rows uid]
  by (simp split: option.splits)

lemma traffic_body_distinct:
  "distinct (map UID rows) \<Longrightarrow> t \<in> set rows \<Longrightarrow> map_of (traffic_body rows) (UID t) = Some (Upload t, Download t)"
proof -
  assume d: "distinct (map UID rows)" and t: "t \<in> set rows"
  let ?ps = "map (\<lambda>t. (UID t, (Upload t, Download t))) rows"
  have "distinct (map fst (rev ?ps))" using d by (simp add: rev_map [symmetric] comp_def)
  moreover have "(UID t, (Upload t, Download t)) \<in> set (rev ?ps)" using t by auto
  ultimately show ?thesis
    by (simp only: map_of_traffic_body map_of_eq_Some_iff)
qed

lemma traffic_body_last:
  "map_of (traffic_body (rows @ [t])) (UID t) = Some (Upload t, Download t)"
  by (simp add: traffic_body_def)

end
