(* ===== verification/NodeUsers.thy ===== *)
theory NodeUsers
  imports GateRuns PanelUsers
begin

text \<open>
  \<^verbatim>\<open>node/user.go\<close>: the comparison of two user lists and the periodic report of traffic and
  online devices. The lemmas relate the incremental update of the limiter
  (\<^verbatim>\<open>compareUserList\<close> then \<^verbatim>\<open>UpdateUser\<close>) to building it afresh, and say what becomes of traffic
  whose report failed.
\<close>

section \<open>Comparing user lists\<close>

fun compare_new :: "user_info list \<Rightarrow> (string, user_info) gomap \<Rightarrow> user_info list \<Rightarrow> user_info list
    \<Rightarrow> user_info list \<times> user_info list \<times> (string, user_info) gomap" where
  "compare_new [] oldMap added modified = (added, modified, oldMap)"
| "compare_new (u # us) oldMap added modified =
     (case map_of oldMap (Uuid u) of
        None \<Rightarrow> compare_new us oldMap (added @ [u]) modified
      | Some oi \<Rightarrow> compare_new us (mdel (Uuid u) oldMap) added
          (if SpeedLimit oi \<noteq> SpeedLimit u \<or> DeviceLimit oi \<noteq> DeviceLimit u then modified @ [u] else modified))"

text \<open>Result: deleted, added, modified.\<close>

definition compare_user_list ::
    "user_info list \<Rightarrow> user_info list \<Rightarrow> user_info list \<times> user_info list \<times> user_info list" where
  "compare_user_list old new =
     (case compare_new new (fold (\<lambda>u. mput (Uuid u) u) old []) [] [] of
        (added, modified, oldMap) \<Rightarrow> (map snd oldMap, added, modified))"

section \<open>Reporting traffic and devices\<close>

record traffic_task =
  pending_traffic :: "user_traffic list option"

text \<open>The inputs of one round: the core's rows, whether the push failed, whether the WebSocket is
  up, the limiter's online devices, the traffic filter (in kB, 0 for none). The result: the
  body pushed (if any), the devices reported (if any), and the rows kept for the next round.\<close>

definition low_traffic :: "int \<Rightarrow> user_traffic list \<Rightarrow> (int, unit) gomap" where
  "low_traffic min_kb rows =
     (if min_kb > 0 then
        fold (\<lambda>t m. if wrap64 (Upload t + Download t) < wrap64 (min_kb * 1000) then mput (UID t) () m else m) rows []
      else [])"

definition group_online :: "online_user list \<Rightarrow> (int, string list) gomap" where
  "group_online us = fold (\<lambda>(uid, ip) m. mput uid (mget [] m uid @ [ip]) m) us []"

definition report_user_traffic_task ::
    "user_traffic list \<Rightarrow> bool \<Rightarrow> bool \<Rightarrow> online_user list \<Rightarrow> int \<Rightarrow> traffic_task \<Rightarrow>
     (int, int \<times> int) gomap option \<times> (int, string list) gomap option \<times> traffic_task" where
  "report_user_traffic_task rows push_failed ws_up online min_kb st =
     (let (userTraffic, st1) = (case pending_traffic st of
            Some p \<Rightarrow> (rows @ p, st\<lparr>pending_traffic := None\<rparr>) | None \<Rightarrow> (rows, st));
          (push, st2) = (if userTraffic \<noteq> [] then
              (Some (traffic_body userTraffic),
               if push_failed then st1\<lparr>pending_traffic := Some userTraffic\<rparr> else st1)
            else (None, st1));
          alive = (if \<not> ws_up \<and> online \<noteq> [] then
              Some (group_online (filter (\<lambda>(uid, ip). \<not> mhas (low_traffic min_kb userTraffic) uid) online))
            else None)
      in (push, alive, st2))"

section \<open>The comparison is a difference of sets\<close>

definition limits_differ :: "user_info \<Rightarrow> user_info \<Rightarrow> bool" where
  "limits_differ u v \<longleftrightarrow> SpeedLimit u \<noteq> SpeedLimit v \<or> DeviceLimit u \<noteq> DeviceLimit v"

lemma compare_new_spec:
  assumes "distinct (map Uuid us)" "wf_map m" "compare_new us m added modified = (a, b, m')"
  shows "a = added @ filter (\<lambda>u. map_of m (Uuid u) = None) us
    \<and> b = modified @ filter (\<lambda>u. \<exists>v. map_of m (Uuid u) = Some v \<and> limits_differ v u) us
    \<and> wf_map m' \<and> map_of m' = map_of m |` (- Uuid ` set us)"
  using assms
proof (induction us arbitrary: m added modified)
  case (Cons u us)
  show ?case
  proof (cases "map_of m (Uuid u)")
    case None
    then have "a = (added @ [u]) @ filter (\<lambda>u. map_of m (Uuid u) = None) us
        \<and> b = modified @ filter (\<lambda>u. \<exists>v. map_of m (Uuid u) = Some v \<and> limits_differ v u) us
        \<and> wf_map m' \<and> map_of m' = map_of m |` (- Uuid ` set us)"
      using Cons.prems by (intro Cons.IH) auto
    then show ?thesis
      using None by (auto simp: restrict_map_def fun_eq_iff)
  next
    case (Some v)
    let ?m = "mdel (Uuid u) m"
    let ?mod = "if limits_differ v u then modified @ [u] else modified"
    have "a = added @ filter (\<lambda>u. map_of ?m (Uuid u) = None) us
        \<and> b = ?mod @ filter (\<lambda>u. \<exists>v. map_of ?m (Uuid u) = Some v \<and> limits_differ v u) us
        \<and> wf_map m' \<and> map_of m' = map_of ?m |` (- Uuid ` set us)"
      using Cons.prems Some by (intro Cons.IH) (auto simp: limits_differ_def intro: wf_map_mdel)
    moreover have "Uuid w \<noteq> Uuid u" if "w \<in> set us" for w
      using that Cons.prems(1) by (auto simp: image_iff)
    then have "filter (\<lambda>w. map_of ?m (Uuid w) = None) us = filter (\<lambda>w. map_of m (Uuid w) = None) us"
      "filter (\<lambda>w. \<exists>v. map_of ?m (Uuid w) = Some v \<and> limits_differ v w) us
        = filter (\<lambda>w. \<exists>v. map_of m (Uuid w) = Some v \<and> limits_differ v w) us"
      by (auto intro!: filter_cong)
    ultimately show ?thesis
      using Some by (auto simp: restrict_map_def fun_eq_iff)
  qed
qed (auto simp: restrict_map_def)

definition user_table :: "user_info list \<Rightarrow> string \<Rightarrow> user_info option" where
  "user_table us = map_of (map (\<lambda>u. (Uuid u, u)) us)"

lemma user_table_Some: "distinct (map Uuid us) \<Longrightarrow> user_table us k = Some u \<longleftrightarrow> u \<in> set us \<and> Uuid u = k"
  by (auto simp: user_table_def map_of_eq_Some_iff comp_def)

lemma old_map: "distinct (map Uuid us) \<Longrightarrow>
    wf_map (fold (\<lambda>u. mput (Uuid u) u) us []) \<and> map_of (fold (\<lambda>u. mput (Uuid u) u) us []) = user_table us"
proof -
  assume d: "distinct (map Uuid us)"
  have "map_of (rev (map (\<lambda>u. (Uuid u, u)) us)) = user_table us"
    unfolding user_table_def using d by (subst map_of_inject_set) (simp_all add: rev_map [symmetric] comp_def)
  then show ?thesis
    using gm.lookup_store_all [of "[]" Uuid "\<lambda>u. u" us] gm.valid_store_all [of "[]" Uuid "\<lambda>u. u" us]
    by (auto simp: fun_eq_iff split: option.splits)
qed

lemma compare_spec:
  assumes "distinct (map Uuid old)" "distinct (map Uuid new)" "compare_user_list old new = (d, a, m)"
  shows "set d = {u \<in> set old. Uuid u \<notin> Uuid ` set new} \<and> distinct (map Uuid d)
    \<and> a = filter (\<lambda>u. Uuid u \<notin> Uuid ` set old) new
    \<and> m = filter (\<lambda>u. \<exists>v \<in> set old. Uuid v = Uuid u \<and> limits_differ v u) new"
proof -
  let ?o = "fold (\<lambda>u. mput (Uuid u) u) old []"
  note o = old_map [OF assms(1)]
  obtain om where om: "compare_new new ?o [] [] = (a, m, om)" "d = map snd om"
    using assms(3) by (auto simp: compare_user_list_def split: prod.splits)
  note sp = compare_new_spec [OF assms(2) conjunct1 [OF o] om(1)]
  have none: "user_table old k = None \<longleftrightarrow> k \<notin> Uuid ` set old" for k
    using user_table_Some [OF assms(1), of k] by (cases "user_table old k") force+
  have ent: "(k, u) \<in> set om \<longleftrightarrow> u \<in> set old \<and> Uuid u = k \<and> k \<notin> Uuid ` set new" for k u
    using sp o user_table_Some [OF assms(1), of k u] map_of_Some_iff [of om k u]
    by (auto simp: restrict_map_def split: if_splits)
  have "map Uuid d = map fst om"
    using ent by (simp add: om(2)) (metis prod.collapse)
  then have "distinct (map Uuid d)"
    using sp by (simp add: wf_map_def)
  moreover have "u \<in> set d \<longleftrightarrow> u \<in> set old \<and> Uuid u \<notin> Uuid ` set new" for u
  proof -
    have "u \<in> set d \<longleftrightarrow> (\<exists>k. (k, u) \<in> set om)" by (force simp: om(2))
    then show ?thesis unfolding ent by blast
  qed
  moreover have "(\<exists>v. user_table old (Uuid u) = Some v \<and> limits_differ v u)
      \<longleftrightarrow> (\<exists>v \<in> set old. Uuid v = Uuid u \<and> limits_differ v u)" for u
    using user_table_Some [OF assms(1)] by auto
  ultimately show ?thesis
    using sp o none by auto
qed


section \<open>Incremental update equals rebuilding\<close>

definition limits_for :: "string \<Rightarrow> user_info list \<Rightarrow> string \<Rightarrow> user_limit option" where
  "limits_for tag us = map_of (map (\<lambda>u. (user_tag tag (Uuid u), make_user_limit u)) us)"

lemma make_user_limit_simp: "make_user_limit u = \<lparr>ul_uid = Id u, ul_speed = SpeedLimit u, ul_device = DeviceLimit u\<rparr>"
  by (simp add: make_user_limit_def)

lemma limits_for_Some: "distinct (map Uuid us) \<Longrightarrow> u \<in> set us \<Longrightarrow>
    limits_for tag us (user_tag tag (Uuid u)) = Some (make_user_limit u)"
  unfolding limits_for_def by (rule map_of_is_SomeI) (auto simp: comp_def distinct_map inj_on_def)

lemma limits_for_None: "limits_for tag us k = None \<longleftrightarrow> k \<notin> user_tag tag ` Uuid ` set us"
  by (simp add: limits_for_def map_of_eq_None_iff image_image)

lemma new_limiter_table:
  "distinct (map Uuid us) \<Longrightarrow> map_of (user_limit_info (new_limiter tag speed us alive)) = limits_for tag us"
proof -
  assume d: "distinct (map Uuid us)"
  have "map_of (rev (map (\<lambda>u. (user_tag tag (Uuid u), make_user_limit u)) us)) = limits_for tag us"
    unfolding limits_for_def using d
    by (subst map_of_inject_set) (auto simp: rev_map [symmetric] comp_def distinct_map inj_on_def)
  then show ?thesis
    using gm.lookup_store_all [of "[]" "\<lambda>u. user_tag tag (Uuid u)" make_user_limit us]
    by (auto simp: new_limiter_def fun_eq_iff split: option.splits)
qed

lemma dropped_table:
  "map_of (user_limit_info (fold (drop_user tag) d l)) k =
     (if k \<in> user_tag tag ` Uuid ` set d then None else map_of (user_limit_info l) k)"
  by (induction d arbitrary: l) (auto simp: drop_user_fields)

lemma modified_table:
  "distinct (map Uuid m) \<Longrightarrow>
   map_of (user_limit_info (fold (modify_user tag) m l)) k =
     (case map_of (map (\<lambda>u. (user_tag tag (Uuid u), u)) m) k of
        None \<Rightarrow> map_of (user_limit_info l) k
      | Some u \<Rightarrow> map_option (\<lambda>v. v\<lparr>ul_speed := SpeedLimit u, ul_device := DeviceLimit u\<rparr>)
                   (map_of (user_limit_info l) k))"
proof (induction m arbitrary: l)
  case (Cons u m)
  have one: "map_of (user_limit_info (modify_user tag u l)) k =
      (if k = user_tag tag (Uuid u)
       then map_option (\<lambda>v. v\<lparr>ul_speed := SpeedLimit u, ul_device := DeviceLimit u\<rparr>) (map_of (user_limit_info l) k)
       else map_of (user_limit_info l) k)" for k
    by (auto simp: modify_user_def Let_def split: option.splits)
  have "map_of (map (\<lambda>u. (user_tag tag (Uuid u), u)) m) (user_tag tag (Uuid u)) = None"
    using Cons.prems by (auto simp: map_of_eq_None_iff)
  then show ?case
    using Cons by (auto simp: one split: option.splits)
qed simp

lemma inserted_table:
  "distinct (map Uuid a) \<Longrightarrow>
   map_of (user_limit_info (fold (insert_user tag) a l)) k =
     (case limits_for tag a k of None \<Rightarrow> map_of (user_limit_info l) k | Some v \<Rightarrow> Some v)"
proof (induction a arbitrary: l)
  case (Cons u a)
  have "limits_for tag a (user_tag tag (Uuid u)) = None"
    using Cons.prems by (auto simp: limits_for_None)
  moreover have "limits_for tag (u # a) k = (if k = user_tag tag (Uuid u) then Some (make_user_limit u) else limits_for tag a k)"
    by (simp add: limits_for_def)
  ultimately show ?case
    using Cons by (auto simp: insert_user_def split: option.splits)
qed (simp add: limits_for_def)

lemma updated_table:
  assumes "distinct (map Uuid old)" "distinct (map Uuid new)" "compare_user_list old new = (d, a, m)"
    and "map_of (user_limit_info l) = limits_for tag old"
    and ids: "\<And>u v. u \<in> set old \<Longrightarrow> v \<in> set new \<Longrightarrow> Uuid u = Uuid v \<Longrightarrow> Id u = Id v"
  shows "map_of (user_limit_info (update_user tag a d m l)) k = limits_for tag new k"
proof -
  note sp = compare_spec [OF assms(1-3)]
  have dm: "distinct (map Uuid m)" and da: "distinct (map Uuid a)"
    using sp assms(2) by (auto simp: distinct_map_filter)
  let ?M = "map_of (map (\<lambda>u. (user_tag tag (Uuid u), u)) m)"
  have tab: "map_of (user_limit_info (update_user tag a d m l)) k =
      (case limits_for tag a k of Some v \<Rightarrow> Some v | None \<Rightarrow>
        (let b = (if k \<in> user_tag tag ` Uuid ` set d then None else limits_for tag old k) in
           case ?M k of None \<Rightarrow> b
           | Some u \<Rightarrow> map_option (\<lambda>v. v\<lparr>ul_speed := SpeedLimit u, ul_device := DeviceLimit u\<rparr>) b))"
    by (simp add: update_user_def inserted_table [OF da] modified_table [OF dm] dropped_table assms(4) split: option.splits)
  show ?thesis
  proof (cases "k \<in> user_tag tag ` Uuid ` set new")
    case False
    then have "limits_for tag a k = None" "?M k = None"
      using sp by (auto simp: limits_for_None map_of_eq_None_iff)
    moreover have "k \<in> user_tag tag ` Uuid ` set d" if old: "limits_for tag old k \<noteq> None"
    proof -
      obtain w where w: "w \<in> set old" "k = user_tag tag (Uuid w)"
        using old by (auto simp: limits_for_None)
      with False have "Uuid w \<notin> Uuid ` set new" by blast
      with w sp have "w \<in> set d" by simp
      with w show ?thesis by blast
    qed
    moreover have "limits_for tag new k = None" using False by (simp add: limits_for_None)
    ultimately show ?thesis by (cases "limits_for tag old k") (auto simp: tab)
  next
    case True
    then obtain u where u: "u \<in> set new" "k = user_tag tag (Uuid u)" by auto
    note new = limits_for_Some [OF assms(2) u(1), of tag]
    show ?thesis
    proof (cases "Uuid u \<in> Uuid ` set old")
      case False
      then have "u \<in> set a" using sp u by simp
      then show ?thesis unfolding tab using limits_for_Some [OF da, of u tag] new by (simp add: u(2))
    next
      case True
      then obtain v where v: "v \<in> set old" "Uuid v = Uuid u" by force
      have na: "limits_for tag a k = None" using True sp u(2) by (auto simp: limits_for_None image_iff)
      have nd: "k \<notin> user_tag tag ` Uuid ` set d"
      proof
        assume "k \<in> user_tag tag ` Uuid ` set d"
        then obtain w where "w \<in> set d" "Uuid w = Uuid u" using u(2) by auto
        then show False using sp u(1) by force
      qed
      have lo: "limits_for tag old k = Some (make_user_limit v)"
        using limits_for_Some [OF assms(1) v(1), of tag] by (simp add: v(2) u(2))
      have id: "Id v = Id u" using ids [OF v(1) u(1) v(2)] .
      have same: "v' = v" if "v' \<in> set old" "Uuid v' = Uuid u" for v'
        using that v assms(1) by (metis distinct_map inj_onD)
      have same_new: "w = u" if "w \<in> set new" "Uuid w = Uuid u" for w
        using that u assms(2) by (metis distinct_map inj_onD)
      show ?thesis
      proof (cases "limits_differ v u")
        case True
        then have "u \<in> set m" using sp u(1) v by auto
        then have "?M k = Some u"
          unfolding u(2) using dm by (intro map_of_is_SomeI) (auto simp: comp_def distinct_map inj_on_def)
        then show ?thesis
          unfolding tab using na nd lo new id by (simp add: make_user_limit_simp u(2))
      next
        case False
        have "?M k = None"
          using sp same same_new False u(2) by (auto simp: map_of_eq_None_iff)
        then show ?thesis
          unfolding tab using na nd lo new id False by (simp add: make_user_limit_simp u(2) limits_differ_def)
      qed
    qed
  qed
qed


definition old_users :: "user_info list" where
  "old_users = [\<lparr>Id = 1, Uuid = ''a'', SpeedLimit = 0, DeviceLimit = 2\<rparr>, \<lparr>Id = 2, Uuid = ''b'', SpeedLimit = 0, DeviceLimit = 1\<rparr>]"

definition new_users :: "user_info list" where
  "new_users = [\<lparr>Id = 1, Uuid = ''a'', SpeedLimit = 50, DeviceLimit = 2\<rparr>, \<lparr>Id = 3, Uuid = ''c'', SpeedLimit = 0, DeviceLimit = 0\<rparr>]"



section \<open>Traffic whose report failed\<close>

text \<open>Rows over several rounds: what the core handed over, and whether the push failed.\<close>

fun traffic_rounds :: "(user_traffic list \<times> bool) list \<Rightarrow> traffic_task \<Rightarrow> (int, int \<times> int) gomap list" where
  "traffic_rounds [] st = []"
| "traffic_rounds ((rows, failed) # rest) st =
     (case report_user_traffic_task rows failed True [] 0 st of
        (push, alive, st') \<Rightarrow>
          (case push of Some b \<Rightarrow> (if failed then [] else [b]) | None \<Rightarrow> []) @ traffic_rounds rest st')"

text \<open>Upload bytes the panel has been told for a user.\<close>

definition told_up :: "int \<Rightarrow> (int, int \<times> int) gomap list \<Rightarrow> int" where
  "told_up uid bodies = (\<Sum>b\<leftarrow>bodies. fst (mget (0, 0) b uid))"

text \<open>Traffic kept for a retry replaces the user's newer traffic instead of being added to it.
  If a push fails and the user has traffic again in the next round, the pushed map, keyed by
  user id, holds only the old row: after the successful retry the panel has been told the
  old bytes and never the new ones, and nothing is kept for later. Without traffic of that
  user in the retry round, or without a failure, everything arrives.\<close>

theorem retried_traffic_replaces_new:
  "up1 \<noteq> up2 \<Longrightarrow> 0 < up1 \<Longrightarrow> 0 < up2 \<Longrightarrow>
     told_up uid (traffic_rounds
       [([\<lparr>UID = uid, Upload = up1, Download = d1\<rparr>], True), ([\<lparr>UID = uid, Upload = up2, Download = d2\<rparr>], False), ([], False)]
       \<lparr>pending_traffic = None\<rparr>) = up1 \<and>
     told_up uid (traffic_rounds
       [([\<lparr>UID = uid, Upload = up1, Download = d1\<rparr>], True), ([], False), ([\<lparr>UID = uid, Upload = up2, Download = d2\<rparr>], False)]
       \<lparr>pending_traffic = None\<rparr>) = up1 + up2 \<and>
     told_up uid (traffic_rounds
       [([\<lparr>UID = uid, Upload = up1, Download = d1\<rparr>], False), ([\<lparr>UID = uid, Upload = up2, Download = d2\<rparr>], False), ([], False)]
       \<lparr>pending_traffic = None\<rparr>) = up1 + up2"
  by (simp add: report_user_traffic_task_def told_up_def traffic_body_def Let_def)

theorem retried_traffic_replaces_new_witness:
  "told_up 7 (traffic_rounds
     [([\<lparr>UID = 7, Upload = 100, Download = 0\<rparr>], True), ([\<lparr>UID = 7, Upload = 5000, Download = 0\<rparr>], False), ([], False)]
     \<lparr>pending_traffic = None\<rparr>) = 100"
  using retried_traffic_replaces_new [of 100 5000 7 0 0] by simp

text \<open>A report of rows with distinct user ids is complete and its outcome is as documented: the
  body has each row under its user id, after a success nothing is kept, and after a failure
  every row is kept for the next round, which sends it again.\<close>

theorem traffic_report_complete:
  "distinct (map UID rows) \<Longrightarrow> rows \<noteq> [] \<Longrightarrow>
     report_user_traffic_task rows failed ws online kb \<lparr>pending_traffic = None\<rparr> = (push, alive, st) \<Longrightarrow>
     push = Some (traffic_body rows) \<and>
     (\<forall>t \<in> set rows. map_of (traffic_body rows) (UID t) = Some (Upload t, Download t)) \<and>
     pending_traffic st = (if failed then Some rows else None) \<and>
     (failed \<longrightarrow> fst (report_user_traffic_task [] failed' ws' online' kb' st) = Some (traffic_body rows))"
  by (auto simp: report_user_traffic_task_def Let_def traffic_body_distinct)

theorem traffic_report_complete_witness:
  "fst (report_user_traffic_task [\<lparr>UID = 7, Upload = 100, Download = 1\<rparr>] True True [] 0 \<lparr>pending_traffic = None\<rparr>)
     = Some [(7, (100, 1))]"
  using traffic_report_complete [of "[\<lparr>UID = 7, Upload = 100, Download = 1\<rparr>]" True True "[]" 0 _ _ _ False True "[]" 0]
  by (cases "report_user_traffic_task [\<lparr>UID = 7, Upload = 100, Download = 1\<rparr>] True True [] 0 \<lparr>pending_traffic = None\<rparr>")
    (auto simp: traffic_body_def mput_def)

end
