(* ===== verification/Links.thy ===== *)
theory Links
  imports Users
begin

text \<open>
  The connection tables of the dispatcher, \<^verbatim>\<open>core/xray/app/dispatcher/linkmanager.go\<close> and
  \<^verbatim>\<open>KickByUserIP\<close> of \<^verbatim>\<open>default.go\<close>. Writers, readers and managers are shared by pointer, so the
  state is a store: an address is an index into the list of objects of its kind. A
  \<^verbatim>\<open>ManagedWriter\<close> keeps the address of its manager even after the dispatcher has dropped
  that manager from \<^verbatim>\<open>LinkManagers\<close>. Closing a transport writer and interrupting a reader are
  Xray's operations; they are recorded as flags.
\<close>

section \<open>State\<close>

record managed_writer =
  mw_manager :: nat
  mw_ip :: string
  mw_closed :: bool \<comment> \<open>the wrapped writer has been closed\<close>

record link_store =
  writers :: "managed_writer list"
  interrupted :: "bool list" \<comment> \<open>per reader\<close>
  managers :: "(nat, nat) gomap list" \<comment> \<open>per \<^verbatim>\<open>LinkManager\<close>: writer to reader\<close>
  link_managers :: "(string, nat) gomap" \<comment> \<open>by the user's email (tag)\<close>

definition no_links :: link_store where
  "no_links = \<lparr>writers = [], interrupted = [], managers = [], link_managers = []\<rparr>"

section \<open>Operations\<close>

definition add_link :: "nat \<Rightarrow> nat \<Rightarrow> nat \<Rightarrow> link_store \<Rightarrow> link_store" where
  "add_link m w r s = s\<lparr>managers := (managers s)[m := mput w r (managers s ! m)]\<rparr>"

definition remove_writer :: "nat \<Rightarrow> nat \<Rightarrow> link_store \<Rightarrow> link_store" where
  "remove_writer m w s = s\<lparr>managers := (managers s)[m := mdel w (managers s ! m)]\<rparr>"

text \<open>\<^verbatim>\<open>ManagedWriter.Close\<close>: out of its manager first, then the wrapped writer.\<close>

definition close_writer :: "nat \<Rightarrow> link_store \<Rightarrow> link_store" where
  "close_writer w s =
     (let s1 = remove_writer (mw_manager (writers s ! w)) w s in
        s1\<lparr>writers := (writers s1)[w := (writers s1 ! w)\<lparr>mw_closed := True\<rparr>]\<rparr>)"

definition interrupt_reader :: "nat \<Rightarrow> link_store \<Rightarrow> link_store" where
  "interrupt_reader r s = s\<lparr>interrupted := (interrupted s)[r := True]\<rparr>"

text \<open>The snapshot is closed outside the lock, one link after the other.\<close>

definition close_links :: "(nat \<times> nat) list \<Rightarrow> link_store \<Rightarrow> link_store" where
  "close_links ls s = fold (\<lambda>(w, r) s. interrupt_reader r (close_writer w s)) ls s"

definition close_all :: "nat \<Rightarrow> link_store \<Rightarrow> link_store" where
  "close_all m s = close_links (managers s ! m) s"

definition close_by_ip :: "nat \<Rightarrow> string \<Rightarrow> link_store \<Rightarrow> nat \<times> link_store" where
  "close_by_ip m ip s =
     (if ip = '''' then (0, s)
      else let matched = filter (\<lambda>(w, r). mw_ip (writers s ! w) = ip) (managers s ! m)
        in (length matched, close_links matched s))"

definition kick_by_user_ip :: "string \<Rightarrow> string \<Rightarrow> link_store \<Rightarrow> link_store" where
  "kick_by_user_ip email ip s =
     (if ip = '''' then s
      else case map_of (link_managers s) email of
             None \<Rightarrow> s
           | Some m \<Rightarrow> snd (close_by_ip m ip s))"

text \<open>\<^verbatim>\<open>getLink\<close> and \<^verbatim>\<open>DispatchLink\<close> attach a connection in two steps: \<^verbatim>\<open>LoadOrStore\<close> of the user's
  manager, then \<^verbatim>\<open>AddLink\<close> of a new writer (with the reader of its link).\<close>

definition load_manager :: "string \<Rightarrow> link_store \<Rightarrow> nat \<times> link_store" where
  "load_manager email s =
     (case map_of (link_managers s) email of
        Some m \<Rightarrow> (m, s)
      | None \<Rightarrow> (length (managers s),
          s\<lparr>managers := managers s @ [[]], link_managers := mput email (length (managers s)) (link_managers s)\<rparr>))"

definition attach_link :: "nat \<Rightarrow> string \<Rightarrow> link_store \<Rightarrow> nat \<times> link_store" where
  "attach_link m ip s =
     (let w = length (writers s); r = length (interrupted s);
          s1 = s\<lparr>writers := writers s @ [\<lparr>mw_manager = m, mw_ip = ip, mw_closed = False\<rparr>],
                 interrupted := interrupted s @ [False]\<rparr>
      in (w, add_link m w r s1))"

definition open_link :: "string \<Rightarrow> string \<Rightarrow> link_store \<Rightarrow> nat \<times> link_store" where
  "open_link email ip s = (case load_manager email s of (m, s1) \<Rightarrow> attach_link m ip s1)"

section \<open>Well-formed stores\<close>

text \<open>Addresses are valid, no two users share a manager, a table maps its own writers, and a
  writer in a table is open.\<close>

definition links_ok :: "link_store \<Rightarrow> bool" where
  "links_ok s \<longleftrightarrow> wf_map (link_managers s)
     \<and> (\<forall>email m. map_of (link_managers s) email = Some m \<longrightarrow> m < length (managers s))
     \<and> (\<forall>e e' m. map_of (link_managers s) e = Some m \<longrightarrow> map_of (link_managers s) e' = Some m \<longrightarrow> e = e')
     \<and> (\<forall>m < length (managers s). wf_map (managers s ! m)
          \<and> (\<forall>w r. map_of (managers s ! m) w = Some r \<longrightarrow> w < length (writers s)
               \<and> r < length (interrupted s) \<and> mw_manager (writers s ! w) = m \<and> \<not> mw_closed (writers s ! w)))"

lemma links_okD:
  assumes "links_ok s" "m < length (managers s)"
  shows "wf_map (managers s ! m)"
    and "map_of (managers s ! m) w = Some r \<Longrightarrow> w < length (writers s) \<and> r < length (interrupted s)
      \<and> mw_manager (writers s ! w) = m \<and> \<not> mw_closed (writers s ! w)"
  using assms unfolding links_ok_def by blast+

lemma links_ok_empty: "links_ok no_links"
  by (simp add: links_ok_def no_links_def)

lemma links_ok_load: "links_ok s \<Longrightarrow> load_manager email s = (m, t) \<Longrightarrow> links_ok t \<and> m < length (managers t)"
  by (auto simp: links_ok_def load_manager_def nth_append less_Suc_eq intro!: wf_intros
      split: option.splits if_splits) blast+

lemma links_ok_attach:
  assumes "links_ok s" "m < length (managers s)" "attach_link m ip s = (w, t)"
  shows "links_ok t"
  using assms
  by (auto simp: links_ok_def attach_link_def add_link_def Let_def nth_append nth_list_update less_Suc_eq
      intro!: wf_intros split: if_splits)

lemma links_ok_open: "links_ok s \<Longrightarrow> open_link email ip s = (w, t) \<Longrightarrow> links_ok t"
  by (auto simp: open_link_def intro: links_ok_attach dest: links_ok_load split: prod.splits)


section \<open>Closing links\<close>

definition closes :: "nat \<Rightarrow> (nat \<times> nat) list \<Rightarrow> link_store \<Rightarrow> link_store \<Rightarrow> bool" where
  "closes m ls s t \<longleftrightarrow>
     length (writers t) = length (writers s) \<and> length (interrupted t) = length (interrupted s) \<and>
     length (managers t) = length (managers s) \<and> link_managers t = link_managers s \<and>
     (\<forall>w < length (writers s). writers t ! w =
        (if w \<in> fst ` set ls then (writers s ! w)\<lparr>mw_closed := True\<rparr> else writers s ! w)) \<and>
     (\<forall>r < length (interrupted s). interrupted t ! r \<longleftrightarrow> r \<in> snd ` set ls \<or> interrupted s ! r) \<and>
     (\<forall>i < length (managers s). wf_map (managers s ! i) \<longrightarrow> wf_map (managers t ! i)) \<and>
     (\<forall>i < length (managers s). i \<noteq> m \<longrightarrow> managers t ! i = managers s ! i) \<and>
     (\<forall>w. map_of (managers t ! m) w = (if w \<in> fst ` set ls then None else map_of (managers s ! m) w))"

lemma close_links_closes:
  assumes "m < length (managers s)"
    and "\<forall>(w, r) \<in> set ls. w < length (writers s) \<and> r < length (interrupted s) \<and> mw_manager (writers s ! w) = m"
  shows "closes m ls s (close_links ls s)"
  using assms
proof (induction ls arbitrary: s)
  case Nil
  then show ?case by (simp add: closes_def close_links_def)
next
  case (Cons p ls)
  obtain w r where p: "p = (w, r)" by (cases p)
  define t where "t = interrupt_reader r (close_writer w s)"
  have t: "managers t = (managers s)[m := mdel w (managers s ! m)]" "link_managers t = link_managers s"
    "writers t = (writers s)[w := (writers s ! w)\<lparr>mw_closed := True\<rparr>]" "interrupted t = (interrupted s)[r := True]"
    using Cons.prems by (auto simp: t_def p interrupt_reader_def close_writer_def remove_writer_def Let_def)
  have w: "w < length (writers s)" "r < length (interrupted s)" "m < length (managers s)"
    using Cons.prems by (simp_all add: p)
  have len: "length (writers t) = length (writers s)" "length (interrupted t) = length (interrupted s)"
    "length (managers t) = length (managers s)"
    by (simp_all add: t)
  have "mw_manager (writers t ! x) = mw_manager (writers s ! x)" for x
    using w by (cases "x = w") (simp_all add: t)
  then have "closes m ls t (close_links ls t)"
    using Cons.IH [of t] Cons.prems by (simp add: len)
  moreover have "close_links (p # ls) s = close_links ls t"
    by (simp only: close_links_def p t_def fold_simps comp_apply prod.case)
  ultimately have c: "closes m ls t (close_links (p # ls) s)" by simp
  have wr: "writers t ! x = (if x = w then (writers s ! w)\<lparr>mw_closed := True\<rparr> else writers s ! x)" for x
    using w by (simp add: t)
  have rd: "interrupted t ! x \<longleftrightarrow> x = r \<or> interrupted s ! x" if "x < length (interrupted s)" for x
    using w that by (simp add: t nth_list_update)
  have wf: "wf_map (managers s ! i) \<Longrightarrow> wf_map (managers t ! i)" for i
    using w by (cases "i = m") (simp_all add: t wf_map_mdel)
  have mp: "map_of (managers t ! m) x = (if x = w then None else map_of (managers s ! m) x)" for x
    using w by (simp add: t)
  have other: "i \<noteq> m \<Longrightarrow> managers t ! i = managers s ! i" for i
    by (simp add: t)
  show ?case
    unfolding closes_def
  proof (intro conjI allI impI)
    fix x
    show "x < length (writers s) \<Longrightarrow> writers (close_links (p # ls) s) ! x =
        (if x \<in> fst ` set (p # ls) then (writers s ! x)\<lparr>mw_closed := True\<rparr> else writers s ! x)"
      using c by (simp add: closes_def len wr p)
    show "x < length (interrupted s) \<Longrightarrow>
        interrupted (close_links (p # ls) s) ! x = (x \<in> snd ` set (p # ls) \<or> interrupted s ! x)"
      using c by (auto simp: closes_def len rd p)
    show "map_of (managers (close_links (p # ls) s) ! m) x =
        (if x \<in> fst ` set (p # ls) then None else map_of (managers s ! m) x)"
      using c by (simp add: closes_def mp p)
  qed (use c wf other in \<open>simp_all add: closes_def len t(2)\<close>)
qed

lemma closes_ok:
  assumes ok: "links_ok s" and m: "m < length (managers s)"
    and ls: "set ls \<subseteq> set (managers s ! m)" and c: "closes m ls s t"
  shows "links_ok t"
proof -
  have old: "wf_map (managers s ! i)"
    "map_of (managers s ! i) w = Some r \<Longrightarrow> w < length (writers s) \<and> r < length (interrupted s)
        \<and> mw_manager (writers s ! w) = i \<and> \<not> mw_closed (writers s ! w)"
    if "i < length (managers s)" for i w r
    using links_okD [OF ok that] by blast+
  have mgr: "mw_manager (writers s ! w) = m" if "w \<in> fst ` set ls" for w
  proof -
    from that ls obtain r where "(w, r) \<in> set (managers s ! m)" by auto
    then have "map_of (managers s ! m) w = Some r" using old(1) [OF m] by (simp add: map_of_Some_iff)
    then show ?thesis using old(2) [OF m] by blast
  qed
  have new: "map_of (managers s ! i) w = Some r \<and> w \<notin> fst ` set ls"
    if "i < length (managers s)" "map_of (managers t ! i) w = Some r" for i w r
  proof (cases "i = m")
    case True
    then show ?thesis using that c by (auto simp: closes_def split: if_splits)
  next
    case False
    then have "map_of (managers s ! i) w = Some r" using that c by (simp add: closes_def)
    then show ?thesis using old(2) [OF that(1)] mgr False by blast
  qed
  show ?thesis
    unfolding links_ok_def
  proof (intro conjI allI impI)
    show "wf_map (link_managers t)" "map_of (link_managers t) e = Some i \<Longrightarrow> i < length (managers t)" for e i
      using ok c by (auto simp: closes_def links_ok_def)
    show "map_of (link_managers t) e = Some i \<Longrightarrow> map_of (link_managers t) e' = Some i \<Longrightarrow> e = e'" for e e' i
      using ok c unfolding closes_def links_ok_def by metis
  next
    fix i assume "i < length (managers t)"
    then have i: "i < length (managers s)" using c by (simp add: closes_def)
    show "wf_map (managers t ! i)" using c i old(1) by (simp add: closes_def)
    fix w r assume "map_of (managers t ! i) w = Some r"
    from new [OF i this] have w: "map_of (managers s ! i) w = Some r" "w \<notin> fst ` set ls" by blast+
    note o = old(2) [OF i w(1)]
    then have "writers t ! w = writers s ! w" using c w(2) by (simp add: closes_def)
    with o c show "w < length (writers t)" "r < length (interrupted t)" "mw_manager (writers t ! w) = i"
      "\<not> mw_closed (writers t ! w)"
      by (simp_all add: closes_def)
  qed
qed

lemma entries_close:
  assumes ok: "links_ok s" and m: "m < length (managers s)" and ls: "set ls \<subseteq> set (managers s ! m)"
  shows "closes m ls s (close_links ls s)" "links_ok (close_links ls s)"
proof -
  have "\<forall>(w, r) \<in> set ls. w < length (writers s) \<and> r < length (interrupted s) \<and> mw_manager (writers s ! w) = m"
  proof (clarify)
    fix w r assume "(w, r) \<in> set ls"
    then have "map_of (managers s ! m) w = Some r"
      using ls links_okD(1) [OF ok m] by (auto simp: map_of_Some_iff)
    then show "w < length (writers s) \<and> r < length (interrupted s) \<and> mw_manager (writers s ! w) = m"
      using links_okD(2) [OF ok m] by blast
  qed
  then show c: "closes m ls s (close_links ls s)"
    by (rule close_links_closes [OF m])
  show "links_ok (close_links ls s)"
    by (rule closes_ok [OF ok m ls c])
qed

lemma links_ok_close_all: "links_ok s \<Longrightarrow> m < length (managers s) \<Longrightarrow> links_ok (close_all m s)"
  unfolding close_all_def by (rule entries_close) auto

lemma links_ok_kick: "links_ok s \<Longrightarrow> links_ok (kick_by_user_ip email ip s)"
  by (auto simp: kick_by_user_ip_def close_by_ip_def Let_def links_ok_def [of s]
      intro!: entries_close(2) split: option.splits)

text \<open>The links of a user from an address: writer and reader.\<close>

definition links_of :: "string \<Rightarrow> link_store \<Rightarrow> (nat \<times> nat) set" where
  "links_of email s = (case map_of (link_managers s) email of None \<Rightarrow> {} | Some m \<Rightarrow> set (managers s ! m))"

definition links_from :: "string \<Rightarrow> string \<Rightarrow> link_store \<Rightarrow> (nat \<times> nat) set" where
  "links_from email ip s = {(w, r) \<in> links_of email s. mw_ip (writers s ! w) = ip}"

lemma wf_map_removed:
  assumes wf: "wf_map m" "wf_map m'" and look: "\<And>k. map_of m' k = (if k \<in> fst ` L then None else map_of m k)"
    and sub: "L \<subseteq> set m"
  shows "set m' = set m - L"
proof (intro set_eqI)
  fix p :: "'a \<times> 'b"
  obtain k v where p: "p = (k, v)" by (cases p)
  have "k \<notin> fst ` L \<longleftrightarrow> p \<notin> L" if "p \<in> set m"
    using that sub wf(1) by (auto simp: p wf_map_def dest: eq_key_imp_eq_value subsetD intro: rev_image_eqI)
  then show "p \<in> set m' \<longleftrightarrow> p \<in> set m - L"
    using look [of k] by (auto simp: p map_of_Some_iff [OF wf(1), symmetric] map_of_Some_iff [OF wf(2), symmetric])
qed

text \<open>C21. Kicking a user's address closes exactly the links of that user from that address, both
  directions: their writers are closed, their readers interrupted and their entries removed
  from the user's table (although \<^verbatim>\<open>Close\<close> edits the table that the loop has just read), and
  every other link, of the same user or of another, is left as it was.\<close>

theorem kick_closes_exactly:
  "links_ok s \<Longrightarrow> ip \<noteq> '''' \<Longrightarrow> t = kick_by_user_ip email ip s \<Longrightarrow>
     links_ok t \<and> links_of email t = links_of email s - links_from email ip s \<and>
     (\<forall>w < length (writers s). mw_closed (writers t ! w) \<longleftrightarrow>
        w \<in> fst ` links_from email ip s \<or> mw_closed (writers s ! w)) \<and>
     (\<forall>r < length (interrupted s). interrupted t ! r \<longleftrightarrow>
        r \<in> snd ` links_from email ip s \<or> interrupted s ! r)"
proof (cases "map_of (link_managers s) email")
  case None
  assume "links_ok s" "ip \<noteq> ''''" "t = kick_by_user_ip email ip s"
  with None show ?thesis by (simp add: kick_by_user_ip_def links_from_def links_of_def)
next
  case (Some m)
  assume ok: "links_ok s" and ip: "ip \<noteq> ''''" and t: "t = kick_by_user_ip email ip s"
  let ?ls = "filter (\<lambda>(w, r). mw_ip (writers s ! w) = ip) (managers s ! m)"
  have m: "m < length (managers s)" using ok Some by (simp add: links_ok_def)
  have t: "t = close_links ?ls s"
    using t ip Some by (simp add: kick_by_user_ip_def close_by_ip_def Let_def)
  have c: "closes m ?ls s t" and ok': "links_ok t"
    unfolding t by (rule entries_close [OF ok m]; auto)+
  have lf: "links_from email ip s = set ?ls" "links_of email s = set (managers s ! m)"
    using Some by (auto simp: links_from_def links_of_def)
  have lm: "map_of (link_managers t) email = Some m" using c Some by (simp add: closes_def)
  have wf: "wf_map (managers s ! m)" "wf_map (managers t ! m)"
    using links_okD(1) [OF ok m] links_okD(1) [OF ok', of m] c m by (auto simp: closes_def)
  have "set (managers t ! m) = set (managers s ! m) - set ?ls"
    by (rule wf_map_removed [OF wf]) (use c in \<open>auto simp: closes_def\<close>)
  moreover have "links_of email t = set (managers t ! m)"
    using lm by (simp add: links_of_def)
  ultimately have "links_of email t = links_of email s - links_from email ip s"
    by (simp only: lf)
  then show ?thesis
    using c ok' unfolding lf(1) by (auto simp: closes_def)
qed

definition demo_links :: link_store where
  "demo_links = snd (open_link ''b'' ''1.1.1.1'' (snd (open_link ''a'' ''2.2.2.2'' (snd (open_link ''a'' ''1.1.1.1'' no_links)))))"

theorem kick_closes_exactly_witness:
  "links_of ''a'' (kick_by_user_ip ''a'' ''1.1.1.1'' demo_links) = {(1, 1)}"
proof -
  have "links_ok (snd (open_link e ip s))" if "links_ok s" for e ip s
    using that by (auto intro: links_ok_open [OF _ prod.collapse [symmetric]])
  then have ok: "links_ok demo_links"
    by (simp add: demo_links_def links_ok_empty)
  have "link_managers demo_links = [(''a'', 0), (''b'', 1)]" "managers demo_links ! 0 = [(0, 0), (1, 1)]"
    "mw_ip (writers demo_links ! 0) = ''1.1.1.1''" "mw_ip (writers demo_links ! 1) = ''2.2.2.2''"
    by code_simp+
  then show ?thesis
    using kick_closes_exactly [OF ok, of "''1.1.1.1''" _ "''a''"] by (auto simp: links_from_def links_of_def)
qed

end
