(* ===== verification/Streams.thy ===== *)
theory Streams
  imports Prelude
begin

text \<open>
  The wrappers around a connection's byte streams: the rate-limited reader and writer of
  \<^verbatim>\<open>common/rate\<close>, the counting reader \<^verbatim>\<open>core/xray/app/dispatcher/countreader.go\<close> and the counter
  adapter \<^verbatim>\<open>common/counter/xraytraffic.go\<close>. The wrapped reader and writer belong to Xray: they
  are the parameters \<open>rd\<close> and \<open>wr\<close> on a state of any type, and a read yields data and an
  error side by side, as in Go. The token bucket is third-party: of \<^verbatim>\<open>Wait\<close> the model keeps the
  numbers of tokens asked for, in order. With a timeout or without, the wrappers do the
  same; the timeout is part of \<open>rd\<close>.
\<close>

type_synonym bytes = "nat list"
type_synonym ('r, 'e) source = "'r \<Rightarrow> bytes \<times> 'e option \<times> 'r"
type_synonym ('w, 'e) sink = "bytes \<Rightarrow> 'w \<Rightarrow> 'e option \<times> 'w"

section \<open>\<^verbatim>\<open>common/rate\<close>\<close>

record 'r rate_stream =
  inner :: 'r
  waits :: "int list" \<comment> \<open>arguments of \<^verbatim>\<open>limiter.Wait\<close>, in order\<close>

definition rate_read :: "('r, 'e) source \<Rightarrow> ('r rate_stream, 'e) source" where
  "rate_read rd s =
     (case rd (inner s) of (mb, err, r') \<Rightarrow>
        (case err of
           Some e \<Rightarrow> ([], Some e, s\<lparr>inner := r'\<rparr>)
         | None \<Rightarrow> (mb, None, s\<lparr>inner := r',
             waits := (if mb \<noteq> [] then waits s @ [int (length mb)] else waits s)\<rparr>)))"

definition rate_write :: "('w, 'e) sink \<Rightarrow> ('w rate_stream, 'e) sink" where
  "rate_write wr mb s =
     (let s1 = s\<lparr>waits := waits s @ [int (length mb)]\<rparr> in
        case wr mb (inner s1) of (err, w') \<Rightarrow> (err, s1\<lparr>inner := w'\<rparr>))"

section \<open>Counters\<close>

text \<open>\<^verbatim>\<open>atomic.Int64\<close>: 64 bits, addition wraps.\<close>

definition counter_value :: "int \<Rightarrow> int" where
  "counter_value v = v"

definition counter_set :: "int \<Rightarrow> int \<Rightarrow> int \<times> int" where
  "counter_set new v = (v, new)" \<comment> \<open>\<^verbatim>\<open>Swap\<close>: the old value, the new state\<close>

definition counter_add :: "int \<Rightarrow> int \<Rightarrow> int \<times> int" where
  "counter_add delta v = (let v' = wrap64 (v + delta) in (v', v'))"

definition count_read :: "('r, 'e) source \<Rightarrow> ('r \<times> int, 'e) source" where
  "count_read rd s =
     (case rd (fst s) of (mb, err, r') \<Rightarrow>
        (case err of
           Some e \<Rightarrow> ([], Some e, (r', snd s))
         | None \<Rightarrow> (mb, None, (r', if length mb > 0 then snd (counter_add (int (length mb)) (snd s)) else snd s))))"

section \<open>Reading a link\<close>

text \<open>A reader of the limited upload path of \<^verbatim>\<open>DispatchLink\<close>: counted, and rate-limited inside.\<close>

definition upload_read :: "('r, 'e) source \<Rightarrow> ('r rate_stream \<times> int, 'e) source" where
  "upload_read rd = count_read (rate_read rd)"

text \<open>The results of \<open>n\<close> reads and the state after them.\<close>

fun reads :: "('s, 'e) source \<Rightarrow> nat \<Rightarrow> 's \<Rightarrow> (bytes \<times> 'e option) list \<times> 's" where
  "reads rd 0 s = ([], s)"
| "reads rd (Suc n) s =
     (case rd s of (mb, err, s') \<Rightarrow> (case reads rd n s' of (rs, s'') \<Rightarrow> ((mb, err) # rs, s'')))"

definition volume :: "(bytes \<times> 'e option) list \<Rightarrow> int" where
  "volume rs = (\<Sum>(mb, err)\<leftarrow>rs. int (length mb))"

text \<open>What a wrapper passes on of one result: the error, or the data.\<close>

definition passed :: "bytes \<times> 'e option \<Rightarrow> bytes \<times> 'e option" where
  "passed r = (case snd r of None \<Rightarrow> r | Some e \<Rightarrow> ([], Some e))"

lemma volume_Cons [simp]: "volume ((mb, err) # rs) = int (length mb) + volume rs"
  by (simp add: volume_def)

lemma volume_Nil [simp]: "volume [] = 0"
  by (simp add: volume_def)

lemma passed_simps [simp]: "passed (mb, None) = (mb, None)" "passed (mb, Some e) = ([], Some e)"
  by (simp_all add: passed_def)

lemma volume_nonneg: "0 \<le> volume rs"
  by (induction rs) (auto simp: volume_def)

lemma upload_read_step:
  "upload_read rd (s, c) =
     (case rd (inner s) of (mb, err, r') \<Rightarrow>
        (case err of
           Some e \<Rightarrow> ([], Some e, (s\<lparr>inner := r'\<rparr>, c))
         | None \<Rightarrow> (mb, None,
             (s\<lparr>inner := r', waits := (if mb \<noteq> [] then waits s @ [int (length mb)] else waits s)\<rparr>,
              if mb \<noteq> [] then wrap64 (c + int (length mb)) else c))))"
  by (auto simp: upload_read_def count_read_def rate_read_def counter_add_def Let_def split: prod.splits option.splits)

lemma reads_upload:
  assumes "reads (upload_read rd) n (s, c) = (rs, (s', c'))" "reads rd n (inner s) = (rs0, r')"
    and "0 \<le> c" "c + volume (map passed rs0) \<le> max_int64"
  shows "rs = map passed rs0 \<and> inner s' = r' \<and> c' = c + volume rs \<and>
    sum_list (waits s') = sum_list (waits s) + volume rs \<and> (\<forall>w \<in> set (waits s'). w \<in> set (waits s) \<or> 0 < w)"
  using assms
proof (induction n arbitrary: s c rs rs0)
  case (Suc n)
  obtain mb err r1 where rd: "rd (inner s) = (mb, err, r1)" by (metis prod_cases3)
  obtain rs1 where rs1: "reads rd n r1 = (rs1, r')" "rs0 = (mb, err) # rs1"
    using Suc.prems(2) rd by (auto split: prod.splits)
  let ?s = "s\<lparr>inner := r1, waits := (if err = None \<and> mb \<noteq> [] then waits s @ [int (length mb)] else waits s)\<rparr>"
  let ?c = "if err = None then c + int (length mb) else c"
  have vol: "0 \<le> volume (map passed rs1)" by (rule volume_nonneg)
  have bound: "0 \<le> ?c" "?c + volume (map passed rs1) \<le> max_int64"
    using Suc.prems(3,4) rs1(2) by (cases err; simp)+
  have "wrap64 (c + int (length mb)) = c + int (length mb)" if "err = None"
    using bound vol that Suc.prems(3) by (intro wrap64_id) auto
  then have step: "upload_read rd (s, c) = (fst (passed (mb, err)), snd (passed (mb, err)), (?s, ?c))"
    by (cases err) (simp_all add: upload_read_step rd)
  obtain rs2 where rs2: "reads (upload_read rd) n (?s, ?c) = (rs2, (s', c'))" "rs = passed (mb, err) # rs2"
    using Suc.prems(1) by (auto simp: step split: prod.splits)
  have "rs2 = map passed rs1 \<and> inner s' = r' \<and> c' = ?c + volume rs2 \<and>
      sum_list (waits s') = sum_list (waits ?s) + volume rs2 \<and> (\<forall>w \<in> set (waits s'). w \<in> set (waits ?s) \<or> 0 < w)"
    using bound rs1(1) by (intro Suc.IH [OF rs2(1)]) simp_all
  then show ?case
    by (cases err) (auto simp: rs2(2) rs1(2) split: if_splits)
qed auto

text \<open>C22. On a limited upload the three accounts agree: for any underlying reader and any number of
  reads, the bytes handed on, the tokens asked of the bucket and the growth of the traffic
  counter are the same number (below 2 to the 63), no read asks for zero tokens, and the
  data comes through unchanged and in order; with an error, the data beside it is dropped
  and neither counted nor paid for.\<close>

theorem upload_bytes_counted_and_paid:
  "reads (upload_read rd) n (\<lparr>inner = r, waits = []\<rparr>, c) = (rs, (s', c')) \<Longrightarrow>
     reads rd n r = (rs0, r') \<Longrightarrow> 0 \<le> c \<Longrightarrow> c + volume (map passed rs0) \<le> max_int64 \<Longrightarrow>
     rs = map passed rs0 \<and> c' = c + volume rs \<and> sum_list (waits s') = volume rs \<and> (\<forall>w \<in> set (waits s'). 0 < w)"
  using reads_upload [of rd n "\<lparr>inner = r, waits = []\<rparr>" c rs s' c' rs0 r'] by simp

definition demo_read :: "((bytes \<times> string option) list, string) source" where
  "demo_read s = (case s of [] \<Rightarrow> ([], Some ''EOF'', []) | (mb, e) # rest \<Rightarrow> (mb, e, rest))"

theorem upload_bytes_counted_and_paid_witness:
  "fst (reads (upload_read demo_read) 3 (\<lparr>inner = [([1, 2], None), ([], None), ([3], Some ''reset'')], waits = []\<rparr>, 40))
     = [([1, 2], None), ([], None), ([], Some ''reset'')] \<and>
   snd (snd (reads (upload_read demo_read) 3 (\<lparr>inner = [([1, 2], None), ([], None), ([3], Some ''reset'')], waits = []\<rparr>, 40))) = 42"
proof -
  let ?i = "[([1, 2], None), ([], None), ([3], Some ''reset'')]"
  obtain rs s' c' where r: "reads (upload_read demo_read) 3 (\<lparr>inner = ?i, waits = []\<rparr>, 40) = (rs, (s', c'))"
    by (metis prod_cases3)
  have "reads demo_read 3 ?i = (?i, [])"
    by (simp add: demo_read_def numeral_3_eq_3)
  from upload_bytes_counted_and_paid [OF r this]
  have "rs = [([1, 2], None), ([], None), ([], Some ''reset'')]" "c' = 42"
    by auto
  then show ?thesis unfolding r by simp
qed

end
