(* ===== verification/XrayUsers.thy ===== *)
theory XrayUsers
  imports Links Streams
begin

text \<open>
  The users of the Xray core: the accounts built in \<^verbatim>\<open>core/xray/vmess.go\<close>, \<^verbatim>\<open>trojan.go\<close> and
  \<^verbatim>\<open>ss.go\<close>, the traffic counters of \<^verbatim>\<open>common/counter/traffic.go\<close>, and \<^verbatim>\<open>AddUsers\<close>, \<^verbatim>\<open>DelUsers\<close>,
  \<^verbatim>\<open>GetUserTrafficSlice\<close> of \<^verbatim>\<open>core/xray/user.go\<close> with the clean-up of \<^verbatim>\<open>DelNode\<close> in \<^verbatim>\<open>node.go\<close>.
  An inbound's user manager is Xray's: its state is of any type and its operations are the
  parameter \<open>ops\<close>. Counters are shared by pointer (an open connection keeps adding to its
  counter), so they live in a list of cells and the tables hold addresses.
\<close>

section \<open>Accounts\<close>

text \<open>\<^verbatim>\<open>base64.StdEncoding.EncodeToString\<close>\<close>

definition b64_char :: "nat \<Rightarrow> char" where
  "b64_char n = (if n < 26 then char_of (65 + n) else if n < 52 then char_of (71 + n)
     else if n < 62 then char_of (n - 4) else if n = 62 then CHR ''+'' else CHR ''/'')"

fun base64_encode :: "string \<Rightarrow> string" where
  "base64_encode [] = []"
| "base64_encode [a] = (let x = of_char a :: nat in
     [b64_char (x div 4), b64_char (x mod 4 * 16), CHR ''='', CHR ''=''])"
| "base64_encode [a, b] = (let x = of_char a :: nat; y = of_char b :: nat in
     [b64_char (x div 4), b64_char (x mod 4 * 16 + y div 16), b64_char (y mod 16 * 4), CHR ''=''])"
| "base64_encode (a # b # c # s) = (let x = of_char a :: nat; y = of_char b :: nat; z = of_char c :: nat in
     [b64_char (x div 4), b64_char (x mod 4 * 16 + y div 16), b64_char (y mod 16 * 4 + z div 64), b64_char (z mod 64)]
     @ base64_encode s)"

datatype cipher_type = AES_128_GCM | AES_256_GCM | CHACHA20_POLY1305 | UNKNOWN

datatype account =
    VmessAccount string string \<comment> \<open>id, security\<close>
  | VlessAccount string string \<comment> \<open>id, flow\<close>
  | TrojanAccount string
  | SSAccount string cipher_type
  | SS2022Account string \<comment> \<open>key\<close>

record protocol_user =
  Level :: nat
  Email :: string
  Account :: account

definition lower_char :: "char \<Rightarrow> char" where
  "lower_char c = (let n = of_char c :: nat in if 65 \<le> n \<and> n \<le> 90 then char_of (n + 32) else c)"

text \<open>\<^verbatim>\<open>strings.ToLower\<close> on ASCII\<close>

definition to_lower :: "string \<Rightarrow> string" where
  "to_lower = map lower_char"

definition get_cipher :: "string \<Rightarrow> cipher_type" where
  "get_cipher c = (let s = to_lower c in
     if s \<in> {''aes-128-gcm'', ''aead_aes_128_gcm''} then AES_128_GCM
     else if s \<in> {''aes-256-gcm'', ''aead_aes_256_gcm''} then AES_256_GCM
     else if s \<in> {''chacha20-poly1305'', ''aead_chacha20_poly1305'', ''chacha20-ietf-poly1305''} then CHACHA20_POLY1305
     else UNKNOWN)"

definition build_vmess_user :: "string \<Rightarrow> user_info \<Rightarrow> protocol_user" where
  "build_vmess_user tag u = \<lparr>Level = 0, Email = user_tag tag (Uuid u), Account = VmessAccount (Uuid u) ''auto''\<rparr>"

definition build_vless_user :: "string \<Rightarrow> string \<Rightarrow> user_info \<Rightarrow> protocol_user" where
  "build_vless_user tag flow u = \<lparr>Level = 0, Email = user_tag tag (Uuid u), Account = VlessAccount (Uuid u) flow\<rparr>"

definition build_trojan_user :: "string \<Rightarrow> user_info \<Rightarrow> protocol_user" where
  "build_trojan_user tag u = \<lparr>Level = 0, Email = user_tag tag (Uuid u), Account = TrojanAccount (Uuid u)\<rparr>"

definition ss_key_length :: "string \<Rightarrow> nat" where
  "ss_key_length cypher =
     (if cypher = ''2022-blake3-aes-128-gcm'' then 16
      else if cypher = ''2022-blake3-aes-256-gcm'' then 32
      else if cypher = ''2022-blake3-chacha20-poly1305'' then 32 else 0)"

definition build_ss_user :: "string \<Rightarrow> string \<Rightarrow> string \<Rightarrow> user_info \<Rightarrow> protocol_user" where
  "build_ss_user tag cypher server_key u =
     (if server_key = '''' then
        \<lparr>Level = 0, Email = user_tag tag (Uuid u), Account = SSAccount (Uuid u) (get_cipher cypher)\<rparr>
      else
        let n = ss_key_length cypher;
            n' = (if n > 0 \<and> length (Uuid u) < n then length (Uuid u) else n)
        in \<lparr>Level = 0, Email = user_tag tag (Uuid u), Account = SS2022Account (base64_encode (take n' (Uuid u)))\<rparr>)"

section \<open>State\<close>

datatype 'u handler = NotInbound | NoUserManager | Inbound 'u

record traffic_cell =
  up_counter :: int
  down_counter :: int

record 'u xray =
  inbounds :: "(string, 'u handler) gomap"
  uid_map :: "(string, int) gomap"
  min_traffic :: "(string, int) gomap"
  cells :: "traffic_cell list"
  counters :: "(string, (string, nat) gomap) gomap" \<comment> \<open>by inbound tag, then email\<close>
  links :: link_store

record ('m, 'u) user_ops =
  to_memory :: "protocol_user \<Rightarrow> string + 'm"
  um_add :: "'m \<Rightarrow> 'u \<Rightarrow> string + 'u"
  um_remove :: "string \<Rightarrow> 'u \<Rightarrow> string + 'u"

section \<open>\<^verbatim>\<open>common/counter/traffic.go\<close>\<close>

definition get_counter :: "string \<Rightarrow> (string, nat) gomap \<Rightarrow> traffic_cell list \<Rightarrow> nat \<times> (string, nat) gomap \<times> traffic_cell list" where
  "get_counter uuid c cs =
     (case map_of c uuid of
        Some a \<Rightarrow> (a, c, cs)
      | None \<Rightarrow> (length cs, mput uuid (length cs) c, cs @ [\<lparr>up_counter = 0, down_counter = 0\<rparr>]))"

definition delete_counter :: "string \<Rightarrow> (string, nat) gomap \<Rightarrow> (string, nat) gomap" where
  "delete_counter uuid c = mdel uuid c"

text \<open>\<^verbatim>\<open>d.Counter.LoadOrStore(tag, t)\<close> and \<^verbatim>\<open>t.GetCounter(email)\<close>, as \<^verbatim>\<open>getLink\<close> does: the address of
  the user's counter.\<close>

definition conn_counter :: "string \<Rightarrow> string \<Rightarrow> 'u xray \<Rightarrow> nat \<times> 'u xray" where
  "conn_counter tag email x =
     (case get_counter email (mget [] (counters x) tag) (cells x) of
        (a, c, cs) \<Rightarrow> (a, x\<lparr>counters := mput tag c (counters x), cells := cs\<rparr>))"

definition add_up :: "nat \<Rightarrow> int \<Rightarrow> 'u xray \<Rightarrow> 'u xray" where
  "add_up a n x = x\<lparr>cells := (cells x)[a := (cells x ! a)\<lparr>up_counter := snd (counter_add n (up_counter (cells x ! a)))\<rparr>]\<rparr>"

section \<open>\<^verbatim>\<open>core/xray/user.go\<close>\<close>

definition get_user_manager :: "string \<Rightarrow> 'u xray \<Rightarrow> string + 'u" where
  "get_user_manager tag x =
     (case map_of (inbounds x) tag of
        None \<Rightarrow> Inl ''no such inbound tag''
      | Some NotInbound \<Rightarrow> Inl ''handler is not implement proxy.GetInbound''
      | Some NoUserManager \<Rightarrow> Inl ''handler is not implement proxy.UserManager''
      | Some (Inbound u) \<Rightarrow> Inr u)"

definition set_user_manager :: "string \<Rightarrow> 'u \<Rightarrow> 'u xray \<Rightarrow> 'u xray" where
  "set_user_manager tag u x = x\<lparr>inbounds := mput tag (Inbound u) (inbounds x)\<rparr>"

text \<open>The body of the deletion loop after \<^verbatim>\<open>RemoveUser\<close> has succeeded.\<close>

definition forget_user :: "string \<Rightarrow> string \<Rightarrow> 'u xray \<Rightarrow> 'u xray" where
  "forget_user tag user x =
     (let x1 = x\<lparr>uid_map := mdel user (uid_map x)\<rparr>;
          x2 = (case map_of (counters x1) tag of
                  Some tc \<Rightarrow> x1\<lparr>counters := mput tag (delete_counter user tc) (counters x1)\<rparr>
                | None \<Rightarrow> x1)
      in case map_of (link_managers (links x2)) user of
           Some m \<Rightarrow> (let ls = close_all m (links x2) in
             x2\<lparr>links := ls\<lparr>link_managers := mdel user (link_managers ls)\<rparr>\<rparr>)
         | None \<Rightarrow> x2)"

fun del_loop :: "('m, 'u) user_ops \<Rightarrow> string \<Rightarrow> user_info list \<Rightarrow> 'u \<Rightarrow> 'u xray \<Rightarrow> string option \<times> 'u xray" where
  "del_loop ops tag [] um x = (None, set_user_manager tag um x)"
| "del_loop ops tag (u # us) um x =
     (let user = user_tag tag (Uuid u) in
        case um_remove ops user um of
          Inl err \<Rightarrow> (Some err, set_user_manager tag um x)
        | Inr um' \<Rightarrow> del_loop ops tag us um' (forget_user tag user x))"

definition del_users :: "('m, 'u) user_ops \<Rightarrow> user_info list \<Rightarrow> string \<Rightarrow> 'u xray \<Rightarrow> string option \<times> 'u xray" where
  "del_users ops users tag x =
     (case get_user_manager tag x of
        Inl err \<Rightarrow> (Some (''get user manager error: '' @ err), x)
      | Inr um \<Rightarrow> del_loop ops tag users um x)"

text \<open>The protocol part of \<^verbatim>\<open>NodeInfo\<close> that \<^verbatim>\<open>AddUsers\<close> reads.\<close>

record node_proto =
  np_type :: string
  np_flow :: string
  np_cipher :: string
  np_server_key :: string

definition build_users :: "string \<Rightarrow> node_proto \<Rightarrow> user_info list \<Rightarrow> protocol_user list option" where
  "build_users tag p us =
     (if np_type p = ''vmess'' then Some (map (build_vmess_user tag) us)
      else if np_type p = ''vless'' then Some (map (build_vless_user tag (np_flow p)) us)
      else if np_type p = ''trojan'' then Some (map (build_trojan_user tag) us)
      else if np_type p = ''shadowsocks'' then Some (map (build_ss_user tag (np_cipher p) (np_server_key p)) us)
      else None)"

fun add_loop :: "('m, 'u) user_ops \<Rightarrow> string \<Rightarrow> protocol_user list \<Rightarrow> 'u \<Rightarrow> 'u xray \<Rightarrow> string option \<times> 'u xray" where
  "add_loop ops tag [] um x = (None, set_user_manager tag um x)"
| "add_loop ops tag (u # us) um x =
     (case to_memory ops u of
        Inl err \<Rightarrow> (Some err, set_user_manager tag um x)
      | Inr mu \<Rightarrow>
          (case um_add ops mu um of
             Inl err \<Rightarrow> (Some err, set_user_manager tag um x)
           | Inr um' \<Rightarrow> add_loop ops tag us um' x))"

definition add_users ::
    "('m, 'u) user_ops \<Rightarrow> string \<Rightarrow> user_info list \<Rightarrow> node_proto \<Rightarrow> 'u xray \<Rightarrow> int \<times> string option \<times> 'u xray" where
  "add_users ops tag us p x =
     (let x1 = x\<lparr>uid_map := fold (\<lambda>u. mput (user_tag tag (Uuid u)) (Id u)) us (uid_map x)\<rparr> in
        case build_users tag p us of
          None \<Rightarrow> (0, Some (''unsupported node type: '' @ np_type p), x1)
        | Some users \<Rightarrow>
            (case get_user_manager tag x1 of
               Inl err \<Rightarrow> (0, Some (''get user manager error: '' @ err), x1)
             | Inr um \<Rightarrow>
                 (case add_loop ops tag users um x1 of
                    (Some err, x2) \<Rightarrow> (0, Some err, x2)
                  | (None, x2) \<Rightarrow> (int (length users), None, x2))))"

text \<open>One call of the \<^verbatim>\<open>Range\<close> body: the counters of the tag, the cells and the slice so far.\<close>

definition traffic_entry ::
    "int \<Rightarrow> bool \<Rightarrow> (string, int) gomap \<Rightarrow> string \<times> nat \<Rightarrow>
     (string, nat) gomap \<times> traffic_cell list \<times> user_traffic list \<Rightarrow>
     (string, nat) gomap \<times> traffic_cell list \<times> user_traffic list" where
  "traffic_entry minTraffic reset uids entry st =
     (case entry of (email, a) \<Rightarrow> (case st of (c, cs, acc) \<Rightarrow>
        (let up = up_counter (cs ! a); down = down_counter (cs ! a) in
           if wrap64 (up + down) > minTraffic then
             (let cs1 = (if reset then cs[a := \<lparr>up_counter = 0, down_counter = 0\<rparr>] else cs) in
                if mget 0 uids email = 0 then (delete_counter email c, cs1, acc)
                else (c, cs1, acc @ [\<lparr>UID = mget 0 uids email, Upload = up, Download = down\<rparr>]))
           else st)))"

definition get_user_traffic_slice :: "string \<Rightarrow> bool \<Rightarrow> 'u xray \<Rightarrow> user_traffic list \<times> 'u xray" where
  "get_user_traffic_slice tag reset x =
     (case map_of (counters x) tag of
        None \<Rightarrow> ([], x)
      | Some c \<Rightarrow>
          (case fold (traffic_entry (mget 0 (min_traffic x) tag) reset (uid_map x)) c (c, cells x, []) of
             (c', cs, acc) \<Rightarrow> (acc, x\<lparr>counters := mput tag c' (counters x), cells := cs\<rparr>)))"

text \<open>\<^verbatim>\<open>DelNode\<close>: the two handler removals are Xray's (they may fail), the rest is clean-up.\<close>

definition close_tag_links :: "string \<Rightarrow> link_store \<Rightarrow> link_store" where
  "close_tag_links tag ls =
     fold (\<lambda>(key, m) s. if has_prefix (tag @ ''|'') key
                        then (let s1 = close_all m s in s1\<lparr>link_managers := mdel key (link_managers s1)\<rparr>) else s)
       (link_managers ls) ls"

definition del_node :: "string option \<Rightarrow> string option \<Rightarrow> string \<Rightarrow> 'u xray \<Rightarrow> string option \<times> 'u xray" where
  "del_node in_err out_err tag x =
     (case in_err of
        Some e \<Rightarrow> (Some (''remove in error: '' @ e), x)
      | None \<Rightarrow>
          (let x1 = x\<lparr>inbounds := mdel tag (inbounds x)\<rparr> in
             case out_err of
               Some e \<Rightarrow> (Some (''remove out error: '' @ e), x1)
             | None \<Rightarrow> (None, x1\<lparr>min_traffic := mdel tag (min_traffic x1), counters := mdel tag (counters x1),
                                links := close_tag_links tag (links x1)\<rparr>)))"


section \<open>What the traffic report takes\<close>

definition counters_ok :: "(string, nat) gomap \<Rightarrow> traffic_cell list \<Rightarrow> bool" where
  "counters_ok c cs \<longleftrightarrow> wf_map c \<and> distinct (map snd c) \<and> (\<forall>a \<in> set (map snd c). a < length cs)"

text \<open>An entry is due when its traffic is above the node's threshold.\<close>

definition due :: "int \<Rightarrow> traffic_cell list \<Rightarrow> string \<times> nat \<Rightarrow> bool" where
  "due minTraffic cs entry \<longleftrightarrow> wrap64 (up_counter (cs ! snd entry) + down_counter (cs ! snd entry)) > minTraffic"

definition row :: "(string, int) gomap \<Rightarrow> traffic_cell list \<Rightarrow> string \<times> nat \<Rightarrow> user_traffic" where
  "row uids cs entry = \<lparr>UID = mget 0 uids (fst entry), Upload = up_counter (cs ! snd entry),
     Download = down_counter (cs ! snd entry)\<rparr>"

lemma due_cong: "cs ! snd e = cs' ! snd e \<Longrightarrow> due mt cs e = due mt cs' e"
  by (simp add: due_def)

lemma row_cong: "cs ! snd e = cs' ! snd e \<Longrightarrow> row u cs e = row u cs' e"
  by (simp add: row_def)

lemma fold_traffic:
  assumes "distinct (map snd es)" "\<forall>a \<in> set (map snd es). a < length cs"
    and "fold (traffic_entry mt True uids) es (c, cs, acc) = (c', cs', acc')"
  shows "acc' = acc @ map (row uids cs) (filter (\<lambda>e. due mt cs e \<and> mget 0 uids (fst e) \<noteq> 0) es)
    \<and> length cs' = length cs
    \<and> (\<forall>i < length cs. cs' ! i =
         (if \<exists>e \<in> set es. snd e = i \<and> due mt cs e then \<lparr>up_counter = 0, down_counter = 0\<rparr> else cs ! i))
    \<and> (\<forall>k. map_of c' k =
         (if \<exists>e \<in> set es. fst e = k \<and> due mt cs e \<and> mget 0 uids k = 0 then None else map_of c k))"
  using assms
proof (induction es arbitrary: c cs acc)
  case (Cons p es)
  obtain k a where p: "p = (k, a)" by (cases p)
  let ?zero = "\<lparr>up_counter = 0, down_counter = 0\<rparr>"
  define d where "d = due mt cs p"
  define cs1 where "cs1 = (if d then cs[a := ?zero] else cs)"
  define c1 where "c1 = (if d \<and> mget 0 uids k = 0 then mdel k c else c)"
  define acc1 where "acc1 = (if d \<and> mget 0 uids k \<noteq> 0 then acc @ [row uids cs p] else acc)"
  have "traffic_entry mt True uids p (c, cs, acc) = (c1, cs1, acc1)"
    by (auto simp: traffic_entry_def p Let_def d_def due_def c1_def cs1_def acc1_def delete_counter_def row_def)
  then have run: "fold (traffic_entry mt True uids) es (c1, cs1, acc1) = (c', cs', acc')"
    using Cons.prems(3) by simp
  have same: "cs1 ! snd e = cs ! snd e" if "e \<in> set es" for e
  proof -
    have "snd e \<noteq> a" using that Cons.prems(1) by (auto simp: p)
    then show ?thesis by (simp add: cs1_def)
  qed
  have IH: "acc' = acc1 @ map (row uids cs1) (filter (\<lambda>e. due mt cs1 e \<and> mget 0 uids (fst e) \<noteq> 0) es)"
    "length cs' = length cs1"
    "\<forall>i < length cs1. cs' ! i = (if \<exists>e \<in> set es. snd e = i \<and> due mt cs1 e then ?zero else cs1 ! i)"
    "\<forall>k. map_of c' k = (if \<exists>e \<in> set es. fst e = k \<and> due mt cs1 e \<and> mget 0 uids k = 0 then None else map_of c1 k)"
    using Cons.IH [OF _ _ run] Cons.prems by (auto simp: cs1_def)
  have f: "filter (\<lambda>e. due mt cs1 e \<and> mget 0 uids (fst e) \<noteq> 0) es = filter (\<lambda>e. due mt cs e \<and> mget 0 uids (fst e) \<noteq> 0) es"
    by (rule filter_cong) (auto simp: due_cong [OF same])
  have r: "map (row uids cs1) (filter P es) = map (row uids cs) (filter P es)" for P
    by (auto simp: row_cong [OF same])
  have ex: "(\<exists>e \<in> set es. Q e \<and> due mt cs1 e \<and> R) \<longleftrightarrow> (\<exists>e \<in> set es. Q e \<and> due mt cs e \<and> R)" for Q R
    using due_cong [OF same] by blast
  have len: "length cs1 = length cs" by (simp add: cs1_def)
  have a: "a < length cs" using Cons.prems(2) by (simp add: p)
  show ?case
  proof (intro conjI allI impI)
    show "acc' = acc @ map (row uids cs) (filter (\<lambda>e. due mt cs e \<and> mget 0 uids (fst e) \<noteq> 0) (p # es))"
      unfolding IH(1) f r by (simp add: acc1_def d_def p)
    show "length cs' = length cs" using IH(2) len by simp
    show "cs' ! i = (if \<exists>e \<in> set (p # es). snd e = i \<and> due mt cs e then ?zero else cs ! i)" if "i < length cs" for i
      using IH(3) that len ex [of "\<lambda>e. snd e = i" True] a
      by (auto simp: cs1_def d_def p nth_list_update)
    show "map_of c' k' = (if \<exists>e \<in> set (p # es). fst e = k' \<and> due mt cs e \<and> mget 0 uids k' = 0 then None else map_of c k')" for k'
      using IH(4) ex [of "\<lambda>e. fst e = k'" "mget 0 uids k' = 0"]
      by (auto simp: c1_def d_def p)
  qed
qed simp

text \<open>An entry is known by its counter, and by its key.\<close>

lemma ex_by_cell:
  assumes "distinct (map snd c)" "(k, a) \<in> set c"
  shows "(\<exists>e \<in> set c. snd e = a \<and> P e) \<longleftrightarrow> P (k, a)"
proof -
  have u: "e = (k, a)" if "e \<in> set c" "snd e = a" for e
    using that assms by (metis distinct_map inj_onD snd_conv)
  show ?thesis by (metis u assms(2) snd_conv)
qed

lemma ex_by_key:
  assumes "wf_map c" "map_of c k = Some a"
  shows "(\<exists>e \<in> set c. fst e = k \<and> P e) \<longleftrightarrow> P (k, a)"
proof -
  have u: "e = (k, a)" if "e \<in> set c" "fst e = k" for e
    using that assms(2) map_of_Some_iff [OF assms(1), of "fst e" "snd e"] by (metis option.inject prod.collapse)
  show ?thesis by (metis u map_of_SomeD [OF assms(2)] fst_conv)
qed

text \<open>C26. A traffic report with reset takes each counter exactly once: the rows are, in order, the
  users of the node whose traffic since their last report is above the threshold, with that
  traffic; exactly those counters restart from zero, and the traffic below the threshold
  stays for a later report. Only the traffic of users the node no longer knows goes
  unreported, and their counters are dropped.\<close>

theorem traffic_report_exact:
  "map_of (counters x) tag = Some c \<Longrightarrow> counters_ok c (cells x) \<Longrightarrow>
     get_user_traffic_slice tag True x = (rows, x') \<Longrightarrow> mt = mget 0 (min_traffic x) tag \<Longrightarrow>
     rows = map (row (uid_map x) (cells x))
       (filter (\<lambda>e. due mt (cells x) e \<and> mget 0 (uid_map x) (fst e) \<noteq> 0) c) \<and>
     (\<forall>(email, a) \<in> set c. cells x' ! a =
        (if due mt (cells x) (email, a) then \<lparr>up_counter = 0, down_counter = 0\<rparr> else cells x ! a)) \<and>
     (\<forall>a < length (cells x). a \<notin> set (map snd c) \<longrightarrow> cells x' ! a = cells x ! a) \<and>
     (\<forall>email. map_of (mget [] (counters x') tag) email =
        (case map_of c email of None \<Rightarrow> None
         | Some a \<Rightarrow> if due mt (cells x) (email, a) \<and> mget 0 (uid_map x) email = 0 then None else Some a))"
proof -
  assume c: "map_of (counters x) tag = Some c" and ok: "counters_ok c (cells x)"
    and sl: "get_user_traffic_slice tag True x = (rows, x')" and mt: "mt = mget 0 (min_traffic x) tag"
  obtain c' cs' where f: "fold (traffic_entry mt True (uid_map x)) c (c, cells x, []) = (c', cs', rows)"
    and x': "x' = x\<lparr>counters := mput tag c' (counters x), cells := cs'\<rparr>"
    using sl c by (auto simp: get_user_traffic_slice_def mt split: prod.splits)
  have d: "distinct (map snd c)" "\<forall>a \<in> set (map snd c). a < length (cells x)" and wf: "wf_map c"
    using ok by (auto simp: counters_ok_def)
  let ?zero = "\<lparr>up_counter = 0, down_counter = 0\<rparr>"
  have rows: "rows = map (row (uid_map x) (cells x))
      (filter (\<lambda>e. due mt (cells x) e \<and> mget 0 (uid_map x) (fst e) \<noteq> 0) c)"
    and cell: "\<And>i. i < length (cells x) \<Longrightarrow>
      cs' ! i = (if \<exists>e \<in> set c. snd e = i \<and> due mt (cells x) e then ?zero else cells x ! i)"
    and tab: "\<And>k. map_of c' k =
      (if \<exists>e \<in> set c. fst e = k \<and> due mt (cells x) e \<and> mget 0 (uid_map x) k = 0 then None else map_of c k)"
    using fold_traffic [OF d f] by simp_all
  have "cells x' ! a = (if due mt (cells x) (email, a) then ?zero else cells x ! a)" if "(email, a) \<in> set c" for email a
    using cell [of a] ex_by_cell [OF d(1) that, of "due mt (cells x)"] d(2) that by (force simp: x')
  moreover have "cells x' ! a = cells x ! a" if "a < length (cells x)" "a \<notin> set (map snd c)" for a
    using cell [OF that(1)] that(2) by (force simp: x')
  moreover have "map_of c' email = (case map_of c email of None \<Rightarrow> None
         | Some a \<Rightarrow> if due mt (cells x) (email, a) \<and> mget 0 (uid_map x) email = 0 then None else Some a)" for email
  proof (cases "map_of c email")
    case (Some a)
    then show ?thesis
      using tab [of email] ex_by_key [OF wf Some, of "\<lambda>e. due mt (cells x) e \<and> mget 0 (uid_map x) email = 0"] by simp
  qed (use tab in simp)
  ultimately show ?thesis
    using rows by (auto simp: x')
qed

definition demo_xray :: "unit xray" where
  "demo_xray = \<lparr>inbounds = [(''t'', Inbound ())], uid_map = [(''t|a'', 1), (''t|b'', 2)],
     min_traffic = [(''t'', 10)],
     cells = [\<lparr>up_counter = 7, down_counter = 8\<rparr>, \<lparr>up_counter = 1, down_counter = 2\<rparr>, \<lparr>up_counter = 50, down_counter = 0\<rparr>],
     counters = [(''t'', [(''t|a'', 0), (''t|b'', 1), (''t|c'', 2)])], links = no_links\<rparr>"

theorem traffic_report_exact_witness:
  "fst (get_user_traffic_slice ''t'' True demo_xray) = [\<lparr>UID = 1, Upload = 7, Download = 8\<rparr>]"
proof -
  obtain rows x' where r: "get_user_traffic_slice ''t'' True demo_xray = (rows, x')"
    by (rule prod.exhaust)
  have "map_of (counters demo_xray) ''t'' = Some [(''t|a'', 0), (''t|b'', 1), (''t|c'', 2)]"
    "counters_ok [(''t|a'', 0), (''t|b'', 1), (''t|c'', 2)] (cells demo_xray)"
    by (simp_all add: demo_xray_def counters_ok_def wf_map_def)
  from traffic_report_exact [OF this r refl] have "rows = [\<lparr>UID = 1, Upload = 7, Download = 8\<rparr>]"
    by (simp add: demo_xray_def due_def row_def mget_def wrap64_id)
  then show ?thesis by (simp add: r)
qed

section \<open>Reading a counter and clearing it\<close>

text \<open>The report reads a counter with \<^verbatim>\<open>Load\<close> and clears it with \<^verbatim>\<open>Store(0)\<close>, two atomic steps; a
  connection may add in between.\<close>

definition load_up :: "nat \<Rightarrow> 'u xray \<Rightarrow> int" where
  "load_up a x = up_counter (cells x ! a)"

definition clear_cell :: "nat \<Rightarrow> 'u xray \<Rightarrow> 'u xray" where
  "clear_cell a x = x\<lparr>cells := (cells x)[a := \<lparr>up_counter = 0, down_counter = 0\<rparr>]\<rparr>"

text \<open>Bytes that a connection counts between the report's \<^verbatim>\<open>Load\<close> and its \<^verbatim>\<open>Store(0)\<close> are lost:
  they are in no report, although the same bytes counted just before the \<^verbatim>\<open>Load\<close> or just
  after the \<^verbatim>\<open>Store\<close> would be. (\<^verbatim>\<open>Swap(0)\<close> would not lose them.)\<close>

theorem traffic_between_load_and_store_lost:
  "a < length (cells x) \<Longrightarrow> 0 \<le> n \<Longrightarrow> 0 \<le> up_counter (cells x ! a) \<Longrightarrow>
     up_counter (cells x ! a) + n \<le> max_int64 \<Longrightarrow>
     load_up a x + load_up a (clear_cell a (add_up a n x)) = load_up a x \<and>
     load_up a (add_up a n x) + load_up a (clear_cell a (add_up a n x)) = load_up a x + n \<and>
     load_up a x + load_up a (add_up a n (clear_cell a x)) = load_up a x + n"
  by (simp add: load_up_def clear_cell_def add_up_def counter_add_def Let_def wrap64_id)

theorem traffic_between_load_and_store_lost_witness:
  "load_up 0 demo_xray + load_up 0 (clear_cell 0 (add_up 0 1000 demo_xray)) = 7"
  using traffic_between_load_and_store_lost [of 0 demo_xray 1000]
  by (simp add: demo_xray_def load_up_def)


section \<open>Deleting and adding users\<close>

text \<open>The users with the keys \<open>K\<close> are gone from \<open>x\<close> to \<open>y\<close>: from the id map, the counters and the
  link tables, with every link they had closed; the others are as before.\<close>

definition forgotten :: "string \<Rightarrow> string set \<Rightarrow> 'u xray \<Rightarrow> 'u xray \<Rightarrow> bool" where
  "forgotten tag K x y \<longleftrightarrow> links_ok (links y)
     \<and> length (writers (links y)) = length (writers (links x))
     \<and> length (interrupted (links y)) = length (interrupted (links x))
     \<and> (\<forall>k. map_of (uid_map y) k = (if k \<in> K then None else map_of (uid_map x) k))
     \<and> (\<forall>k. map_of (mget [] (counters y) tag) k = (if k \<in> K then None else map_of (mget [] (counters x) tag) k))
     \<and> (\<forall>k. links_of k (links y) = (if k \<in> K then {} else links_of k (links x)))
     \<and> (\<forall>k \<in> K. \<forall>(w, r) \<in> links_of k (links x). mw_closed (writers (links y) ! w) \<and> interrupted (links y) ! r)
     \<and> (\<forall>w < length (writers (links x)). mw_closed (writers (links x) ! w) \<longrightarrow> mw_closed (writers (links y) ! w))
     \<and> (\<forall>r < length (interrupted (links x)). interrupted (links x) ! r \<longrightarrow> interrupted (links y) ! r)"

lemma forgotten_refl: "links_ok (links x) \<Longrightarrow> forgotten tag {} x x"
  by (simp add: forgotten_def)

lemma links_of_valid: "links_ok s \<Longrightarrow> (w, r) \<in> links_of k s \<Longrightarrow> w < length (writers s) \<and> r < length (interrupted s)"
proof -
  assume ok: "links_ok s" and wr: "(w, r) \<in> links_of k s"
  then obtain m where m: "map_of (link_managers s) k = Some m" "(w, r) \<in> set (managers s ! m)"
    by (auto simp: links_of_def split: option.splits)
  have "m < length (managers s)" using ok m(1) by (simp add: links_ok_def)
  from links_okD [OF ok this] m(2) show ?thesis by (simp add: map_of_Some_iff)
qed

lemma forgotten_trans:
  assumes "links_ok (links x)" and a: "forgotten tag K x y" and b: "forgotten tag L y z"
  shows "forgotten tag (K \<union> L) x z"
proof -
  have "mw_closed (writers (links z) ! w) \<and> interrupted (links z) ! r"
    if k: "k \<in> K \<union> L" and wr: "(w, r) \<in> links_of k (links x)" for k w r
  proof (cases "k \<in> K")
    case True
    have "w < length (writers (links y))" "r < length (interrupted (links y))"
      using links_of_valid [OF assms(1) wr] a by (simp_all add: forgotten_def)
    moreover have "mw_closed (writers (links y) ! w) \<and> interrupted (links y) ! r"
      using a True wr unfolding forgotten_def by blast
    ultimately show ?thesis using b by (simp add: forgotten_def)
  next
    case False
    then have "(w, r) \<in> links_of k (links y)" "k \<in> L" using a k wr by (auto simp: forgotten_def)
    then show ?thesis using b unfolding forgotten_def by blast
  qed
  then show ?thesis
    using a b by (auto simp: forgotten_def)
qed

lemma links_ok_drop: "links_ok s \<Longrightarrow> links_ok (s\<lparr>link_managers := mdel k (link_managers s)\<rparr>)"
  by (auto simp: links_ok_def intro: wf_map_mdel split: if_splits)

lemma forgotten_user:
  assumes ok: "links_ok (links x)"
  shows "forgotten tag {k} x (forget_user tag k x)"
proof -
  define s where "s = links x"
  define t where "t = (case map_of (link_managers s) k of
      Some m \<Rightarrow> (let ls = close_all m s in ls\<lparr>link_managers := mdel k (link_managers ls)\<rparr>) | None \<Rightarrow> s)"
  have ok: "links_ok s" using assms by (simp add: s_def)
  have f: "uid_map (forget_user tag k x) = mdel k (uid_map x)" "links (forget_user tag k x) = t"
    "map_of (mget [] (counters (forget_user tag k x)) tag) = (map_of (mget [] (counters x) tag))(k := None)"
    by (auto simp: forget_user_def Let_def t_def s_def delete_counter_def mget_def fun_eq_iff split: option.splits)
  show ?thesis
  proof (cases "map_of (link_managers s) k")
    case None
    then show ?thesis
      using ok f by (auto simp: forgotten_def t_def s_def [symmetric] links_of_def)
  next
    case (Some m)
    have m: "m < length (managers s)" using ok Some by (simp add: links_ok_def)
    let ?c = "close_all m s"
    have c: "closes m (managers s ! m) s ?c" and ok': "links_ok ?c"
      unfolding close_all_def by (rule entries_close [OF ok m subset_refl])+
    have t: "t = ?c\<lparr>link_managers := mdel k (link_managers ?c)\<rparr>"
      by (simp add: t_def Some Let_def)
    have "links_of k' t = (if k' = k then {} else links_of k' s)" for k'
    proof (cases "map_of (link_managers s) k'")
      case None
      then show ?thesis using c by (simp add: t links_of_def closes_def)
    next
      case (Some i)
      have "i < length (managers s)" using ok Some by (simp add: links_ok_def)
      moreover have "k' \<noteq> k \<Longrightarrow> i \<noteq> m"
        using ok Some \<open>map_of (link_managers s) k = Some m\<close> unfolding links_ok_def by metis
      ultimately show ?thesis using c Some by (simp add: t links_of_def closes_def)
    qed
    moreover have "mw_closed (writers t ! w) \<and> interrupted t ! r" if "(w, r) \<in> links_of k s" for w r
    proof -
      have "(w, r) \<in> set (managers s ! m)" using that Some by (simp add: links_of_def)
      then have "w \<in> fst ` set (managers s ! m)" "r \<in> snd ` set (managers s ! m)" by force+
      then show ?thesis
        using c links_of_valid [OF ok that] by (simp add: t closes_def)
    qed
    ultimately show ?thesis
      using c f links_ok_drop [OF ok'] by (auto simp: forgotten_def s_def [symmetric] t closes_def)
  qed
qed

lemma forgotten_set_manager [simp]: "forgotten tag K x (set_user_manager tag um y) = forgotten tag K x y"
  by (simp add: forgotten_def set_user_manager_def)

lemma del_loop_forgets:
  assumes "links_ok (links x)" "del_loop ops tag us um x = (err, x')"
  shows "\<exists>n \<le> length us. forgotten tag (user_tag tag ` Uuid ` set (take n us)) x x' \<and>
     (case err of None \<Rightarrow> n = length us
      | Some e \<Rightarrow> n < length us \<and> (\<exists>um'. um_remove ops (user_tag tag (Uuid (us ! n))) um' = Inl e))"
  using assms
proof (induction us arbitrary: um x)
  case Nil
  then show ?case by (auto simp: forgotten_refl)
next
  case (Cons u us)
  let ?k = "user_tag tag (Uuid u)"
  show ?case
  proof (cases "um_remove ops ?k um")
    case (Inl e)
    then show ?thesis using Cons.prems by (intro exI [of _ 0]) (auto simp: forgotten_refl)
  next
    case (Inr um')
    have f: "forgotten tag {?k} x (forget_user tag ?k x)" by (rule forgotten_user) fact
    then have ok: "links_ok (links (forget_user tag ?k x))" by (simp add: forgotten_def)
    obtain n where n: "n \<le> length us"
      "forgotten tag (user_tag tag ` Uuid ` set (take n us)) (forget_user tag ?k x) x'"
      "case err of None \<Rightarrow> n = length us
        | Some e \<Rightarrow> n < length us \<and> (\<exists>um'. um_remove ops (user_tag tag (Uuid (us ! n))) um' = Inl e)"
      using Cons.IH [OF ok] Cons.prems(2) Inr by auto
    have "forgotten tag (user_tag tag ` Uuid ` set (take (Suc n) (u # us))) x x'"
      using forgotten_trans [OF Cons.prems(1) f n(2)] by simp
    then show ?thesis
      using n(1,3) by (intro exI [of _ "Suc n"]) (auto split: option.splits)
  qed
qed


text \<open>An inbound as a list of emails, which refuses to remove an absent one, as Xray does.\<close>

definition list_ops :: "(string, string list) user_ops" where
  "list_ops = \<lparr>to_memory = (\<lambda>u. Inr (Email u)), um_add = (\<lambda>e us. if e \<in> set us then Inl (''User '' @ e @ '' already exists.'') else Inr (us @ [e])),
     um_remove = (\<lambda>e us. if e \<in> set us then Inr (remove1 e us) else Inl (''User '' @ e @ '' not found.''))\<rparr>"

definition two_users :: "string list xray" where
  "two_users = \<lparr>inbounds = [(''t'', Inbound [''t|a'', ''t|b''])], uid_map = [(''t|a'', 1), (''t|b'', 2)],
     min_traffic = [], cells = [], counters = [],
     links = snd (open_link ''t|b'' ''2.2.2.2'' (snd (open_link ''t|a'' ''1.1.1.1'' no_links)))\<rparr>"



text \<open>Attaching a connection is two steps, and a deletion of its user between them leaves the
  connection outside every table: it is open, no table of any user lists it, and neither a
  later deletion of the user nor a kick of its address can close it.\<close>

theorem link_attached_during_deletion_survives:
  "links_ok (links x) \<Longrightarrow> load_manager k (links x) = (m, ls) \<Longrightarrow>
     y = forget_user tag k (x\<lparr>links := ls\<rparr>) \<Longrightarrow> attach_link m ip (links y) = (w, ls') \<Longrightarrow>
     \<not> mw_closed (writers ls' ! w) \<and> w < length (writers ls') \<and>
     (\<forall>e r. (w, r) \<notin> links_of e ls') \<and>
     \<not> mw_closed (writers (links (forget_user tag k (y\<lparr>links := ls'\<rparr>))) ! w) \<and>
     \<not> mw_closed (writers (kick_by_user_ip k ip ls') ! w)"
proof -
  assume ok: "links_ok (links x)" and lm: "load_manager k (links x) = (m, ls)"
    and y: "y = forget_user tag k (x\<lparr>links := ls\<rparr>)" and at: "attach_link m ip (links y) = (w, ls')"
  have ok1: "links_ok ls" "m < length (managers ls)" "map_of (link_managers ls) k = Some m"
    using links_ok_load [OF ok lm] lm by (auto simp: load_manager_def split: option.splits)
  have f: "forgotten tag {k} (x\<lparr>links := ls\<rparr>) y"
    unfolding y by (rule forgotten_user) (simp add: ok1)
  have ylinks: "links y = (close_all m ls)\<lparr>link_managers := mdel k (link_managers (close_all m ls))\<rparr>"
    by (simp add: y forget_user_def Let_def ok1 split: option.splits)
  have c: "closes m (managers ls ! m) ls (close_all m ls)"
    unfolding close_all_def by (rule entries_close(1) [OF ok1(1,2) subset_refl])
  have nok: "map_of (link_managers (links y)) k = None" by (simp add: ylinks)
  have nom: "map_of (link_managers (links y)) e \<noteq> Some m" for e
    using ok1 c unfolding ylinks links_ok_def closes_def by (auto split: if_splits)
  have w: "w = length (writers (links y))" "link_managers ls' = link_managers (links y)"
    "writers ls' = writers (links y) @ [\<lparr>mw_manager = m, mw_ip = ip, mw_closed = False\<rparr>]"
    "\<And>i. i \<noteq> m \<Longrightarrow> managers ls' ! i = managers (links y) ! i"
    using at by (auto simp: attach_link_def add_link_def Let_def)
  have "(w, r) \<notin> links_of e ls'" for e r
  proof
    assume "(w, r) \<in> links_of e ls'"
    then obtain i where i: "map_of (link_managers (links y)) e = Some i" "(w, r) \<in> set (managers ls' ! i)"
      by (auto simp: links_of_def w split: option.splits)
    then have "(w, r) \<in> links_of e (links y)" using nom [of e] by (simp add: links_of_def w)
    then show False
      using links_of_valid [of "links y"] f w(1) by (auto simp: forgotten_def)
  qed
  moreover have "forget_user tag k (y\<lparr>links := ls'\<rparr>) = (forget_user tag k y)\<lparr>links := ls'\<rparr>"
    using nok by (simp add: forget_user_def Let_def w split: option.splits)
  moreover have "kick_by_user_ip k ip ls' = ls'"
    using nok by (simp add: kick_by_user_ip_def w)
  ultimately show ?thesis using w by simp
qed

theorem link_attached_during_deletion_survives_witness:
  "let (m, ls) = load_manager ''t|a'' (links two_users);
       y = forget_user ''t'' ''t|a'' (two_users\<lparr>links := ls\<rparr>);
       (w, ls') = attach_link m ''1.1.1.1'' (links y)
   in \<not> mw_closed (writers ls' ! w)"
proof -
  have "links_ok (snd (open_link e ip s))" if "links_ok s" for e ip s
    using that by (auto intro: links_ok_open [OF _ prod.collapse [symmetric]])
  then have ok: "links_ok (links two_users)" by (simp add: two_users_def links_ok_empty)
  obtain m ls where lm: "load_manager ''t|a'' (links two_users) = (m, ls)" by (rule prod.exhaust)
  obtain w ls' where at: "attach_link m ''1.1.1.1'' (links (forget_user ''t'' ''t|a'' (two_users\<lparr>links := ls\<rparr>))) = (w, ls')"
    by (rule prod.exhaust)
  show ?thesis
    using link_attached_during_deletion_survives [OF ok lm refl at] by (simp add: lm at)
qed

section \<open>Adding users\<close>

lemma build_users_emails: "build_users tag p us = Some vs \<Longrightarrow> map Email vs = map (\<lambda>u. user_tag tag (Uuid u)) us"
  by (auto simp: build_users_def build_vmess_user_def build_vless_user_def build_trojan_user_def
      build_ss_user_def Let_def split: if_splits)

lemma add_loop_uid: "add_loop ops tag vs um x = (err, x') \<Longrightarrow> uid_map x' = uid_map x \<and> links x' = links x
    \<and> counters x' = counters x \<and> cells x' = cells x"
  by (induction ops tag vs um x rule: add_loop.induct)
    (auto simp: set_user_manager_def split: sum.splits)

end
