(* ===== verification/PanelNode.thy ===== *)
theory PanelNode
  imports Complex_Main PanelUsers Limiter
begin

text \<open>
  The node configuration fetched from the panel, \<^verbatim>\<open>api/panel/node.go\<close>: the types and their
  decoding, routes turned into rules and DNS entries, intervals, and \<^verbatim>\<open>GetNodeInfo\<close> with its
  change detection. Parameters: \<open>parse\<close> reads a body as a JSON tree, \<open>sha\<close> is the hexadecimal
  SHA-256 of a body, \<open>num\<close> the \<^verbatim>\<open>float64\<close> a number literal denotes.
\<close>

section \<open>Types\<close>

text \<open>A field of type \<^verbatim>\<open>any\<close>, as far as the code looks at it.\<close>

datatype dyn = DNil | DInt int | DInt64 int | DString string | DFloat rat | DOther

datatype match = MString string | MStrings "string list" | MList "json list" | MOther

record route =
  route_id :: int
  route_match :: match
  route_action :: string
  route_value :: string

record base_config =
  push_interval :: dyn
  pull_interval :: dyn

record common_node =
  cn_host :: string
  cn_port :: int
  cn_server_name :: string
  cn_routes :: "route list"
  cn_base :: "base_config option"

record tls_settings =
  server_name :: string
  server_names :: "string list"
  tls_dest :: string
  tls_port :: string
  short_id :: string
  short_ids :: "string list"
  private_key :: string
  mldsa65_seed :: string
  xver :: int

record enc_settings =
  enc_mode :: string
  enc_ticket :: string
  enc_padding :: string
  enc_key :: string

text \<open>\<^verbatim>\<open>json.RawMessage\<close>: \<open>None\<close> when the field is absent (length 0).\<close>

type_synonym raw = "json option"

record vallss_node =
  va_tls :: int
  va_tls_settings :: tls_settings
  va_tls_back :: "tls_settings option"
  va_network :: string
  va_net_settings :: raw
  va_net_back :: raw
  va_encryption :: string
  va_enc_settings :: enc_settings
  va_decryption :: string
  va_server_name :: string
  va_flow :: string

record ss_node =
  ss_cipher :: string
  ss_server_key :: string

record trojan_node =
  tr_network :: string
  tr_net_settings :: raw
  tr_net_back :: raw
  tr_tls :: int
  tr_tls_settings :: tls_settings
  tr_tls_back :: "tls_settings option"

datatype proto_node = VAllss vallss_node | Shadowsocks ss_node | Trojan trojan_node

record raw_dns =
  dns_map :: "(string, string \<times> string list) gomap" \<comment> \<open>address, domains\<close>
  dns_json :: string

record node_info =
  ni_id :: int
  ni_type :: string
  ni_security :: int
  ni_push :: int
  ni_pull :: int
  ni_dns :: raw_dns
  ni_rules :: rules
  ni_proto :: proto_node
  ni_common :: common_node

definition effective_server_names :: "tls_settings \<Rightarrow> string list" where
  "effective_server_names t =
     (if server_names t \<noteq> [] then server_names t else if server_name t \<noteq> '''' then [server_name t] else [])"

definition effective_short_ids :: "tls_settings \<Rightarrow> string list" where
  "effective_short_ids t =
     (if short_ids t \<noteq> [] then short_ids t else if short_id t \<noteq> '''' then [short_id t] else [])"

section \<open>Decoding\<close>

definition as_strs :: "json \<Rightarrow> string list option" where
  "as_strs j = map_option (\<lambda>xs. case xs of None \<Rightarrow> [] | Some ys \<Rightarrow> ys) (as_slice as_str j)"

text \<open>\<^verbatim>\<open>uint64\<close> with the \<^verbatim>\<open>,string\<close> option: the number stands in a string.\<close>

fun as_quoted_uint :: "json \<Rightarrow> int option" where
  "as_quoted_uint JNull = Some 0"
| "as_quoted_uint (JStr s) =
     (if s \<noteq> [] \<and> list_all is_digit s \<and> digits_val 0 s < 2 ^ 64 then Some (int (digits_val 0 s)) else None)"
| "as_quoted_uint _ = None"

definition decode_match :: "json \<Rightarrow> match" where
  "decode_match j = (case j of JStr s \<Rightarrow> MString s | JArr js \<Rightarrow> MList js | _ \<Rightarrow> MOther)"

definition decode_dyn :: "(string \<Rightarrow> rat) \<Rightarrow> json \<Rightarrow> dyn" where
  "decode_dyn num j = (case j of JNull \<Rightarrow> DNil | JNum lit \<Rightarrow> DFloat (num lit) | JStr s \<Rightarrow> DString s | _ \<Rightarrow> DOther)"

definition decode_route :: "json \<Rightarrow> route option" where
  "decode_route j = (case struct_fields j of None \<Rightarrow> None | Some kvs \<Rightarrow>
     (case (as_int (field ''id'' kvs), as_str (field ''action'' kvs), as_str (field ''action_value'' kvs)) of
        (Some i, Some a, Some v) \<Rightarrow>
          Some \<lparr>route_id = i, route_match = decode_match (field ''match'' kvs), route_action = a, route_value = v\<rparr>
      | _ \<Rightarrow> None))"

definition decode_base :: "(string \<Rightarrow> rat) \<Rightarrow> json \<Rightarrow> base_config option option" where
  "decode_base num j = (case j of
     JNull \<Rightarrow> Some None
   | JObj kvs \<Rightarrow> Some (Some \<lparr>push_interval = decode_dyn num (field ''push_interval'' kvs),
                            pull_interval = decode_dyn num (field ''pull_interval'' kvs)\<rparr>)
   | _ \<Rightarrow> None)"

definition decode_common :: "(string \<Rightarrow> rat) \<Rightarrow> bool \<Rightarrow> (string \<times> json) list \<Rightarrow> common_node option" where
  "decode_common num shadowed kvs =
     (case (as_str (field ''host'' kvs), as_int (field ''server_port'' kvs),
            (if shadowed then Some '''' else as_str (field ''server_name'' kvs)),
            as_slice decode_route (field ''routes'' kvs), decode_base num (field ''base_config'' kvs)) of
        (Some h, Some p, Some n, Some rs, Some b) \<Rightarrow>
          Some \<lparr>cn_host = h, cn_port = p, cn_server_name = n,
            cn_routes = (case rs of None \<Rightarrow> [] | Some xs \<Rightarrow> xs), cn_base = b\<rparr>
      | _ \<Rightarrow> None)"

definition decode_tls :: "json \<Rightarrow> tls_settings option" where
  "decode_tls j = (case struct_fields j of None \<Rightarrow> None | Some kvs \<Rightarrow>
     (case (as_str (field ''server_name'' kvs), as_strs (field ''server_names'' kvs), as_str (field ''dest'' kvs),
            as_str (field ''server_port'' kvs)) of
        (Some n, Some ns, Some d, Some p) \<Rightarrow>
          (case (as_str (field ''short_id'' kvs), as_strs (field ''short_ids'' kvs), as_str (field ''private_key'' kvs),
                 as_str (field ''mldsa65Seed'' kvs), as_quoted_uint (field ''xver'' kvs)) of
             (Some si, Some sis, Some k, Some m, Some x) \<Rightarrow>
               Some \<lparr>server_name = n, server_names = ns, tls_dest = d, tls_port = p, short_id = si, short_ids = sis,
                 private_key = k, mldsa65_seed = m, xver = x\<rparr>
           | _ \<Rightarrow> None)
      | _ \<Rightarrow> None))"

definition decode_tls_ptr :: "json \<Rightarrow> tls_settings option option" where
  "decode_tls_ptr j = (case j of JNull \<Rightarrow> Some None | _ \<Rightarrow> map_option Some (decode_tls j))"

definition decode_enc :: "json \<Rightarrow> enc_settings option" where
  "decode_enc j = (case struct_fields j of None \<Rightarrow> None | Some kvs \<Rightarrow>
     (case (as_str (field ''mode'' kvs), as_str (field ''ticket'' kvs), as_str (field ''server_padding'' kvs),
            as_str (field ''private_key'' kvs)) of
        (Some m, Some t, Some p, Some k) \<Rightarrow> Some \<lparr>enc_mode = m, enc_ticket = t, enc_padding = p, enc_key = k\<rparr>
      | _ \<Rightarrow> None))"

text \<open>The \<^verbatim>\<open>networkSettings\<close> and \<^verbatim>\<open>tlsSettings\<close> variants, when given, replace the snake-case ones.\<close>

definition decode_vallss :: "(string \<times> json) list \<Rightarrow> vallss_node option" where
  "decode_vallss kvs =
     (case (as_int (field ''tls'' kvs), decode_tls (field ''tls_settings'' kvs), decode_tls_ptr (field ''tlsSettings'' kvs),
            as_str (field ''network'' kvs), decode_enc (field ''encryption_settings'' kvs)) of
        (Some t, Some ts, Some tb, Some n, Some es) \<Rightarrow>
          (case (as_str (field ''encryption'' kvs), as_str (field ''decryption'' kvs),
                 as_str (field ''server_name'' kvs), as_str (field ''flow'' kvs)) of
             (Some e, Some d, Some sn, Some f) \<Rightarrow>
               Some \<lparr>va_tls = t, va_tls_settings = ts, va_tls_back = tb, va_network = n,
                 va_net_settings = find_field ''network_settings'' kvs, va_net_back = find_field ''networkSettings'' kvs,
                 va_encryption = e, va_enc_settings = es, va_decryption = d, va_server_name = sn, va_flow = f\<rparr>
           | _ \<Rightarrow> None)
      | _ \<Rightarrow> None)"

definition prefer_back :: "vallss_node \<Rightarrow> vallss_node" where
  "prefer_back v =
     (let v1 = (if va_net_back v \<noteq> None then v\<lparr>va_net_settings := va_net_back v, va_net_back := None\<rparr> else v)
      in case va_tls_back v1 of Some t \<Rightarrow> v1\<lparr>va_tls_settings := t, va_tls_back := None\<rparr> | None \<Rightarrow> v1)"

definition decode_trojan :: "(string \<times> json) list \<Rightarrow> trojan_node option" where
  "decode_trojan kvs =
     (case (as_int (field ''tls'' kvs), decode_tls (field ''tls_settings'' kvs), decode_tls_ptr (field ''tlsSettings'' kvs),
            as_str (field ''network'' kvs)) of
        (Some t, Some ts, Some tb, Some n) \<Rightarrow>
          Some \<lparr>tr_network = n, tr_net_settings = find_field ''network_settings'' kvs,
            tr_net_back = find_field ''networkSettings'' kvs, tr_tls = t, tr_tls_settings = ts, tr_tls_back = tb\<rparr>
      | _ \<Rightarrow> None)"

definition prefer_back_trojan :: "trojan_node \<Rightarrow> trojan_node" where
  "prefer_back_trojan v =
     (let v1 = (if tr_net_back v \<noteq> None then v\<lparr>tr_net_settings := tr_net_back v, tr_net_back := None\<rparr> else v)
      in case tr_tls_back v1 of Some t \<Rightarrow> v1\<lparr>tr_tls_settings := t, tr_tls_back := None\<rparr> | None \<Rightarrow> v1)"

definition decode_ss :: "(string \<times> json) list \<Rightarrow> ss_node option" where
  "decode_ss kvs =
     (case (as_str (field ''cipher'' kvs), as_str (field ''server_key'' kvs)) of
        (Some c, Some k) \<Rightarrow> Some \<lparr>ss_cipher = c, ss_server_key = k\<rparr> | _ \<Rightarrow> None)"

text \<open>The \<^verbatim>\<open>switch\<close> on the node type: protocol part, common part, security.\<close>

definition decode_node ::
    "(string \<Rightarrow> rat) \<Rightarrow> string \<Rightarrow> json option \<Rightarrow> string + (proto_node \<times> common_node \<times> int)" where
  "decode_node num nt body =
     (case (case body of None \<Rightarrow> None | Some j \<Rightarrow> struct_fields j) of
        fs \<Rightarrow>
        if nt = ''vmess'' \<or> nt = ''vless'' then
          (case fs of None \<Rightarrow> Inl ''decode v2ray params error'' | Some kvs \<Rightarrow>
             (case (decode_vallss kvs, decode_common num True kvs) of
                (Some v, Some cm) \<Rightarrow> Inr (VAllss (prefer_back v), cm, va_tls (prefer_back v))
              | _ \<Rightarrow> Inl ''decode v2ray params error''))
        else if nt = ''shadowsocks'' then
          (case fs of None \<Rightarrow> Inl ''decode shadowsocks params error'' | Some kvs \<Rightarrow>
             (case (decode_ss kvs, decode_common num False kvs) of
                (Some v, Some cm) \<Rightarrow> Inr (Shadowsocks v, cm, 0)
              | _ \<Rightarrow> Inl ''decode shadowsocks params error''))
        else if nt = ''trojan'' then
          (case fs of None \<Rightarrow> Inl ''decode trojan params error'' | Some kvs \<Rightarrow>
             (case (decode_trojan kvs, decode_common num False kvs) of
                (Some v, Some cm) \<Rightarrow> Inr (Trojan (prefer_back_trojan v), cm, tr_tls v)
              | _ \<Rightarrow> Inl ''decode trojan params error''))
        else Inl ''decode params error: no valid common node parsed'')"


section \<open>Rules and DNS from routes\<close>

text \<open>\<open>None\<close>: the match is of no usable type and the route is skipped.\<close>

definition route_matches :: "match \<Rightarrow> string list option" where
  "route_matches m = (case m of
     MString s \<Rightarrow> Some (split_on CHR '','' s)
   | MStrings ss \<Rightarrow> Some ss
   | MList js \<Rightarrow> Some (concat (map (\<lambda>j. case j of JStr s \<Rightarrow> [s] | _ \<Rightarrow> []) js))
   | MOther \<Rightarrow> None)"

definition block_rule :: "string \<Rightarrow> rules \<Rightarrow> rules" where
  "block_rule v r =
     (if has_prefix ''protocol:'' v then r\<lparr>rl_protocol := rl_protocol r @ [trim_prefix ''protocol:'' v]\<rparr>
      else r\<lparr>rl_regexp := rl_regexp r @ [trim_prefix ''regexp:'' v]\<rparr>)"

definition route_step :: "nat \<Rightarrow> route \<Rightarrow> rules \<times> raw_dns \<Rightarrow> rules \<times> raw_dns" where
  "route_step i rt st = (case st of (r, d) \<Rightarrow>
     (case route_matches (route_match rt) of
        None \<Rightarrow> (r, d)
      | Some matchs \<Rightarrow>
          if route_action rt = ''block'' then (fold block_rule matchs r, d)
          else if route_action rt = ''dns'' then
            (case matchs of
               [] \<Rightarrow> (r, d)
             | m0 # rest \<Rightarrow>
                 if m0 \<noteq> ''main'' then
                   (r, d\<lparr>dns_map := mput (itoa (int i)) (route_value rt, matchs) (dns_map d)\<rparr>)
                 else (r, d\<lparr>dns_json := join_with '''' rest\<rparr>))
          else (r, d)))"

fun routes_loop :: "nat \<Rightarrow> route list \<Rightarrow> rules \<times> raw_dns \<Rightarrow> rules \<times> raw_dns" where
  "routes_loop i [] st = st"
| "routes_loop i (rt # rts) st = routes_loop (Suc i) rts (route_step i rt st)"

section \<open>Intervals\<close>

definition common_base_config :: "common_node \<Rightarrow> base_config" where
  "common_base_config cm = (case cn_base cm of Some b \<Rightarrow> b | None \<Rightarrow> \<lparr>push_interval = DNil, pull_interval = DNil\<rparr>)"

text \<open>\<^verbatim>\<open>Atoi\<close> with its error ignored; a \<^verbatim>\<open>float64\<close> is truncated (Go leaves values beyond 64 bits
  open). Multiplication by a second wraps.\<close>

definition atoi_value :: "string \<Rightarrow> int" where
  "atoi_value s = (case atoi s of Inl (e, v) \<Rightarrow> v | Inr v \<Rightarrow> v)"

definition seconds :: "int \<Rightarrow> int" where
  "seconds v = wrap64 (v * second)"

definition interval_to_time :: "dyn \<Rightarrow> int" where
  "interval_to_time i = (case i of
     DNil \<Rightarrow> 60 * second
   | DInt v \<Rightarrow> (if v > 0 then seconds v else 60 * second)
   | DInt64 v \<Rightarrow> (if v > 0 then seconds v else 60 * second)
   | DString s \<Rightarrow> (if atoi_value s > 0 then seconds (atoi_value s) else 60 * second)
   | DFloat v \<Rightarrow> (if v > 0 then seconds \<lfloor>v\<rfloor> else 60 * second)
   | DOther \<Rightarrow> 60 * second)"

section \<open>\<^verbatim>\<open>GetNodeInfo\<close>\<close>

definition build_node :: "client \<Rightarrow> proto_node \<Rightarrow> common_node \<Rightarrow> int \<Rightarrow> node_info" where
  "build_node c p cm sec =
     (case routes_loop 0 (cn_routes cm) (\<lparr>rl_regexp = [], rl_protocol = []\<rparr>, \<lparr>dns_map = [], dns_json = ''''\<rparr>) of
        (r, d) \<Rightarrow>
          \<lparr>ni_id = node_id c, ni_type = node_type c, ni_security = sec,
           ni_push = interval_to_time (push_interval (common_base_config cm)),
           ni_pull = interval_to_time (pull_interval (common_base_config cm)),
           ni_dns = d, ni_rules = r, ni_proto = p, ni_common = cm\<lparr>cn_routes := [], cn_base := None\<rparr>\<rparr>)"

definition get_node_info ::
    "('b \<Rightarrow> json option) \<Rightarrow> ('b \<Rightarrow> string) \<Rightarrow> ('b \<Rightarrow> string) \<Rightarrow> (string \<Rightarrow> rat) \<Rightarrow> 'b reply \<Rightarrow> client
     \<Rightarrow> (string + node_info option) \<times> client" where
  "get_node_info parse show sha num r c =
     (if r_nil r then (Inl ''received nil response'', c)
      else if r_status r = 304 then (Inr None, c)
      else case check_response c r show ''/api/v1/server/UniProxy/config'' of
             Some e \<Rightarrow> (Inl e, c)
           | None \<Rightarrow>
               if body_hash c = sha (r_body r) then (Inr None, c)
               else
                 let c1 = c\<lparr>body_hash := sha (r_body r), node_etag := r_etag r\<rparr> in
                   (case decode_node num (node_type c1) (parse (r_body r)) of
                      Inl e \<Rightarrow> (Inl e, c1)
                    | Inr (p, cm, sec) \<Rightarrow> (Inr (Some (build_node c1 p cm sec)), c1)))"

section \<open>What the routes mean\<close>

definition rules_of_route :: "route \<Rightarrow> string list" where
  "rules_of_route rt =
     (if route_action rt = ''block'' then (case route_matches (route_match rt) of None \<Rightarrow> [] | Some ms \<Rightarrow> ms) else [])"

lemma fold_block:
  "fold block_rule vs r =
     r\<lparr>rl_regexp := rl_regexp r @ map (trim_prefix ''regexp:'') (filter (\<lambda>v. \<not> has_prefix ''protocol:'' v) vs),
       rl_protocol := rl_protocol r @ map (trim_prefix ''protocol:'') (filter (has_prefix ''protocol:'') vs)\<rparr>"
  by (induction vs arbitrary: r) (simp_all add: block_rule_def)

lemma fst_route_step: "fst (route_step i rt st) = fold block_rule (rules_of_route rt) (fst st)"
proof (cases st; cases "route_matches (route_match rt)")
  fix r d ms assume "st = (r, d)" "route_matches (route_match rt) = Some ms"
  then show ?thesis by (cases ms) (simp_all add: route_step_def rules_of_route_def)
qed (simp add: route_step_def rules_of_route_def)

lemma fst_routes_loop: "fst (routes_loop i rts st) = fold block_rule (concat (map rules_of_route rts)) (fst st)"
  by (induction i rts st rule: routes_loop.induct) (simp_all add: fst_route_step)

text \<open>The rules of a node are exactly the matches of its block routes, in order: those with the
  prefix \<open>protocol:\<close> become protocol rules without it, all others domain expressions, without
  a prefix \<open>regexp:\<close> if they have one. Other actions and matches of other JSON types add
  nothing and do not stop the loop.\<close>

theorem node_rules_exact:
  "ni_rules (build_node c p cm sec) =
     (let ms = concat (map rules_of_route (cn_routes cm)) in
        \<lparr>rl_regexp = map (trim_prefix ''regexp:'') (filter (\<lambda>v. \<not> has_prefix ''protocol:'' v) ms),
         rl_protocol = map (trim_prefix ''protocol:'') (filter (has_prefix ''protocol:'') ms)\<rparr>)"
  using fst_routes_loop [of 0 "cn_routes cm" "(\<lparr>rl_regexp = [], rl_protocol = []\<rparr>, \<lparr>dns_map = [], dns_json = ''''\<rparr>)"]
  by (auto simp: build_node_def fold_block Let_def split: prod.splits)

text \<open>Two matches the routes get wrong when they come as one string. A block route with the
  empty string yields the empty expression, which, matching every destination as the empty
  regular expression does, makes the node refuse all of them; and a \<open>main\<close> DNS route loses
  every comma of its JSON text, because the string is split at commas and joined with none.\<close>

theorem string_matches_misread:
  "(\<forall>d. re_match '''' d) \<Longrightarrow>
     rl_regexp (fst (route_step i \<lparr>route_id = k, route_match = MString '''', route_action = ''block'', route_value = ''''\<rparr>
        (r, d))) = rl_regexp r @ [''''] \<and>
     (\<forall>l dest. '''' \<in> set (domain_rules l) \<longrightarrow> check_domain_rule re_match dest l) \<and>
     dns_json (snd (route_step i
        \<lparr>route_id = k, route_match = MString (''main,'' @ json), route_action = ''dns'', route_value = ''''\<rparr> (r, d)))
       = filter (\<lambda>ch. ch \<noteq> CHR '','') json"
proof -
  assume re: "\<forall>d. re_match '''' d"
  have "concat (split_on CHR '','' s) = filter (\<lambda>ch. ch \<noteq> CHR '','') s" for s
  proof (induction s)
    case (Cons x xs)
    then show ?case by (cases "split_on CHR '','' xs") auto
  qed simp
  moreover have "join_with '''' ws = concat ws" for ws
    by (induction ws) (auto simp: neq_Nil_conv, case_tac ws, auto)
  moreover have "split_on CHR '','' (''main,'' @ json) = ''main'' # split_on CHR '','' json"
    by simp
  ultimately show ?thesis
    using re by (auto simp: route_step_def route_matches_def block_rule_def has_prefix_def trim_prefix_def
        check_domain_rule_def list_ex_iff)
qed

theorem string_matches_misread_witness:
  "dns_json (snd (route_step 0 \<lparr>route_id = 1, route_match = MString ''main,{a,b}'', route_action = ''dns'', route_value = ''''\<rparr>
     (\<lparr>rl_regexp = [], rl_protocol = []\<rparr>, \<lparr>dns_map = [], dns_json = ''''\<rparr>))) = ''{ab}''"
  using string_matches_misread [of "\<lambda>re d. re = ''''" 0 1 "\<lparr>rl_regexp = [], rl_protocol = []\<rparr>"
      "\<lparr>dns_map = [], dns_json = ''''\<rparr>" "''{a,b}''"] by simp

text \<open>A panel interval of 1 to 9223372036 whole seconds, as a number or a decimal string, becomes
  that duration, and an absent, non-positive or malformed one 60 seconds. But the promise
  that no interval turns a task into a busy loop fails at two edges: a positive number
  below one second becomes 0, and one second more than that range becomes negative.\<close>

theorem interval_range:
  "1 \<le> v \<Longrightarrow> v \<le> 9223372036 \<Longrightarrow>
     interval_to_time (DInt v) = v * second \<and> interval_to_time (DFloat (of_int v)) = v * second \<and>
     interval_to_time (DString (itoa v)) = v * second \<and>
     interval_to_time DNil = 60 * second \<and> interval_to_time (DInt (1 - v)) = 60 * second \<and>
     interval_to_time (DString ''ten'') = 60 * second \<and>
     interval_to_time (DFloat (1 / 2)) = 0 \<and> interval_to_time (DString ''9223372037'') < 0"
proof -
  assume v: "1 \<le> v" "v \<le> 9223372036"
  then have "v * second \<le> max_int64" "min_int64 \<le> v * second" by simp_all
  then have "seconds v = v * second" by (simp add: seconds_def wrap64_id)
  moreover have "atoi_value (itoa v) = v" using v by (simp add: atoi_value_def atoi_itoa)
  moreover have "interval_to_time (DString ''ten'') = 60 * second" "interval_to_time (DString ''9223372037'') < 0"
    by (simp_all add: interval_to_time_def atoi_value_def atoi_def atoi_sign_def parse_uint_def is_digit_def digit_val_def
        seconds_def wrap64_code)
  moreover have "\<lfloor>1 / 2 :: rat\<rfloor> = 0" by (simp add: floor_eq_iff)
  ultimately show ?thesis
    using v by (simp add: interval_to_time_def seconds_def wrap64_id)
qed

theorem interval_range_witness: "interval_to_time (DString (itoa 30)) = 30 * second"
  using interval_range [of 30] by simp


definition ok_reply :: "'b \<Rightarrow> string \<Rightarrow> 'b reply" where
  "ok_reply b etag = \<lparr>r_nil = False, r_err = None, r_status = 200, r_body = b, r_etag = etag\<rparr>"

text \<open>A new configuration is handed out at most once, and it is remembered as known before it is
  decoded. The first call with a body of a new hash returns the node built from it, or the
  decoding error; in both cases every further call with the same body answers \<open>unchanged\<close>.
  So a body that fails to decode (or whose node the caller then drops) is not tried again.\<close>

theorem configuration_given_once:
  "body_hash c \<noteq> sha b \<Longrightarrow> get_node_info parse show sha num (ok_reply b etag) c = (x, c1) \<Longrightarrow>
     (case decode_node num (node_type c) (parse b) of
        Inl e \<Rightarrow> x = Inl e
      | Inr (p, cm, sec) \<Rightarrow> x = Inr (Some (build_node c1 p cm sec))) \<and>
     get_node_info parse show sha num (ok_reply b etag') c1 = (Inr None, c1) \<and>
     get_node_info parse show sha num ((ok_reply b etag')\<lparr>r_status := 304\<rparr>) c1 = (Inr None, c1)"
  by (auto simp: get_node_info_def ok_reply_def check_response_def Let_def split: sum.splits prod.splits)

definition demo_client :: client where
  "demo_client = \<lparr>api_host = ''http://p'', send_ip = '''', api_key = ''k'', node_type = ''trojan'', node_id = 7,
     node_etag = '''', user_etag = '''', body_hash = ''''\<rparr>"

theorem configuration_given_once_witness:
  "\<exists>c1. get_node_info (\<lambda>b. Some (JArr [])) id id (\<lambda>lit. 0) (ok_reply ''[]'' ''e'') demo_client
       = (Inl ''decode trojan params error'', c1)
     \<and> get_node_info (\<lambda>b. Some (JArr [])) id id (\<lambda>lit. 0) (ok_reply ''[]'' ''f'') c1 = (Inr None, c1)"
proof -
  obtain x c1 where r: "get_node_info (\<lambda>b. Some (JArr [])) id id (\<lambda>lit. 0) (ok_reply ''[]'' ''e'') demo_client = (x, c1)"
    by (rule prod.exhaust)
  have d: "decode_node (\<lambda>lit. 0) (node_type demo_client) (Some (JArr [])) = Inl ''decode trojan params error''"
    by (simp add: decode_node_def struct_fields_def demo_client_def)
  have "body_hash demo_client \<noteq> id ''[]''" by (simp add: demo_client_def)
  from configuration_given_once [OF this r] d r show ?thesis by auto
qed

end
