(* ===== verification/Cores.thy ===== *)
theory Cores
  imports XrayUsers PanelNode Conf
begin

text \<open>
  The interface between the node controllers and the proxy cores (\<^verbatim>\<open>core/interface.go\<close>): a core
  is a record of its operations on a state, and the Xray core (\<^verbatim>\<open>core/xray/node.go\<close>,
  \<^verbatim>\<open>user.go\<close>) is such a record. The locale \<open>user_core\<close> is what the controller relies on: which
  users an inbound serves after \<^verbatim>\<open>AddUsers\<close> and \<^verbatim>\<open>DelUsers\<close>. \<open>user_manager\<close> is what the Xray core
  relies on in turn, the documented behaviour of Xray's \<^verbatim>\<open>proxy.UserManager\<close>: adding makes an
  email known or fails, removing makes it unknown, and removing an unknown email fails.
\<close>

section \<open>Operations of a core\<close>

text \<open>The mode of the certificate options; the code reads it without a test for nil, which only an
  explicit \<^verbatim>\<open>"CertConfig": null\<close> gives.\<close>

definition cert_mode :: "node_options \<Rightarrow> string" where
  "cert_mode opts = (case opt_cert opts of None \<Rightarrow> '''' | Some c \<Rightarrow> cc_mode c)"

record 's core_ops =
  co_type :: string
  co_protocols :: "string list"
  co_add_node :: "string \<Rightarrow> node_info \<Rightarrow> node_options \<Rightarrow> 's \<Rightarrow> string option \<times> 's"
  co_del_node :: "string \<Rightarrow> 's \<Rightarrow> string option \<times> 's"
  co_add_users :: "string \<Rightarrow> user_info list \<Rightarrow> node_info \<Rightarrow> 's \<Rightarrow> int \<times> string option \<times> 's"
  co_del_users :: "user_info list \<Rightarrow> string \<Rightarrow> node_info \<Rightarrow> 's \<Rightarrow> string option \<times> 's"
  co_traffic :: "string \<Rightarrow> bool \<Rightarrow> 's \<Rightarrow> user_traffic list \<times> 's"

section \<open>The Xray core\<close>

text \<open>What Xray's configuration builders and handler managers answer for a node.\<close>

record 'u node_build =
  nb_dns :: "string option"
  nb_inbound :: "string + 'u handler"
  nb_add_in :: "string option"
  nb_outbound :: "string option"
  nb_add_out :: "string option"

definition add_node :: "'u node_build \<Rightarrow> string \<Rightarrow> node_options \<Rightarrow> 'u xray \<Rightarrow> string option \<times> 'u xray" where
  "add_node b tag opts x =
     (let x1 = x\<lparr>min_traffic := mput tag (wrap64 (opt_min_traffic opts * 1024)) (min_traffic x)\<rparr> in
        case nb_dns b of Some e \<Rightarrow> (Some (''build dns error: '' @ e), x1)
        | None \<Rightarrow>
            (case nb_inbound b of Inl e \<Rightarrow> (Some (''build inbound error: '' @ e), x1)
             | Inr h \<Rightarrow>
                 (case nb_add_in b of Some e \<Rightarrow> (Some (''add inbound error: '' @ e), x1)
                  | None \<Rightarrow>
                      (let x2 = x1\<lparr>inbounds := mput tag h (inbounds x1)\<rparr> in
                         case nb_outbound b of Some e \<Rightarrow> (Some (''build outbound error: '' @ e), x2)
                         | None \<Rightarrow>
                             (case nb_add_out b of Some e \<Rightarrow> (Some (''add outbound error: '' @ e), x2)
                              | None \<Rightarrow> (None, x2))))))"

text \<open>The fields of \<^verbatim>\<open>NodeInfo\<close> that \<^verbatim>\<open>AddUsers\<close> reads.\<close>

definition proto_of :: "node_info \<Rightarrow> node_proto" where
  "proto_of n = (case ni_proto n of
     VAllss v \<Rightarrow> \<lparr>np_type = ni_type n, np_flow = va_flow v, np_cipher = '''', np_server_key = ''''\<rparr>
   | Shadowsocks s \<Rightarrow> \<lparr>np_type = ni_type n, np_flow = '''', np_cipher = ss_cipher s, np_server_key = ss_server_key s\<rparr>
   | Trojan t \<Rightarrow> \<lparr>np_type = ni_type n, np_flow = '''', np_cipher = '''', np_server_key = ''''\<rparr>)"

text \<open>\<open>build\<close> and \<open>removal\<close> (the errors of the two handler removals) are Xray's answers.\<close>

definition xray_core ::
    "('m, 'u) user_ops \<Rightarrow> (string \<Rightarrow> node_info \<Rightarrow> node_options \<Rightarrow> 'u xray \<Rightarrow> 'u node_build) \<Rightarrow>
     (string \<Rightarrow> 'u xray \<Rightarrow> string option \<times> string option) \<Rightarrow> 'u xray core_ops" where
  "xray_core ops build removal =
     \<lparr>co_type = ''xray'', co_protocols = [''vmess'', ''vless'', ''shadowsocks'', ''trojan''],
      co_add_node = (\<lambda>tag n opts x. add_node (build tag n opts x) tag opts x),
      co_del_node = (\<lambda>tag x. del_node (fst (removal tag x)) (snd (removal tag x)) tag x),
      co_add_users = (\<lambda>tag us n x. add_users ops tag us (proto_of n) x),
      co_del_users = (\<lambda>us tag n x. del_users ops us tag x),
      co_traffic = get_user_traffic_slice\<rparr>"

section \<open>What the layers rely on\<close>

locale user_manager =
  fixes ops :: "('m, 'u) user_ops" and emails :: "'u \<Rightarrow> string set"
  assumes add_known: "to_memory ops u = Inr mu \<Longrightarrow> um_add ops mu s = Inr s' \<Longrightarrow> emails s' = insert (Email u) (emails s)"
    and remove_unknown: "um_remove ops e s = Inr s' \<Longrightarrow> emails s' = emails s - {e}"
    and remove_absent: "e \<notin> emails s \<Longrightarrow> \<exists>err. um_remove ops e s = Inl err"

text \<open>\<open>serves tag s = None\<close>: no inbound that manages users.\<close>

locale user_core =
  fixes core :: "'s core_ops" and serves :: "string \<Rightarrow> 's \<Rightarrow> string set option"
  assumes add_serves: "co_add_users core tag us n s = (k, None, s') \<Longrightarrow>
      \<exists>es. serves tag s = Some es \<and> serves tag s' = Some (es \<union> user_tag tag ` Uuid ` set us)"
    and del_serves: "co_del_users core us tag n s = (None, s') \<Longrightarrow>
      \<exists>es. serves tag s = Some es \<and> serves tag s' = Some (es - user_tag tag ` Uuid ` set us)"
    and del_absent: "u \<in> set us \<Longrightarrow> serves tag s = Some es \<Longrightarrow> user_tag tag (Uuid u) \<notin> es \<Longrightarrow>
      \<exists>err s'. co_del_users core us tag n s = (Some err, s')"
    and del_shrinks: "co_del_users core us tag n s = (err, s') \<Longrightarrow> serves tag s = Some es \<Longrightarrow>
      \<exists>es'. serves tag s' = Some es' \<and> es' \<subseteq> es"
    and traffic_serves: "co_traffic core t reset s = (rows, s') \<Longrightarrow> serves tag s' = serves tag s"

text \<open>When the operations succeed: removals of known emails, additions of unknown ones whose
  account Xray can parse.\<close>

locale complete_manager = user_manager +
  assumes remove_present: "e \<in> emails s \<Longrightarrow> \<exists>s'. um_remove ops e s = Inr s'"
    and add_absent: "to_memory ops u = Inr mu \<Longrightarrow> Email u \<notin> emails s \<Longrightarrow> \<exists>s'. um_add ops mu s = Inr s'"

locale total_core = user_core +
  fixes account_ok :: "string \<Rightarrow> node_info \<Rightarrow> user_info \<Rightarrow> bool"
  assumes del_total: "serves tag s = Some es \<Longrightarrow> distinct (map Uuid us) \<Longrightarrow> user_tag tag ` Uuid ` set us \<subseteq> es \<Longrightarrow>
      \<exists>s'. co_del_users core us tag n s = (None, s')"
    and add_total: "serves tag s = Some es \<Longrightarrow> us \<noteq> [] \<Longrightarrow> distinct (map Uuid us) \<Longrightarrow>
      user_tag tag ` Uuid ` set us \<inter> es = {} \<Longrightarrow> list_all (account_ok tag n) us \<Longrightarrow>
      \<exists>k s'. co_add_users core tag us n s = (k, None, s')"

definition xray_serves :: "('u \<Rightarrow> string set) \<Rightarrow> string \<Rightarrow> 'u xray \<Rightarrow> string set option" where
  "xray_serves emails tag x = (case get_user_manager tag x of Inl e \<Rightarrow> None | Inr um \<Rightarrow> Some (emails um))"

lemma get_set_manager [simp]: "get_user_manager tag (set_user_manager tag um x) = Inr um"
  by (simp add: get_user_manager_def set_user_manager_def)

lemma xray_serves_set [simp]: "xray_serves emails tag (set_user_manager tag um x) = Some (emails um)"
  by (simp add: xray_serves_def)

context user_manager
begin

lemma add_loop_serves:
  "add_loop ops tag vs um x = (None, x') \<Longrightarrow> xray_serves emails tag x' = Some (emails um \<union> Email ` set vs)"
  by (induction vs arbitrary: um) (auto split: sum.splits dest: add_known)

lemma del_loop_serves:
  "del_loop ops tag us um x = (err, x') \<Longrightarrow>
     \<exists>es. xray_serves emails tag x' = Some es \<and> es \<subseteq> emails um
       \<and> (err = None \<longrightarrow> es = emails um - user_tag tag ` Uuid ` set us)"
proof (induction us arbitrary: um x)
  case (Cons u us)
  then show ?case
  proof (cases "um_remove ops (user_tag tag (Uuid u)) um")
    case (Inr um')
    then have "emails um' = emails um - {user_tag tag (Uuid u)}" by (rule remove_unknown)
    then show ?thesis using Cons Inr by fastforce
  qed auto
qed auto

lemma del_loop_absent:
  "u \<in> set us \<Longrightarrow> user_tag tag (Uuid u) \<notin> emails um \<Longrightarrow> \<exists>err x'. del_loop ops tag us um x = (Some err, x')"
proof (induction us arbitrary: um x)
  case (Cons v us)
  show ?case
  proof (cases "um_remove ops (user_tag tag (Uuid v)) um")
    case (Inr um')
    then have em: "emails um' = emails um - {user_tag tag (Uuid v)}" by (rule remove_unknown)
    have "v \<noteq> u" using remove_absent [of "user_tag tag (Uuid v)" um] Cons.prems(2) Inr by auto
    then show ?thesis using Cons Inr em by auto
  qed auto
qed simp

lemma xray_add_serves:
  assumes "add_users ops tag us p x = (k, None, x')"
  shows "\<exists>es. xray_serves emails tag x = Some es \<and> xray_serves emails tag x' = Some (es \<union> user_tag tag ` Uuid ` set us)"
proof -
  let ?x1 = "x\<lparr>uid_map := fold (\<lambda>u. mput (user_tag tag (Uuid u)) (Id u)) us (uid_map x)\<rparr>"
  obtain vs um where b: "build_users tag p us = Some vs" "get_user_manager tag ?x1 = Inr um"
    "add_loop ops tag vs um ?x1 = (None, x')"
    using assms by (auto simp: add_users_def Let_def split: option.splits sum.splits prod.splits)
  have "get_user_manager tag x = get_user_manager tag ?x1" by (simp add: get_user_manager_def)
  moreover have "Email ` set vs = user_tag tag ` Uuid ` set us"
    using arg_cong [OF build_users_emails [OF b(1)], of set] by (simp add: image_image)
  ultimately show ?thesis using b add_loop_serves [OF b(3)] by (simp add: xray_serves_def)
qed

lemma xray_user_core: "user_core (xray_core ops build removal) (xray_serves emails)"
proof
  fix tag us n s k s'
  assume "co_add_users (xray_core ops build removal) tag us n s = (k, None, s')"
  then show "\<exists>es. xray_serves emails tag s = Some es \<and> xray_serves emails tag s' = Some (es \<union> user_tag tag ` Uuid ` set us)"
    by (intro xray_add_serves [of tag us "proto_of n" s k s']) (simp add: xray_core_def)
next
  fix us tag n s s'
  assume "co_del_users (xray_core ops build removal) us tag n s = (None, s')"
  then show "\<exists>es. xray_serves emails tag s = Some es \<and> xray_serves emails tag s' = Some (es - user_tag tag ` Uuid ` set us)"
    by (auto simp: xray_core_def del_users_def xray_serves_def split: sum.splits dest: del_loop_serves)
next
  fix u :: user_info and us tag s es n
  assume "u \<in> set us" "xray_serves emails tag s = Some es" "user_tag tag (Uuid u) \<notin> es"
  then show "\<exists>err s'. co_del_users (xray_core ops build removal) us tag n s = (Some err, s')"
    using del_loop_absent [of u us tag] by (auto simp: xray_core_def del_users_def xray_serves_def split: sum.splits)
next
  fix us tag n s err s' es
  assume d: "co_del_users (xray_core ops build removal) us tag n s = (err, s')" "xray_serves emails tag s = Some es"
  then obtain um where "get_user_manager tag s = Inr um" "es = emails um"
    by (auto simp: xray_serves_def split: sum.splits)
  then show "\<exists>es'. xray_serves emails tag s' = Some es' \<and> es' \<subseteq> es"
    using d(1) del_loop_serves [of tag us um s err s'] by (auto simp: xray_core_def del_users_def)
next
  fix t reset s rows s' tag
  assume "co_traffic (xray_core ops build removal) t reset s = (rows, s')"
  then show "xray_serves emails tag s' = xray_serves emails tag s"
    by (auto simp: xray_core_def get_user_traffic_slice_def xray_serves_def get_user_manager_def
        split: option.splits prod.splits)
qed

end

sublocale user_manager \<subseteq> xc: user_core "xray_core ops build removal" "xray_serves emails" for build removal
  by (rule xray_user_core)

definition xray_account_ok :: "('m, 'u) user_ops \<Rightarrow> string \<Rightarrow> node_info \<Rightarrow> user_info \<Rightarrow> bool" where
  "xray_account_ok ops tag n u \<longleftrightarrow>
     (case build_users tag (proto_of n) [u] of
        None \<Rightarrow> False
      | Some vs \<Rightarrow> list_all (\<lambda>v. case to_memory ops v of Inl e \<Rightarrow> False | Inr m \<Rightarrow> True) vs)"

lemma account_ok_built:
  "us \<noteq> [] \<Longrightarrow> list_all (xray_account_ok ops tag n) us \<Longrightarrow>
     \<exists>vs. build_users tag (proto_of n) us = Some vs \<and> list_all (\<lambda>v. \<exists>m. to_memory ops v = Inr m) vs"
proof -
  have inr: "(case r of Inl e \<Rightarrow> False | Inr m \<Rightarrow> True) \<longleftrightarrow> (\<exists>m. r = Inr m)" for r :: "'x + 'y"
    by (cases r) auto
  assume "us \<noteq> []" "list_all (xray_account_ok ops tag n) us"
  then show ?thesis
    by (cases us) (auto simp: xray_account_ok_def build_users_def list_all_iff inr split: if_splits)
qed

context complete_manager
begin

lemma del_loop_total:
  "distinct (map Uuid (us :: user_info list)) \<Longrightarrow> user_tag tag ` Uuid ` set us \<subseteq> emails um \<Longrightarrow> \<exists>x'. del_loop ops tag us um x = (None, x')"
proof (induction us arbitrary: um x)
  case (Cons u us)
  then obtain um' where um': "um_remove ops (user_tag tag (Uuid u)) um = Inr um'"
    using remove_present [of "user_tag tag (Uuid u)" um] by auto
  have "emails um' = emails um - {user_tag tag (Uuid u)}" by (rule remove_unknown [OF um'])
  moreover have "user_tag tag (Uuid u) \<notin> user_tag tag ` Uuid ` set us"
    using Cons.prems(1) by (simp add: inj_image_mem_iff inj_def)
  ultimately have "user_tag tag ` Uuid ` set us \<subseteq> emails um'"
    using Cons.prems(2) by (simp add: subset_Diff_insert)
  then show ?case using Cons um' by auto
qed simp

lemma add_loop_total:
  "distinct (map Email vs) \<Longrightarrow> Email ` set vs \<inter> emails um = {} \<Longrightarrow> list_all (\<lambda>v. \<exists>m. to_memory ops v = Inr m) vs \<Longrightarrow>
     \<exists>x'. add_loop ops tag vs um x = (None, x')"
proof (induction vs arbitrary: um)
  case (Cons v vs)
  then obtain mu um' where v: "to_memory ops v = Inr mu" "um_add ops mu um = Inr um'"
    using add_absent [of v] by fastforce
  have "emails um' = insert (Email v) (emails um)" by (rule add_known [OF v])
  then have "\<exists>x'. add_loop ops tag vs um' x = (None, x')" using Cons by (intro Cons.IH) auto
  then show ?case using v by auto
qed simp

lemma xray_total_core: "total_core (xray_core ops build removal) (xray_serves emails) (xray_account_ok ops)"
proof (intro total_core.intro total_core_axioms.intro)
  show "user_core (xray_core ops build removal) (xray_serves emails)" by (rule xray_user_core)
next
  fix tag s es n and us :: "user_info list"
  assume "xray_serves emails tag s = Some es" "distinct (map Uuid us)" "user_tag tag ` Uuid ` set us \<subseteq> es"
  then show "\<exists>s'. co_del_users (xray_core ops build removal) us tag n s = (None, s')"
    using del_loop_total [of us tag] by (auto simp: xray_core_def del_users_def xray_serves_def split: sum.splits)
next
  fix tag s es n and us :: "user_info list"
  assume a: "xray_serves emails tag s = Some es" "us \<noteq> []" "distinct (map Uuid us)"
    "user_tag tag ` Uuid ` set us \<inter> es = {}" "list_all (xray_account_ok ops tag n) us"
  obtain vs where vs: "build_users tag (proto_of n) us = Some vs" "list_all (\<lambda>v. \<exists>m. to_memory ops v = Inr m) vs"
    using account_ok_built [OF a(2,5)] by blast
  let ?x1 = "s\<lparr>uid_map := fold (\<lambda>u. mput (user_tag tag (Uuid u)) (Id u)) us (uid_map s)\<rparr>"
  obtain um where um: "get_user_manager tag ?x1 = Inr um" "es = emails um"
    using a(1) by (auto simp: xray_serves_def get_user_manager_def split: sum.splits option.splits handler.splits)
  have em: "map Email vs = map (\<lambda>u. user_tag tag (Uuid u)) us" by (rule build_users_emails [OF vs(1)])
  then have "distinct (map Email vs)" using a(3) by (simp add: distinct_map inj_on_def)
  moreover have "Email ` set vs = user_tag tag ` Uuid ` set us"
    using arg_cong [OF em, of set] by (simp add: image_image)
  ultimately obtain x' where "add_loop ops tag vs um ?x1 = (None, x')"
    using add_loop_total [of vs um tag ?x1] vs(2) a(4) um(2) by auto
  then show "\<exists>k s'. co_add_users (xray_core ops build removal) tag us n s = (k, None, s')"
    by (simp add: xray_core_def add_users_def vs um)
qed

end

sublocale complete_manager \<subseteq> tc: total_core "xray_core ops build removal" "xray_serves emails" "xray_account_ok ops"
  for build removal
  by (rule xray_total_core)

text \<open>Lists of emails are a user manager, with no email twice.\<close>

definition set_ops :: "(string, string list) user_ops" where
  "set_ops = list_ops\<lparr>um_remove := (\<lambda>e us. if e \<in> set us then Inr (removeAll e us) else Inl (''User '' @ e @ '' not found.''))\<rparr>"

interpretation lm: complete_manager set_ops set
  by unfold_locales (auto simp: set_ops_def list_ops_def split: if_splits)

end
