(* ===== verification/PanelWs.thy ===== *)
theory PanelWs
  imports PanelUsers
begin

text \<open>
  The panel's WebSocket client, \<^verbatim>\<open>api/panel/ws.go\<close>: decoding and dispatch of messages, the write
  queue of a connection and its reports, and the reconnect loop. A message's data is its
  JSON tree (\<open>None\<close> if the field is absent). The transport (dialling, frames, deadlines) is
  third-party: a frame read or written is an event. Callbacks are returned as values.
\<close>

section \<open>Messages\<close>

record ws_message =
  ws_event :: string
  ws_data :: "json option"
  ws_timestamp :: int

abbreviation EvSyncDevices :: string where "EvSyncDevices \<equiv> ''sync.devices''"
abbreviation EvReportDevices :: string where "EvReportDevices \<equiv> ''report.devices''"
abbreviation EvRequestDevices :: string where "EvRequestDevices \<equiv> ''request.devices''"
abbreviation EvUserDelta :: string where "EvUserDelta \<equiv> ''sync.user.delta''"
abbreviation EvSyncKick :: string where "EvSyncKick \<equiv> ''sync.kick''"
abbreviation EvReportKick :: string where "EvReportKick \<equiv> ''report.kick''"

type_synonym devices = "(int, string list) gomap"

text \<open>\<^verbatim>\<open>[]string\<close> with the nil slice read as empty.\<close>

definition strings_of :: "json \<Rightarrow> string list option" where
  "strings_of j = map_option (\<lambda>xs. case xs of None \<Rightarrow> [] | Some ys \<Rightarrow> ys) (as_slice as_str j)"

text \<open>The first attempt: a \<^verbatim>\<open>syncDevicesPayload\<close> whose users are not nil.\<close>

definition strict_devices :: "json option \<Rightarrow> devices option" where
  "strict_devices raw =
     (case raw of
        Some (JObj kvs) \<Rightarrow>
          (case (as_map int_key strings_of (field ''users'' kvs), as_int (field ''timestamp'' kvs), as_int (field ''node_id'' kvs)) of
             (Some (Some m), Some t, Some n) \<Rightarrow> Some m
           | _ \<Rightarrow> None)
      | _ \<Rightarrow> None)"

text \<open>The value of one user in the second attempt: an array, an object (whose numeric keys give
  the order), a single string, or nothing usable.\<close>

definition object_ips :: "(string, string) gomap \<Rightarrow> string list" where
  "object_ips ipMap =
     (let keys = sort (concat (map (\<lambda>(k, v). case atoi k of Inr n \<Rightarrow> [n] | Inl e \<Rightarrow> []) ipMap))
      in map (\<lambda>k. mget '''' ipMap (itoa k)) keys)"

definition lax_value :: "json \<Rightarrow> string list option" where
  "lax_value v =
     (case strings_of v of
        Some ips \<Rightarrow> Some ips
      | None \<Rightarrow>
          (case as_map Some as_str v of
             Some m \<Rightarrow> Some (object_ips (case m of None \<Rightarrow> [] | Some ps \<Rightarrow> ps))
           | None \<Rightarrow> map_option (\<lambda>s. [s]) (as_str v)))"

definition lax_step :: "string \<times> json \<Rightarrow> devices \<Rightarrow> devices" where
  "lax_step p out = (case p of (uidStr, v) \<Rightarrow>
     (case atoi uidStr of
        Inl e \<Rightarrow> out
      | Inr uid \<Rightarrow> (case lax_value v of None \<Rightarrow> out | Some ips \<Rightarrow> mput uid ips out)))"

definition lax_users :: "json option \<Rightarrow> (string \<times> json) list option" where
  "lax_users raw =
     (case raw of
        None \<Rightarrow> None
      | Some j \<Rightarrow>
          (case struct_fields j of
             None \<Rightarrow> None
           | Some kvs \<Rightarrow> struct_fields (field ''users'' kvs)))"

definition decode_sync_devices :: "json option \<Rightarrow> devices option" where
  "decode_sync_devices raw =
     (case strict_devices raw of
        Some m \<Rightarrow> Some m
      | None \<Rightarrow> map_option (\<lambda>us. fold lax_step us []) (lax_users raw))"

datatype ws_call = OnDevice devices | OnAddUsers "user_info list" | OnRemoveUsers "int list" | OnKick string string

record callbacks =
  has_device :: bool
  has_remove :: bool
  has_add :: bool
  has_kick :: bool

definition decode_delta :: "json option \<Rightarrow> (string \<times> user_info list) option" where
  "decode_delta data =
     (case data of None \<Rightarrow> None | Some j \<Rightarrow>
        (case struct_fields j of None \<Rightarrow> None | Some kvs \<Rightarrow>
           (case (as_str (field ''action'' kvs), as_slice decode_user (field ''users'' kvs)) of
              (Some a, Some us) \<Rightarrow> Some (a, case us of None \<Rightarrow> [] | Some xs \<Rightarrow> xs)
            | _ \<Rightarrow> None)))"

definition decode_kick :: "json option \<Rightarrow> (string \<times> string) option" where
  "decode_kick data =
     (case data of None \<Rightarrow> None | Some j \<Rightarrow>
        (case struct_fields j of None \<Rightarrow> None | Some kvs \<Rightarrow>
           (case (as_str (field ''email'' kvs), as_str (field ''ip'' kvs)) of
              (Some e, Some i) \<Rightarrow> Some (e, i) | _ \<Rightarrow> None)))"

definition handle_message :: "callbacks \<Rightarrow> ws_message \<Rightarrow> ws_call list" where
  "handle_message cb msg =
     (if ws_event msg = EvSyncDevices then
        (case decode_sync_devices (ws_data msg) of
           None \<Rightarrow> [] | Some users \<Rightarrow> (if has_device cb then [OnDevice users] else []))
      else if ws_event msg = EvUserDelta then
        (case decode_delta (ws_data msg) of
           None \<Rightarrow> []
         | Some (action, users) \<Rightarrow>
             if action = ''add'' then (if has_add cb \<and> users \<noteq> [] then [OnAddUsers users] else [])
             else if action = ''remove'' then
               (if \<not> has_remove cb then []
                else let ids = map Id (filter (\<lambda>u. Id u > 0) users) in
                  if ids \<noteq> [] then [OnRemoveUsers ids] else [])
             else [])
      else if ws_event msg = EvSyncKick then
        (case decode_kick (ws_data msg) of
           None \<Rightarrow> [] | Some (email, ip) \<Rightarrow> (if has_kick cb \<and> ip \<noteq> '''' then [OnKick email ip] else []))
      else [])"

section \<open>A connection and its write queue\<close>

record ws =
  connected :: bool
  write_ch :: "ws_message list option" \<comment> \<open>the buffered channel of the connection, oldest first\<close>
  written :: "ws_message list" \<comment> \<open>history: what this connection has written to the panel\<close>
  accepted :: "ws_message list" \<comment> \<open>history: what this connection has taken into its queue\<close>

definition chan_cap :: nat where "chan_cap = 16"

definition new_ws :: ws where
  "new_ws = \<lparr>connected = False, write_ch = None, written = [], accepted = []\<rparr>"

text \<open>\<^verbatim>\<open>select { case ch <- msg: true default: false }\<close>\<close>

definition try_send :: "ws_message \<Rightarrow> ws \<Rightarrow> bool \<times> ws" where
  "try_send msg w =
     (case write_ch w of
        None \<Rightarrow> (False, w)
      | Some q \<Rightarrow>
          if length q < chan_cap then (True, w\<lparr>write_ch := Some (q @ [msg]), accepted := accepted w @ [msg]\<rparr>)
          else (False, w))"

text \<open>\<^verbatim>\<open>map[int][]string\<close> and a \<^verbatim>\<open>kickPayload\<close> as JSON\<close>

definition devices_json :: "devices \<Rightarrow> json" where
  "devices_json m = JObj (map (\<lambda>(uid, ips). (itoa uid, JArr (map JStr ips))) m)"

definition kick_json :: "int \<Rightarrow> string \<Rightarrow> string \<Rightarrow> json" where
  "kick_json uid email ip = JObj [(''user_id'', JNum (itoa uid)), (''email'', JStr email), (''ip'', JStr ip)]"

definition send_device_report :: "int \<Rightarrow> devices \<Rightarrow> ws \<Rightarrow> bool \<times> ws" where
  "send_device_report unix m w =
     (if \<not> connected w then (False, w)
      else try_send \<lparr>ws_event = EvReportDevices, ws_data = Some (devices_json m), ws_timestamp = unix\<rparr> w)"

definition send_kick_report :: "int \<Rightarrow> int \<Rightarrow> string \<Rightarrow> string \<Rightarrow> ws \<Rightarrow> bool \<times> ws" where
  "send_kick_report unix uid email ip w =
     (if \<not> connected w then (False, w)
      else try_send \<lparr>ws_event = EvReportKick, ws_data = Some (kick_json uid email ip), ws_timestamp = unix\<rparr> w)"

text \<open>\<^verbatim>\<open>connect\<close> by its steps. The first frame decides whether the connection stands, and is handled
  itself if it is no \<open>auth.success\<close>; then the queue is installed with the request for the
  global table; the reader handles a frame and answers a ping; the writer writes the oldest
  message; on leaving, the queue is dropped and \<^verbatim>\<open>Run\<close> clears the flag.\<close>

definition ws_first :: "callbacks \<Rightarrow> ws_message \<Rightarrow> ws \<Rightarrow> (ws_call list option) \<times> ws" where
  "ws_first cb msg w =
     (if ws_event msg = ''error'' then (None, w)
      else if ws_event msg \<noteq> ''auth.success'' then (Some (handle_message cb msg), w\<lparr>connected := True\<rparr>)
      else (Some [], w\<lparr>connected := True\<rparr>))"

definition ws_install :: "ws \<Rightarrow> ws" where
  "ws_install w =
     snd (try_send \<lparr>ws_event = EvRequestDevices, ws_data = None, ws_timestamp = 0\<rparr>
       (w\<lparr>write_ch := Some [], written := [], accepted := []\<rparr>))"

definition ws_read :: "callbacks \<Rightarrow> ws_message \<Rightarrow> ws \<Rightarrow> ws_call list \<times> ws" where
  "ws_read cb msg w =
     (handle_message cb msg,
      if ws_event msg = ''ping'' then snd (try_send \<lparr>ws_event = ''pong'', ws_data = None, ws_timestamp = 0\<rparr> w) else w)"

definition ws_write :: "ws \<Rightarrow> ws" where
  "ws_write w = (case write_ch w of
     Some (msg # q) \<Rightarrow> w\<lparr>write_ch := Some q, written := written w @ [msg]\<rparr> | _ \<Rightarrow> w)"

definition ws_leave :: "ws \<Rightarrow> ws" where
  "ws_leave w = w\<lparr>write_ch := None\<rparr>"

definition ws_mark_down :: "ws \<Rightarrow> bool \<times> ws" where
  "ws_mark_down w = (connected w, w\<lparr>connected := False\<rparr>)"

inductive ws_step :: "ws \<Rightarrow> ws \<Rightarrow> bool" where
  ws_first: "write_ch w = None \<Longrightarrow> ws_first cb msg w = (Some calls, w') \<Longrightarrow> ws_step w w'"
| ws_install: "connected w \<Longrightarrow> write_ch w = None \<Longrightarrow> ws_step w (ws_install w)"
| ws_read: "write_ch w \<noteq> None \<Longrightarrow> ws_read cb msg w = (calls, w') \<Longrightarrow> ws_step w w'"
| ws_write: "ws_step w (ws_write w)"
| ws_leave: "ws_step w (ws_leave w)"
| ws_mark_down: "write_ch w = None \<Longrightarrow> ws_step w (snd (ws_mark_down w))"
| ws_devices: "send_device_report unix m w = (ok, w') \<Longrightarrow> ws_step w w'"
| ws_kick: "send_kick_report unix uid email ip w = (ok, w') \<Longrightarrow> ws_step w w'"

inductive_cases ws_stepE: "ws_step w w'"

section \<open>The reconnect loop\<close>

definition max_backoff :: int where "max_backoff = 60 * second"

text \<open>One round of \<^verbatim>\<open>Run\<close> after a failed or ended connection: whether it had stood for more than
  two minutes, the random number of \<^verbatim>\<open>rand.Int63n(backoff / 5)\<close>; the wait and the next backoff.\<close>

definition backoff_base :: "bool \<Rightarrow> int \<Rightarrow> int" where
  "backoff_base steady b = (if steady then second else b)"

definition backoff_round :: "bool \<Rightarrow> int \<Rightarrow> int \<Rightarrow> int \<times> int" where
  "backoff_round steady jitter b =
     (let b1 = backoff_base steady b in
        (b1 + jitter, if b1 < max_backoff then b1 * 2 else b1))"

definition jitter_ok :: "bool \<Rightarrow> int \<Rightarrow> int \<Rightarrow> bool" where
  "jitter_ok steady b jitter \<longleftrightarrow> 0 \<le> jitter \<and> jitter < backoff_base steady b div 5"

text \<open>The backoff after the rounds, and their waits.\<close>

fun backoff_run :: "(bool \<times> int) list \<Rightarrow> int \<Rightarrow> int list \<times> int" where
  "backoff_run [] b = ([], b)"
| "backoff_run ((steady, jitter) # rs) b =
     (case backoff_round steady jitter b of (w, b1) \<Rightarrow>
        (case backoff_run rs b1 of (ws, b2) \<Rightarrow> (w # ws, b2)))"

fun jitters_ok :: "(bool \<times> int) list \<Rightarrow> int \<Rightarrow> bool" where
  "jitters_ok [] b \<longleftrightarrow> True"
| "jitters_ok ((steady, jitter) # rs) b \<longleftrightarrow>
     jitter_ok steady b jitter \<and> jitters_ok rs (snd (backoff_round steady jitter b))"


section \<open>Reconnecting\<close>

definition backoff_ok :: "int \<Rightarrow> bool" where
  "backoff_ok b \<longleftrightarrow> b \<in> {second, 2 * second, 4 * second, 8 * second, 16 * second, 32 * second, 64 * second}"

lemma backoff_round_ok:
  "backoff_ok b \<Longrightarrow> jitter_ok steady b j \<Longrightarrow> backoff_round steady j b = (w, b') \<Longrightarrow>
     backoff_ok b' \<and> second \<le> w \<and> 5 * w < 384 * second \<and> 0 < backoff_base steady b div 5"
  by (auto simp: backoff_ok_def jitter_ok_def backoff_round_def backoff_base_def max_backoff_def Let_def split: if_splits)

lemma backoff_run_ok:
  "backoff_ok b \<Longrightarrow> jitters_ok rs b \<Longrightarrow> backoff_run rs b = (waits, b') \<Longrightarrow>
     backoff_ok b' \<and> (\<forall>w \<in> set waits. second \<le> w \<and> 5 * w < 384 * second)"
proof (induction rs arbitrary: b waits)
  case (Cons r rs)
  obtain steady j where r: "r = (steady, j)" by (cases r)
  obtain w b1 where round: "backoff_round steady j b = (w, b1)" by (rule prod.exhaust)
  obtain waits1 where run: "backoff_run rs b1 = (waits1, b')" "waits = w # waits1"
    using Cons.prems(3) by (auto simp: r round split: prod.splits)
  have "jitter_ok steady b j" "jitters_ok rs b1" using Cons.prems(2) by (simp_all add: r round)
  then show ?case
    using backoff_round_ok [OF Cons.prems(1) _ round] Cons.IH [OF _ _ run(1)] run(2) by auto
qed simp

text \<open>Whatever connections come and go, the reconnect loop waits at least one second and less
  than 76.8 seconds, its backoff is always one of 1, 2, 4 up to 64 seconds (so the argument
  of \<^verbatim>\<open>rand.Int63n\<close> is positive and the call cannot panic), and a connection that has stood
  resets it. Six failures in a row take it to 64 seconds, beyond the declared maximum of 60.\<close>

theorem reconnect_backoff:
  "jitters_ok rs second \<Longrightarrow> backoff_run rs second = (waits, b) \<Longrightarrow>
     b \<in> {second, 2 * second, 4 * second, 8 * second, 16 * second, 32 * second, 64 * second} \<and>
     0 < backoff_base steady b div 5 \<and>
     list_all (\<lambda>w. second \<le> w \<and> 5 * w < 384 * second) waits \<and>
     snd (backoff_round True 0 b) = 2 * second \<and>
     snd (backoff_run (replicate 6 (False, 0)) second) = 64 * second \<and> max_backoff < 64 * second"
proof -
  assume "jitters_ok rs second" "backoff_run rs second = (waits, b)"
  moreover have "backoff_ok second" by (simp add: backoff_ok_def)
  ultimately have b: "backoff_ok b" and w: "\<forall>w \<in> set waits. second \<le> w \<and> 5 * w < 384 * second"
    using backoff_run_ok by blast+
  have "0 < backoff_base steady b div 5"
    using b by (auto simp: backoff_ok_def backoff_base_def)
  moreover have "snd (backoff_run (replicate 6 (False, 0)) second) = 64 * second"
    by (simp add: numeral_eq_Suc backoff_round_def backoff_base_def max_backoff_def)
  ultimately show ?thesis
    using b w by (simp add: backoff_ok_def list_all_iff backoff_round_def backoff_base_def max_backoff_def)
qed

theorem reconnect_backoff_witness:
  "snd (backoff_run [(False, 100000000), (False, 0), (True, 7)] second)
     \<in> {second, 2 * second, 4 * second, 8 * second, 16 * second, 32 * second, 64 * second}"
proof -
  obtain waits b where r: "backoff_run [(False, 100000000), (False, 0), (True, 7)] second = (waits, b)"
    by (rule prod.exhaust)
  have "jitters_ok [(False, 100000000), (False, 0), (True, 7)] second"
    by (simp add: jitter_ok_def backoff_round_def backoff_base_def max_backoff_def)
  from reconnect_backoff [OF this r] show ?thesis unfolding r snd_conv by (rule conjunct1)
qed

section \<open>The write queue\<close>

definition request_devices :: ws_message where
  "request_devices = \<lparr>ws_event = EvRequestDevices, ws_data = None, ws_timestamp = 0\<rparr>"

definition ws_inv :: "ws \<Rightarrow> bool" where
  "ws_inv w \<longleftrightarrow> (case write_ch w of
     None \<Rightarrow> (\<exists>lost. accepted w = written w @ lost)
   | Some q \<Rightarrow> accepted w = written w @ q \<and> length q \<le> chan_cap \<and> accepted w \<noteq> [] \<and> hd (accepted w) = request_devices)"

lemma ws_inv_new: "ws_inv new_ws"
  by (simp add: ws_inv_def new_ws_def)

lemma ws_inv_send: "ws_inv w \<Longrightarrow> try_send m w = (ok, w') \<Longrightarrow> ws_inv w'"
  by (auto simp: try_send_def ws_inv_def hd_append split: option.splits if_splits)

lemma ws_inv_send_snd: "ws_inv w \<Longrightarrow> ws_inv (snd (try_send m w))"
  by (erule ws_inv_send) (rule prod.collapse [symmetric])

lemma ws_inv_connected [simp]: "ws_inv (w\<lparr>connected := b\<rparr>) = ws_inv w"
  by (simp add: ws_inv_def split: option.splits)

lemma ws_inv_install: "ws_inv (ws_install w)"
  by (simp add: ws_install_def try_send_def ws_inv_def request_devices_def chan_cap_def)

lemma ws_inv_write: "ws_inv w \<Longrightarrow> ws_inv (ws_write w)"
  by (auto simp: ws_write_def ws_inv_def split: option.splits list.splits)

lemma ws_inv_leave: "ws_inv w \<Longrightarrow> ws_inv (ws_leave w)"
  by (auto simp: ws_leave_def ws_inv_def split: option.splits)

lemma ws_inv_step: "ws_step w w' \<Longrightarrow> ws_inv w \<Longrightarrow> ws_inv w'"
  by (erule ws_stepE)
    (auto simp: ws_first_def ws_read_def ws_mark_down_def send_device_report_def send_kick_report_def
      ws_inv_install ws_inv_write ws_inv_leave ws_inv_send_snd intro: ws_inv_send split: if_splits)

interpretation ws: kept_by_steps ws_step ws_inv
  by unfold_locales (rule ws_inv_step)

text \<open>C35. In every run of the client, what a connection has written is what it has accepted, in the
  same order and without gaps, and while it stands the rest waits in its queue of at most 16
  messages. The first message of every connection is the request for the global device
  table, and a report is refused (so that the caller keeps it) exactly when there is no
  connection or the queue is full.\<close>

theorem write_queue_is_fifo:
  "ws_step\<^sup>*\<^sup>* new_ws w \<Longrightarrow> write_ch w = Some q \<Longrightarrow>
     accepted w = written w @ q \<and> length q \<le> 16 \<and> accepted w \<noteq> [] \<and> hd (accepted w) = request_devices \<and>
     (fst (send_device_report unix m w) \<longleftrightarrow> connected w \<and> length q < 16) \<and>
     (fst (send_kick_report unix uid email ip w) \<longleftrightarrow> connected w \<and> length q < 16)"
  using ws.reach_keeps [OF _ ws_inv_new, of w]
  by (auto simp: ws_inv_def chan_cap_def send_device_report_def send_kick_report_def try_send_def)

theorem write_queue_is_fifo_witness:
  "accepted (ws_write (ws_install (new_ws\<lparr>connected := True\<rparr>))) = [request_devices]"
proof -
  let ?u = "new_ws\<lparr>connected := True\<rparr>"
  have "ws_step new_ws ?u"
    by (rule ws_first [where msg = "\<lparr>ws_event = ''auth.success'', ws_data = None, ws_timestamp = 0\<rparr>"])
      (simp_all add: ws_first_def new_ws_def)
  moreover have "ws_step ?u (ws_install ?u)"
    by (rule ws_install) (simp_all add: new_ws_def)
  ultimately have "ws_step\<^sup>*\<^sup>* new_ws (ws_write (ws_install ?u))"
    by (meson ws_write rtranclp.rtrancl_into_rtrancl rtranclp.rtrancl_refl)
  moreover have "write_ch (ws_write (ws_install ?u)) = Some []"
    "written (ws_write (ws_install ?u)) = [request_devices]"
    by (simp_all add: ws_write_def ws_install_def try_send_def chan_cap_def request_devices_def)
  ultimately show ?thesis
    using write_queue_is_fifo by auto
qed


section \<open>The device table over the wire\<close>

lemma field_refl [simp]: "fold_eq a a"
  by (simp add: fold_eq_def)

lemma int_key_itoa: "min_int64 \<le> i \<Longrightarrow> i \<le> max_int64 \<Longrightarrow> int_key (itoa i) = Some i"
  by (simp add: int_key_def atoi_itoa)

lemma strings_of_strings [simp]: "strings_of (JArr (map JStr ips)) = Some ips"
proof -
  have "map_all as_str (map JStr ips) = Some ips" by (induction ips) auto
  then show ?thesis by (simp add: strings_of_def)
qed

lemma fold_mput_id_aux: "wf_map (m0 @ m) \<Longrightarrow> fold (\<lambda>(k, v). mput k v) m m0 = m0 @ m"
proof (induction m arbitrary: m0)
  case (Cons p m)
  obtain k v where p: "p = (k, v)" by (cases p)
  have "k \<notin> fst ` set m0" using Cons.prems by (auto simp: p wf_map_def)
  then have "mput k v m0 = m0 @ [(k, v)]"
    unfolding mput_def by (induction m0) auto
  then show ?case using Cons by (simp add: p)
qed simp

lemma fold_mput_id: "wf_map m \<Longrightarrow> fold (\<lambda>(k, v). mput k v) m [] = m"
  using fold_mput_id_aux [of "[]" m] by simp

lemma as_map_devices:
  assumes "wf_map m" "\<And>uid ips. (uid, ips) \<in> set m \<Longrightarrow> min_int64 \<le> uid \<and> uid \<le> max_int64"
  shows "as_map int_key strings_of (devices_json m) = Some (Some m)"
proof -
  let ?f = "\<lambda>(k, v). case int_key k of None \<Rightarrow> None
      | Some k' \<Rightarrow> (case strings_of v of None \<Rightarrow> None | Some v' \<Rightarrow> Some (k', v'))"
  have "\<forall>q \<in> set m. int_key (itoa (fst q)) = Some (fst q)"
    using assms(2) by (auto simp: int_key_itoa)
  then have "map_all ?f (map (\<lambda>(uid, ips). (itoa uid, JArr (map JStr ips))) m) = Some m"
    by (induction m) (simp_all add: case_prod_unfold)
  then show ?thesis
    by (simp add: devices_json_def fold_mput_id [OF assms(1)])
qed

text \<open>The tables as the panel may send them: lists as arrays, or as the objects PHP makes of arrays
  with gaps, whose keys are the remaining indices.\<close>

definition gap_json :: "(int \<times> string) list \<Rightarrow> json" where
  "gap_json ps = JObj (map (\<lambda>(k, ip). (itoa k, JStr ip)) ps)"

lemma as_map_gap:
  assumes "distinct (map fst ps)"
  shows "as_map Some as_str (gap_json ps) = Some (Some (map (\<lambda>(k, ip). (itoa k, ip)) ps))"
proof -
  have "map_all (\<lambda>(k, v). case Some k of None \<Rightarrow> None
      | Some k' \<Rightarrow> (case as_str v of None \<Rightarrow> None | Some v' \<Rightarrow> Some (k', v')))
      (map (\<lambda>(k, ip). (itoa k, JStr ip)) ps) = Some (map (\<lambda>(k, ip). (itoa k, ip)) ps)"
    by (induction ps) auto
  moreover have "wf_map (map (\<lambda>(k, ip). (itoa k, ip)) ps)"
    using assms itoa_inject by (auto simp: wf_map_def comp_def case_prod_unfold distinct_map inj_on_def)
  ultimately show ?thesis
    by (simp add: gap_json_def fold_mput_id)
qed

lemma lookup_gap: "(k, ip) \<in> set ps \<Longrightarrow> distinct (map fst ps) \<Longrightarrow> mget '''' (map (\<lambda>(k, ip). (itoa k, ip)) ps) (itoa k) = ip"
proof -
  assume kip: "(k, ip) \<in> set ps" and d: "distinct (map fst ps)"
  have "map_of (map (\<lambda>(k, ip). (itoa k, ip)) ps) (itoa k) = Some ip"
  proof (rule map_of_is_SomeI)
    show "distinct (map fst (map (\<lambda>(k, ip). (itoa k, ip)) ps))"
      using d itoa_inject by (auto simp: comp_def case_prod_unfold distinct_map inj_on_def)
    show "(itoa k, ip) \<in> set (map (\<lambda>(k, ip). (itoa k, ip)) ps)" using kip by force
  qed
  then show ?thesis by (simp add: mget_def)
qed

lemma lax_gap:
  assumes "distinct (map fst ps)" "\<forall>k \<in> fst ` set ps. min_int64 \<le> k \<and> k \<le> max_int64"
  shows "lax_value (gap_json ps) = Some (map snd (sort_key fst ps))"
proof -
  let ?m = "map (\<lambda>(k, ip). (itoa k, ip)) ps"
  have "\<forall>q \<in> set ps. atoi (itoa (fst q)) = Inr (fst q)"
    using assms(2) by (auto simp: atoi_itoa)
  then have "concat (map (\<lambda>(k, v). case atoi k of Inr n \<Rightarrow> [n] | Inl e \<Rightarrow> []) ?m) = map fst ps"
    by (induction ps) (simp_all add: case_prod_unfold)
  moreover have "sort (map fst ps) = map fst (sort_key fst ps)"
  proof (rule properties_for_sort)
    show "mset (map fst (sort_key fst ps)) = mset (map fst ps)"
      by (metis mset_map mset_sort)
    show "sorted (map fst (sort_key fst ps))" by (rule sorted_sort_key)
  qed
  moreover have "map (\<lambda>k. mget '''' ?m (itoa k)) (map fst (sort_key fst ps)) = map snd (sort_key fst ps)"
  proof -
    have "mget '''' ?m (itoa (fst q)) = snd q" if "q \<in> set ps" for q
      using lookup_gap [of "fst q" "snd q" ps] that assms(1) by simp
    then show ?thesis unfolding map_map comp_def by (intro map_cong) simp_all
  qed
  ultimately have "object_ips ?m = map snd (sort_key fst ps)"
    by (simp add: object_ips_def Let_def)
  moreover have "strings_of (gap_json ps) = None" by (simp add: strings_of_def gap_json_def)
  ultimately show ?thesis by (simp add: lax_value_def as_map_gap [OF assms(1)])
qed

text \<open>What \<^verbatim>\<open>json_encode\<close> makes of a PHP array of strings: an array exactly when its keys are
  \<open>0, 1, \<dots>\<close> in this order.\<close>

definition php_array :: "(int \<times> string) list \<Rightarrow> json" where
  "php_array ps = (if map fst ps = map int [0..<length ps] then JArr (map JStr (map snd ps)) else gap_json ps)"

definition php_table :: "(int \<times> (int \<times> string) list) list \<Rightarrow> json" where
  "php_table us = JObj (map (\<lambda>(uid, ps). (itoa uid, php_array ps)) us)"

definition php_keys_ok :: "(int \<times> string) list \<Rightarrow> bool" where
  "php_keys_ok ps \<longleftrightarrow> distinct (map fst ps) \<and> list_all (\<lambda>k. min_int64 \<le> k \<and> k \<le> max_int64) (map fst ps)"

definition php_table_ok :: "(int \<times> (int \<times> string) list) list \<Rightarrow> bool" where
  "php_table_ok us \<longleftrightarrow> distinct (map fst us) \<and> list_all (\<lambda>k. min_int64 \<le> k \<and> k \<le> max_int64) (map fst us)
     \<and> list_all php_keys_ok (map snd us)"

lemma php_array_list: "map fst ps = map int [0..<length ps] \<Longrightarrow> sort_key fst ps = ps"
proof -
  assume a: "map fst ps = map int [0..<length ps]"
  have "sorted (map int [0..<length ps])"
    by (intro sorted_iff_nth_mono_less [THEN iffD2] allI impI) simp
  then show ?thesis using a by (simp add: sorted_sort_id sort_key_id_if_sorted)
qed

lemma php_strings: "strings_of (php_array ps) = Some ips \<Longrightarrow> ips = map snd (sort_key fst ps)"
proof (cases "map fst ps = map int [0..<length ps]")
  case True
  assume "strings_of (php_array ps) = Some ips"
  then show ?thesis
    using True strings_of_strings [of "map snd ps"] by (simp add: php_array_def php_array_list)
next
  case False
  assume "strings_of (php_array ps) = Some ips"
  then show ?thesis
    using False by (auto simp: php_array_def gap_json_def strings_of_def)
qed

lemma lax_php: "php_keys_ok ps \<Longrightarrow> lax_value (php_array ps) = Some (map snd (sort_key fst ps))"
proof (cases "map fst ps = map int [0..<length ps]")
  case True
  then show ?thesis
    using strings_of_strings [of "map snd ps"] by (simp add: php_array_def lax_value_def php_array_list)
next
  case False
  assume "php_keys_ok ps"
  then show ?thesis
    using False lax_gap [of ps] by (simp add: php_array_def php_keys_ok_def list_all_iff)
qed

definition sorted_ips :: "int \<times> (int \<times> string) list \<Rightarrow> int \<times> string list" where
  "sorted_ips p = (fst p, map snd (sort_key fst (snd p)))"

lemma wf_sorted_ips: "distinct (map fst us) \<Longrightarrow> wf_map (map sorted_ips us)"
  by (simp add: wf_map_def sorted_ips_def comp_def)

lemma strict_php_aux:
  assumes "\<forall>p \<in> set us. int_key (itoa (fst p)) = Some (fst p)"
    "map_all (\<lambda>(k, v). case int_key k of None \<Rightarrow> None
       | Some k' \<Rightarrow> (case strings_of v of None \<Rightarrow> None | Some v' \<Rightarrow> Some (k', v')))
       (map (\<lambda>(uid, ps). (itoa uid, php_array ps)) us) = Some m"
  shows "m = map sorted_ips us"
  using assms
  by (induction us arbitrary: m)
    (auto simp: sorted_ips_def split: option.splits dest: php_strings)

lemma strict_php:
  assumes "php_table_ok us" "strict_devices (Some (JObj [(''users'', php_table us)])) = Some m"
  shows "m = map sorted_ips us"
proof -
  have keys: "\<forall>p \<in> set us. int_key (itoa (fst p)) = Some (fst p)"
    using assms(1) by (auto simp: php_table_ok_def list_all_iff int_key_itoa)
  obtain ps where ps: "map_all (\<lambda>(k, v). case int_key k of None \<Rightarrow> None
       | Some k' \<Rightarrow> (case strings_of v of None \<Rightarrow> None | Some v' \<Rightarrow> Some (k', v')))
       (map (\<lambda>(uid, ps). (itoa uid, php_array ps)) us) = Some ps" "m = fold (\<lambda>(k, v). mput k v) ps []"
    using assms(2) by (auto simp: strict_devices_def php_table_def split: option.splits)
  have "ps = map sorted_ips us" by (rule strict_php_aux [OF keys ps(1)])
  moreover have "wf_map (map sorted_ips us)"
    using assms(1) wf_sorted_ips by (simp add: php_table_ok_def)
  ultimately show ?thesis by (simp add: ps(2) fold_mput_id)
qed

lemma lax_step_php:
  "min_int64 \<le> fst p \<and> fst p \<le> max_int64 \<Longrightarrow> php_keys_ok (snd p) \<Longrightarrow>
     lax_step (itoa (fst p), php_array (snd p)) out = mput (fst p) (snd (sorted_ips p)) out"
  by (simp add: lax_step_def atoi_itoa lax_php sorted_ips_def)

lemma lax_fold_php:
  "list_all (\<lambda>p. min_int64 \<le> fst p \<and> fst p \<le> max_int64 \<and> php_keys_ok (snd p)) us \<Longrightarrow>
     fold lax_step (map (\<lambda>(uid, ps). (itoa uid, php_array ps)) us) out
       = fold (\<lambda>(k, v). mput k v) (map sorted_ips us) out"
  by (induction us arbitrary: out) (auto simp: lax_step_php [of "(a, b)" for a b, simplified] sorted_ips_def)

text \<open>C36. Device tables of a PHP panel are decoded without loss: whether a user's address list is
  sent as an array or, after the removal of duplicates, as an object with gaps in its
  indices, \<^verbatim>\<open>decodeSyncDevices\<close> returns for every user his addresses in the order of the
  indices. The exception is the empty table: PHP encodes it as an array, which is rejected
  (the caller then keeps the old table).\<close>

theorem php_tables_decoded:
  "php_table_ok us \<Longrightarrow>
     decode_sync_devices (Some (JObj [(''users'', php_table us)]))
       = Some (map (\<lambda>(uid, ps). (uid, map snd (sort_key fst ps))) us)
   \<and> decode_sync_devices (Some (JObj [(''users'', JArr [])])) = None"
proof -
  assume ok: "php_table_ok us"
  let ?raw = "Some (JObj [(''users'', php_table us)])"
  have eq: "map (\<lambda>(uid, ps). (uid, map snd (sort_key fst ps))) us = map sorted_ips us"
    by (simp add: sorted_ips_def case_prod_unfold)
  have "decode_sync_devices ?raw = Some (map sorted_ips us)"
  proof (cases "strict_devices ?raw")
    case (Some m)
    then show ?thesis using strict_php [OF ok] by (simp add: decode_sync_devices_def)
  next
    case None
    have "list_all (\<lambda>p. min_int64 \<le> fst p \<and> fst p \<le> max_int64 \<and> php_keys_ok (snd p)) us"
      using ok by (auto simp: php_table_ok_def list_all_iff)
    then have "fold lax_step (map (\<lambda>(uid, ps). (itoa uid, php_array ps)) us) [] = map sorted_ips us"
      using ok by (simp add: lax_fold_php fold_mput_id wf_sorted_ips php_table_ok_def)
    then show ?thesis
      using None by (simp add: decode_sync_devices_def lax_users_def php_table_def struct_fields_def)
  qed
  moreover have "decode_sync_devices (Some (JObj [(''users'', JArr [])])) = None"
    by (simp add: decode_sync_devices_def strict_devices_def lax_users_def struct_fields_def)
  ultimately show ?thesis unfolding eq by blast
qed

theorem php_tables_decoded_witness:
  "decode_sync_devices (Some (JObj [(''users'',
      JObj [(''7'', JObj [(''0'', JStr ''a''), (''2'', JStr ''b'')]), (''9'', JArr [JStr ''c''])])]))
     = Some [(7, [''a'', ''b'']), (9, [''c''])]"
proof -
  have ok: "php_table_ok [(7, [(0, ''a''), (2, ''b'')]), (9, [(0, ''c'')])]" by code_simp
  have eq: "php_table [(7, [(0, ''a''), (2, ''b'')]), (9, [(0, ''c'')])]
      = JObj [(''7'', JObj [(''0'', JStr ''a''), (''2'', JStr ''b'')]), (''9'', JArr [JStr ''c''])]"
    by code_simp
  show ?thesis using php_tables_decoded [OF ok] unfolding eq by simp
qed

end
