(* ===== verification/Tasks.thy ===== *)
theory Tasks
  imports Prelude
begin

text \<open>
  The periodic tasks of \<^verbatim>\<open>common/task/task.go\<close>: every poll and report of a node runs on one.
  A task owns a loop goroutine that waits for the interval or for its stop channel and then
  runs \<^verbatim>\<open>Execute\<close> in a second goroutine with a timeout. \<open>task_do\<close> is one atomic piece of
  \<^verbatim>\<open>Start\<close>, \<^verbatim>\<open>Close\<close>, the loop or the execution goroutine; the pieces are cut where the Go
  code lets another goroutine in (its lock regions, channel operations and \<^verbatim>\<open>select\<close>s).
  Channels are numbers; \<open>closed\<close> are those already closed, and closing one twice (or a nil
  channel) panics, which ends the process: a state with \<open>panicked\<close> has no steps.
\<close>

section \<open>State and steps\<close>

text \<open>An execution goroutine: inside \<^verbatim>\<open>Execute\<close>; done, its result (\<open>True\<close> for an error or a
  recovered panic) in the buffered channel but \<^verbatim>\<open>inFlight\<close> not yet reset; finished.\<close>

datatype exec_phase = ExRun | ExSent bool | ExDone bool

text \<open>A loop goroutine: at the head of its \<^verbatim>\<open>select\<close>; waiting there on the channel \<^verbatim>\<open>t.stop\<close>
  held when the \<^verbatim>\<open>select\<close> was entered; about to call \<^verbatim>\<open>executeWithTimeout\<close>; in it, waiting
  for an execution or the timeout; back with an error; returned.\<close>

datatype loop_phase = LSelect | LWait nat | LEnter | LExec nat | LFail | LDone

record task =
  running :: bool
  stop :: "nat option"
  closed :: "nat list"
  next_chan :: nat
  in_flight :: bool
  loops :: "loop_phase list"
  execs :: "exec_phase list"
  panicked :: bool

definition new_task :: task where
  "new_task = \<lparr>running = False, stop = None, closed = [], next_chan = 0, in_flight = False,
     loops = [], execs = [], panicked = False\<rparr>"

definition start :: "bool \<Rightarrow> task \<Rightarrow> task" where
  "start first t =
     (if running t then t
      else t\<lparr>running := True, stop := Some (next_chan t), next_chan := Suc (next_chan t),
             loops := loops t @ [if first then LEnter else LSelect]\<rparr>)"

text \<open>\<^verbatim>\<open>close(t.stop)\<close>\<close>

definition close_stop :: "task \<Rightarrow> task" where
  "close_stop t = (case stop t of None \<Rightarrow> t\<lparr>panicked := True\<rparr>
     | Some c \<Rightarrow> if c \<in> set (closed t) then t\<lparr>panicked := True\<rparr> else t\<lparr>closed := c # closed t\<rparr>)"

definition close_task :: "task \<Rightarrow> task" where
  "close_task t = (if running t then close_stop (t\<lparr>running := False\<rparr>) else t)"

text \<open>The error branch of the loop: unlike \<^verbatim>\<open>Close\<close> it does not ask whether the task still runs.\<close>

definition fail_task :: "nat \<Rightarrow> task \<Rightarrow> task" where
  "fail_task i t = close_stop (t\<lparr>running := False, loops := (loops t)[i := LDone]\<rparr>)"

datatype task_event =
  EvStart bool | EvClose
  | EvSelect nat | EvTimer nat | EvStopped nat | EvEnter nat
  | EvRecv nat | EvTimeout nat | EvFail nat
  | EvReturn nat bool | EvReset nat

definition loop_at :: "task \<Rightarrow> nat \<Rightarrow> loop_phase option" where
  "loop_at t i = (if i < length (loops t) then Some (loops t ! i) else None)"

definition exec_at :: "task \<Rightarrow> nat \<Rightarrow> exec_phase option" where
  "exec_at t e = (if e < length (execs t) then Some (execs t ! e) else None)"

definition set_loop :: "nat \<Rightarrow> loop_phase \<Rightarrow> task \<Rightarrow> task" where
  "set_loop i p t = t\<lparr>loops := (loops t)[i := p]\<rparr>"

text \<open>The entry of \<^verbatim>\<open>executeWithTimeout\<close>: skip while an execution is in flight, else start one.\<close>

definition enter_exec :: "nat \<Rightarrow> task \<Rightarrow> task" where
  "enter_exec i t =
     (if in_flight t then set_loop i LSelect t
      else (set_loop i (LExec (length (execs t))) t)\<lparr>in_flight := True, execs := execs t @ [ExRun]\<rparr>)"

definition after_result :: "bool \<Rightarrow> loop_phase" where
  "after_result err = (if err then LFail else LSelect)"

fun task_do :: "task \<Rightarrow> task_event \<Rightarrow> task option" where
  "task_do t (EvStart first) = Some (start first t)"
| "task_do t EvClose = Some (close_task t)"
| "task_do t (EvSelect i) =
     (case (loop_at t i, stop t) of (Some LSelect, Some c) \<Rightarrow> Some (set_loop i (LWait c) t) | _ \<Rightarrow> None)"
| "task_do t (EvTimer i) =
     (case loop_at t i of Some (LWait c) \<Rightarrow> Some (set_loop i LEnter t) | _ \<Rightarrow> None)"
| "task_do t (EvStopped i) =
     (case loop_at t i of
        Some (LWait c) \<Rightarrow> if c \<in> set (closed t) then Some (set_loop i LDone t) else None
      | _ \<Rightarrow> None)"
| "task_do t (EvEnter i) =
     (case loop_at t i of Some LEnter \<Rightarrow> Some (enter_exec i t) | _ \<Rightarrow> None)"
| "task_do t (EvRecv i) =
     (case loop_at t i of
        Some (LExec e) \<Rightarrow>
          (case exec_at t e of
             Some (ExSent err) \<Rightarrow> Some (set_loop i (after_result err) t)
           | Some (ExDone err) \<Rightarrow> Some (set_loop i (after_result err) t)
           | _ \<Rightarrow> None)
      | _ \<Rightarrow> None)"
| "task_do t (EvTimeout i) =
     (case loop_at t i of Some (LExec e) \<Rightarrow> Some (set_loop i LSelect t) | _ \<Rightarrow> None)"
| "task_do t (EvFail i) =
     (case loop_at t i of Some LFail \<Rightarrow> Some (fail_task i t) | _ \<Rightarrow> None)"
| "task_do t (EvReturn e err) =
     (case exec_at t e of Some ExRun \<Rightarrow> Some (t\<lparr>execs := (execs t)[e := ExSent err]\<rparr>) | _ \<Rightarrow> None)"
| "task_do t (EvReset e) =
     (case exec_at t e of
        Some (ExSent err) \<Rightarrow> Some (t\<lparr>execs := (execs t)[e := ExDone err], in_flight := False\<rparr>)
      | _ \<Rightarrow> None)"

inductive task_step :: "task \<Rightarrow> task \<Rightarrow> bool" where
  do: "\<not> panicked t \<Longrightarrow> task_do t ev = Some t' \<Longrightarrow> task_step t t'"

inductive_cases task_stepE: "task_step t t'"

text \<open>A run of events, \<open>None\<close> when one of them is not possible.\<close>

fun task_run :: "task \<Rightarrow> task_event list \<Rightarrow> task option" where
  "task_run t [] = Some t"
| "task_run t (ev # evs) =
     (if panicked t then None else case task_do t ev of None \<Rightarrow> None | Some t' \<Rightarrow> task_run t' evs)"

lemma task_run_steps: "task_run t evs = Some t' \<Longrightarrow> task_step\<^sup>*\<^sup>* t t'"
  by (induction evs arbitrary: t)
    (auto split: if_splits option.splits intro: converse_rtranclp_into_rtranclp task_step.intros)

text \<open>The bound \<^verbatim>\<open>executeWithTimeout\<close> puts on one execution.\<close>

definition exec_timeout :: "int \<Rightarrow> int" where
  "exec_timeout interval =
     (let timeout = wrap64 (5 * interval) in if timeout > 5 * minute then 5 * minute else timeout)"

section \<open>The invariant\<close>

fun active :: "exec_phase \<Rightarrow> bool" where
  "active (ExDone err) = False"
| "active p = True"

definition active_execs :: "task \<Rightarrow> nat" where
  "active_execs t = length (filter active (execs t))"

definition chan_ok :: "task \<Rightarrow> bool" where
  "chan_ok t \<longleftrightarrow>
     (running t \<longleftrightarrow> (\<exists>c. stop t = Some c \<and> c \<notin> set (closed t)))
     \<and> (\<forall>c < next_chan t. stop t \<noteq> Some c \<longrightarrow> c \<in> set (closed t))
     \<and> (\<forall>c. stop t = Some c \<longrightarrow> c < next_chan t)
     \<and> (\<forall>c. LWait c \<in> set (loops t) \<longrightarrow> c < next_chan t)
     \<and> set (closed t) \<subseteq> {..<next_chan t}
     \<and> (loops t \<noteq> [] \<longrightarrow> stop t \<noteq> None)"

definition task_inv :: "task \<Rightarrow> bool" where
  "task_inv t \<longleftrightarrow>
     active_execs t = (if in_flight t then 1 else 0) \<and> (\<not> panicked t \<longrightarrow> chan_ok t)"

lemma length_filter_update:
  "e < length xs \<Longrightarrow> length (filter P (xs[e := y])) + (if P (xs ! e) then 1 else 0)
     = length (filter P xs) + (if P y then 1 else 0)"
proof (induction xs arbitrary: e)
  case (Cons x xs)
  show ?case using Cons.IH [of "e - 1"] Cons.prems by (cases e) auto
qed simp

lemma loop_at_Some: "loop_at t i = Some p \<longleftrightarrow> i < length (loops t) \<and> loops t ! i = p"
  by (simp add: loop_at_def)

lemma exec_at_Some: "exec_at t e = Some p \<longleftrightarrow> e < length (execs t) \<and> execs t ! e = p"
  by (simp add: exec_at_def)

lemmas at_simps = loop_at_Some exec_at_Some

lemma chan_ok_set_loop:
  assumes "chan_ok t" and "\<And>c. p = LWait c \<Longrightarrow> c < next_chan t"
  shows "chan_ok (set_loop i p t)"
  using assms set_update_subset_insert [of "loops t" i p]
  by (auto simp: chan_ok_def set_loop_def)

lemma chan_ok_execs [simp]:
  "chan_ok (t\<lparr>execs := xs\<rparr>) = chan_ok t" "chan_ok (t\<lparr>in_flight := b\<rparr>) = chan_ok t"
  by (simp_all add: chan_ok_def)

lemma chan_ok_stop: "chan_ok t \<Longrightarrow> stop t = Some c \<Longrightarrow> c < next_chan t"
  by (auto simp: chan_ok_def)

lemma chan_ok_start: "chan_ok t \<Longrightarrow> chan_ok (start first t)"
  by (fastforce simp: chan_ok_def start_def less_Suc_eq)

lemma chan_ok_close_stop:
  assumes "chan_ok t" and "\<not> panicked (close_stop (t\<lparr>running := False, loops := ls\<rparr>))"
    and "\<And>c. LWait c \<in> set ls \<Longrightarrow> LWait c \<in> set (loops t)" and "length ls = length (loops t)"
  shows "chan_ok (close_stop (t\<lparr>running := False, loops := ls\<rparr>))"
  using assms by (auto simp: chan_ok_def close_stop_def split: option.splits if_splits)

lemma chan_ok_close: "chan_ok t \<Longrightarrow> \<not> panicked t \<Longrightarrow> chan_ok (close_task t) \<and> \<not> panicked (close_task t)"
  by (auto simp: chan_ok_def close_task_def close_stop_def split: option.splits)

lemma chan_ok_fail:
  assumes "chan_ok t" and "\<not> panicked (fail_task i t)"
  shows "chan_ok (fail_task i t)"
proof -
  have "LWait c \<in> set ((loops t)[i := LDone]) \<Longrightarrow> LWait c \<in> set (loops t)" for c
    using set_update_subset_insert [of "loops t" i LDone] by auto
  then show ?thesis
    using assms unfolding fail_task_def by (intro chan_ok_close_stop) auto
qed

lemma active_frame [simp]:
  "active_execs (set_loop i p t) = active_execs t" "in_flight (set_loop i p t) = in_flight t"
  "active_execs (start first t) = active_execs t" "in_flight (start first t) = in_flight t"
  "active_execs (close_task t) = active_execs t" "in_flight (close_task t) = in_flight t"
  "active_execs (fail_task i t) = active_execs t" "in_flight (fail_task i t) = in_flight t"
  "panicked (set_loop i p t) = panicked t" "panicked (start first t) = panicked t"
  by (auto simp: active_execs_def set_loop_def start_def close_task_def fail_task_def close_stop_def
      split: option.splits)

lemma inv_enter:
  assumes "task_inv t" and "\<not> panicked t"
  shows "task_inv (enter_exec i t)"
  using assms
  by (auto simp: task_inv_def enter_exec_def active_execs_def set_loop_def
      intro!: chan_ok_set_loop [unfolded set_loop_def])

lemma inv_exec_return:
  assumes "task_inv t" and "e < length (execs t)" and "execs t ! e = ExRun"
  shows "task_inv (t\<lparr>execs := (execs t)[e := ExSent err]\<rparr>)"
  using assms length_filter_update [of e "execs t" active "ExSent err"]
  by (auto simp: task_inv_def active_execs_def)

lemma inv_exec_reset:
  assumes "task_inv t" and "e < length (execs t)" and "execs t ! e = ExSent err"
  shows "task_inv (t\<lparr>execs := (execs t)[e := ExDone err], in_flight := False\<rparr>)"
  using assms length_filter_update [of e "execs t" active "ExDone err"]
  by (auto simp: task_inv_def active_execs_def split: if_splits)

lemma task_do_inv:
  assumes "task_inv t" and "\<not> panicked t" and "task_do t ev = Some t'"
  shows "task_inv t'"
proof -
  have ok: "chan_ok t" "active_execs t = (if in_flight t then 1 else 0)"
    using assms by (auto simp: task_inv_def)
  show ?thesis
  proof (cases ev)
    case EvClose
    then show ?thesis using assms ok chan_ok_close [OF ok(1)] by (auto simp: task_inv_def)
  next
    case (EvSelect i)
    then show ?thesis
      using assms ok
      by (auto simp: task_inv_def split: option.splits loop_phase.splits
          intro!: chan_ok_set_loop intro: chan_ok_stop)
  next
    case (EvEnter i)
    then show ?thesis
      using assms by (auto split: option.splits loop_phase.splits intro: inv_enter)
  next
    case (EvReturn e err)
    then show ?thesis
      using assms by (auto simp: at_simps split: option.splits exec_phase.splits intro: inv_exec_return)
  next
    case (EvReset e)
    then show ?thesis
      using assms by (auto simp: at_simps split: option.splits exec_phase.splits intro: inv_exec_reset)
  qed (use assms ok in \<open>auto simp: task_inv_def after_result_def
        split: option.splits loop_phase.splits exec_phase.splits if_splits
        intro!: chan_ok_start chan_ok_set_loop chan_ok_fail\<close>)
qed

interpretation task: kept_by_steps task_step task_inv
  by unfold_locales (auto elim!: task_stepE intro: task_do_inv)

lemma task_inv_new: "task_inv new_task"
  by (auto simp: task_inv_def new_task_def active_execs_def chan_ok_def)

lemmas task_reach = task.reach_keeps [OF _ task_inv_new]

section \<open>What holds in every reachable state\<close>

text \<open>C17. At most one execution of a task's \<^verbatim>\<open>Execute\<close> is under way at any time, however the task
  was started, restarted, closed and timed out: an execution that outlives its timeout keeps
  later ticks from starting another, and the shared state \<^verbatim>\<open>Execute\<close> works on has one writer.\<close>

theorem task_one_execution: "task_step\<^sup>*\<^sup>* new_task t \<Longrightarrow> active_execs t \<le> 1"
  using task_reach [of t] by (auto simp: task_inv_def)

theorem task_one_execution_witness:
  "\<exists>t. task_run new_task [EvStart True, EvEnter 0, EvTimeout 0, EvSelect 0, EvTimer 0, EvEnter 0] = Some t
     \<and> loops t = [LSelect] \<and> active_execs t \<le> 1 \<and> active_execs t = 1"
proof -
  let ?evs = "[EvStart True, EvEnter 0, EvTimeout 0, EvSelect 0, EvTimer 0, EvEnter 0]"
  obtain t where t: "task_run new_task ?evs = Some t" "loops t = [LSelect]" "active_execs t = 1"
    by (simp add: new_task_def start_def enter_exec_def set_loop_def loop_at_def active_execs_def)
  from task_one_execution [OF task_run_steps [OF t(1)]] t show ?thesis by blast
qed

lemma idle_closed: "chan_ok u \<Longrightarrow> \<not> running u \<Longrightarrow> LWait c \<in> set (loops u) \<Longrightarrow> c \<in> set (closed u)"
  unfolding chan_ok_def by blast



text \<open>
  A loop that has not returned and does not wait on a closed channel is live. The two events
  that can make a second live loop: a \<^verbatim>\<open>Start\<close> while a loop is on its way through
  \<^verbatim>\<open>executeWithTimeout\<close>, and a timer that wins the \<^verbatim>\<open>select\<close> against a channel already
  closed. A run without them is calm.
\<close>

fun live :: "nat list \<Rightarrow> loop_phase \<Rightarrow> bool" where
  "live cs LDone = False"
| "live cs (LWait c) = (c \<notin> set cs)"
| "live cs p = True"

definition live_loops :: "task \<Rightarrow> nat" where
  "live_loops t = length (filter (live (closed t)) (loops t))"

fun waiting :: "loop_phase \<Rightarrow> bool" where
  "waiting LDone = True"
| "waiting (LWait c) = True"
| "waiting p = False"

fun calm :: "task \<Rightarrow> task_event \<Rightarrow> bool" where
  "calm t (EvStart first) = list_all waiting (loops t)"
| "calm t (EvTimer i) = (case loop_at t i of Some (LWait c) \<Rightarrow> c \<notin> set (closed t) | _ \<Rightarrow> True)"
| "calm t ev = True"

fun calm_run :: "task \<Rightarrow> task_event list \<Rightarrow> task option" where
  "calm_run t [] = Some t"
| "calm_run t (ev # evs) =
     (if panicked t \<or> \<not> calm t ev then None
      else case task_do t ev of None \<Rightarrow> None | Some t' \<Rightarrow> calm_run t' evs)"

lemma live_more_closed: "length (filter (live (c # cs)) ls) \<le> length (filter (live cs) ls)"
proof (induction ls)
  case (Cons p ls)
  then show ?case by (cases p) auto
qed simp

lemma live_loops_set_loop:
  "i < length (loops t) \<Longrightarrow> live (closed t) p \<longrightarrow> live (closed t) (loops t ! i) \<Longrightarrow>
     live_loops (set_loop i p t) \<le> live_loops t"
  using length_filter_update [of i "loops t" "live (closed t)" p]
  by (auto simp: live_loops_def set_loop_def split: if_splits)

lemma live_loops_close_stop: "live_loops (close_stop t) \<le> live_loops t"
  using live_more_closed by (auto simp: live_loops_def close_stop_def split: option.splits)

lemma live_loops_fields [simp]:
  "live_loops (t\<lparr>running := b\<rparr>) = live_loops t" "live_loops (t\<lparr>execs := xs\<rparr>) = live_loops t"
  "live_loops (t\<lparr>in_flight := b\<rparr>) = live_loops t"
  by (simp_all add: live_loops_def)

lemma live_loops_start:
  assumes "chan_ok t" and "list_all waiting (loops t)" and "live_loops t \<le> 1"
  shows "live_loops (start first t) \<le> 1"
proof (cases "running t")
  case False
  have "\<not> live (closed t) p" if "p \<in> set (loops t)" for p
  proof -
    have "waiting p" using that assms(2) by (simp only: list_all_iff)
    then show ?thesis using that idle_closed [OF assms(1) False] by (cases p) auto
  qed
  then have "filter (live (closed t)) (loops t) = []"
    by (simp add: filter_empty_conv)
  then show ?thesis using False by (simp add: live_loops_def start_def)
qed (use assms in \<open>simp add: start_def\<close>)

lemma live_loops_step:
  assumes "task_inv t" and "\<not> panicked t" and "calm t ev" and "task_do t ev = Some t'" and "live_loops t \<le> 1"
  shows "live_loops t' \<le> 1"
proof -
  have sl: "live_loops (set_loop i p t) \<le> Suc 0"
    if "i < length (loops t)" "live (closed t) p \<longrightarrow> live (closed t) (loops t ! i)" for i p
    using order_trans [OF live_loops_set_loop [OF that] assms(5)] by simp
  show ?thesis
  proof (cases ev)
    case (EvStart first)
    then show ?thesis using assms live_loops_start by (auto simp: task_inv_def)
  next
    case EvClose
    then show ?thesis
      using assms order_trans [OF live_loops_close_stop [of "t\<lparr>running := False\<rparr>"]]
      by (auto simp: close_task_def)
  next
    case (EvFail i)
    have "live_loops (fail_task i t) \<le> live_loops (set_loop i LDone t)"
      using live_loops_close_stop [of "t\<lparr>running := False, loops := (loops t)[i := LDone]\<rparr>"]
      by (simp add: fail_task_def set_loop_def live_loops_def)
    then show ?thesis
      using EvFail assms order_trans [OF _ sl]
      by (auto simp: at_simps split: option.splits loop_phase.splits)
  next
    case (EvEnter i)
    have "live_loops (enter_exec i t) = live_loops (set_loop i (if in_flight t then LSelect else LExec (length (execs t))) t)"
      by (simp add: enter_exec_def)
    then show ?thesis
      using EvEnter assms by (auto simp: at_simps split: option.splits loop_phase.splits intro!: sl)
  qed (use assms in \<open>auto simp: at_simps after_result_def
        split: option.splits loop_phase.splits exec_phase.splits if_splits intro!: sl\<close>)
qed

lemma calm_run_live:
  "task_inv t \<Longrightarrow> live_loops t \<le> 1 \<Longrightarrow> calm_run t evs = Some t' \<Longrightarrow> live_loops t' \<le> 1"
proof (induction evs arbitrary: t)
  case (Cons ev evs)
  from Cons.prems(3) obtain u where u: "\<not> panicked t" "calm t ev" "task_do t ev = Some u" "calm_run u evs = Some t'"
    by (auto split: if_splits option.splits)
  show ?case
    using task_do_inv [OF Cons.prems(1) u(1,3)] live_loops_step [OF Cons.prems(1) u(1,2,3) Cons.prems(2)] u(4)
    by (rule Cons.IH)
qed simp

text \<open>Along every calm run a task has at most one live loop: restarting a task whose loop is
  waiting replaces that loop, it does not add one.\<close>

theorem task_calm_one_loop: "calm_run new_task evs = Some t \<Longrightarrow> live_loops t \<le> 1"
  by (rule calm_run_live [OF task_inv_new]) (simp add: live_loops_def new_task_def)

theorem task_calm_one_loop_witness:
  "\<exists>t. calm_run new_task [EvStart False, EvSelect 0, EvClose, EvStart False, EvSelect 1] = Some t
     \<and> loops t = [LWait 0, LWait 1] \<and> live_loops t \<le> 1"
proof -
  obtain t where t: "calm_run new_task [EvStart False, EvSelect 0, EvClose, EvStart False, EvSelect 1] = Some t"
      "loops t = [LWait 0, LWait 1]"
    by (simp add: new_task_def start_def set_loop_def loop_at_def close_task_def close_stop_def)
  from task_calm_one_loop [OF t(1)] t show ?thesis by blast
qed

text \<open>Two runs that are not harmless. First: \<^verbatim>\<open>nodeInfoMonitor\<close> restarts its own task (\<^verbatim>\<open>Close\<close>,
  then \<^verbatim>\<open>Start(false)\<close>, when the panel changes the interval) from inside \<^verbatim>\<open>Execute\<close>; its loop
  then reads the new \<^verbatim>\<open>t.stop\<close>, and two loops wait on the same open channel for good. Second:
  a \<^verbatim>\<open>Close\<close> during an execution that panics closes the channel twice and kills the process.\<close>

theorem task_restart_and_panic:
  "(\<exists>t. task_run new_task
      [EvStart False, EvSelect 0, EvTimer 0, EvEnter 0, EvClose, EvStart False,
       EvReturn 0 False, EvRecv 0, EvReset 0, EvSelect 0, EvSelect 1] = Some t
      \<and> loops t = [LWait 1, LWait 1] \<and> 1 \<notin> set (closed t) \<and> running t \<and> live_loops t = 2)
   \<and> (\<exists>t. task_run new_task
      [EvStart False, EvSelect 0, EvTimer 0, EvEnter 0, EvClose, EvReturn 0 True, EvRecv 0, EvFail 0] = Some t
      \<and> panicked t)"
  by (simp add: new_task_def start_def set_loop_def loop_at_def close_task_def close_stop_def
      enter_exec_def exec_at_def after_result_def fail_task_def live_loops_def)

text \<open>The timeout of an execution is five intervals, never more than five minutes, and
  positive for every interval from a nanosecond to the largest duration whose fivefold fits.\<close>

theorem exec_timeout_bounds:
  assumes "0 < interval" and "5 * interval \<le> max_int64"
  shows "exec_timeout interval = min (5 * interval) (5 * minute) \<and> 0 < exec_timeout interval"
  using assms wrap64_id [of "5 * interval"] by (auto simp: exec_timeout_def Let_def)

theorem exec_timeout_bounds_witness:
  "exec_timeout (10 * second) = min (5 * (10 * second)) (5 * minute) \<and> 0 < exec_timeout (10 * second)"
  by (rule exec_timeout_bounds) simp_all

end
