(* ===== verification/Controller.thy ===== *)
theory Controller
  imports NodeUsers Cores PanelWs Tasks
begin

text \<open>
  The node controller (\<^verbatim>\<open>node/controller.go\<close>, \<^verbatim>\<open>node/task.go\<close>): its state and operations.
  Every operation is the whole Go method as one function on the controller's state, over
  the operations of its core and the panel's replies. The limiters live in a heap, as the
  controller, the package's table by tag and open connections share them by pointer.
  Goroutines of one controller interleave at the granularity of these operations, except in
  \<open>report_devices_task\<close>, whose argument \<open>mid\<close> is what other goroutines do to the limiter
  between the snapshot and the reset of the dirty flag.
\<close>

section \<open>State\<close>

record periodic =
  pd_interval :: int
  pd_task :: task

record limiters =
  lim_heap :: "limiter list"
  lim_table :: "(string, nat) gomap" \<comment> \<open>the package variable \<^verbatim>\<open>limiter\<close>, by tag\<close>

record 's controller =
  server :: 's
  api_client :: client
  tag :: string
  the_limiter :: "nat option"
  user_list :: "user_info list"
  traffic_state :: traffic_task
  info :: "node_info option"
  monitor_task :: "periodic option"
  report_task :: "periodic option"
  status_task :: "periodic option"
  renew_task :: "periodic option"
  device_task :: "periodic option"
  ws_client :: "ws option"
  last_hash :: string
  all_limiters :: limiters

text \<open>What the controller is configured with and the library functions it uses: JSON parsing,
  \<^verbatim>\<open>sha256\<close> in hex, numbers of JSON, which expressions compile, and what \<^verbatim>\<open>requestCert\<close> answers.\<close>

record ('b, 's) ctl_env =
  env_core :: "'s core_ops"
  env_options :: node_options
  env_parse :: "'b \<Rightarrow> json option"
  env_show :: "'b \<Rightarrow> string"
  env_show_users :: "json option \<Rightarrow> string"
  env_sha_body :: "'b \<Rightarrow> string"
  env_sha :: "string \<Rightarrow> string"
  env_num :: "string \<Rightarrow> rat"
  env_re_ok :: "string \<Rightarrow> bool"
  env_cert :: "node_info \<Rightarrow> string option"

text \<open>The panel's replies to one round of calls.\<close>

record 'b replies =
  rep_config :: "'b reply"
  rep_users :: "json option reply"
  rep_alive :: "json option reply"

section \<open>Limiters by pointer\<close>

definition add_limiter_at :: "string \<Rightarrow> int \<Rightarrow> user_info list \<Rightarrow> (int, int) gomap \<Rightarrow> limiters \<Rightarrow> nat \<times> limiters" where
  "add_limiter_at t speed users alive s =
     (let a = length (lim_heap s) in
        (a, \<lparr>lim_heap = lim_heap s @ [new_limiter t speed users alive], lim_table = mput t a (lim_table s)\<rparr>))"

definition delete_limiter_at :: "string \<Rightarrow> limiters \<Rightarrow> limiters" where
  "delete_limiter_at t s = s\<lparr>lim_table := mdel t (lim_table s)\<rparr>"

definition limiter_at :: "nat \<Rightarrow> limiters \<Rightarrow> limiter" where
  "limiter_at a s = lim_heap s ! a"

definition set_limiter_at :: "nat \<Rightarrow> limiter \<Rightarrow> limiters \<Rightarrow> limiters" where
  "set_limiter_at a l s = s\<lparr>lim_heap := (lim_heap s)[a := l]\<rparr>"

text \<open>The controller's limiter, and an operation on it. (A nil limiter panics in Go; the field is
  set before any task or callback runs.)\<close>

definition cur_limiter :: "'s controller \<Rightarrow> limiter" where
  "cur_limiter c = limiter_at (case the_limiter c of None \<Rightarrow> 0 | Some a \<Rightarrow> a) (all_limiters c)"

definition on_limiter :: "(limiter \<Rightarrow> limiter) \<Rightarrow> 's controller \<Rightarrow> 's controller" where
  "on_limiter f c =
     (case the_limiter c of None \<Rightarrow> c
      | Some a \<Rightarrow> c\<lparr>all_limiters := set_limiter_at a (f (limiter_at a (all_limiters c))) (all_limiters c)\<rparr>)"

section \<open>Tasks\<close>

definition new_periodic :: "int \<Rightarrow> bool \<Rightarrow> periodic" where
  "new_periodic i first = \<lparr>pd_interval = i, pd_task = start first new_task\<rparr>"

definition close_periodic :: "periodic option \<Rightarrow> periodic option" where
  "close_periodic p = map_option (\<lambda>q. q\<lparr>pd_task := close_task (pd_task q)\<rparr>) p"

definition restart_periodic :: "int \<Rightarrow> periodic option \<Rightarrow> periodic option" where
  "restart_periodic i p =
     map_option (\<lambda>q. q\<lparr>pd_interval := i, pd_task := start False (close_task (pd_task q))\<rparr>) p"

definition start_tasks :: "('b, 's) ctl_env \<Rightarrow> node_info \<Rightarrow> 's controller \<Rightarrow> 's controller" where
  "start_tasks env n c =
     (let c1 = c\<lparr>monitor_task := Some (new_periodic (ni_pull n) False),
                 report_task := Some (new_periodic (ni_push n) False),
                 status_task := Some (new_periodic (ni_push n) False)\<rparr>
      in if ni_security n = 1 \<and> cert_mode (env_options env) \<notin> {''none'', '''', ''file'', ''self''}
         then c1\<lparr>renew_task := Some (new_periodic (24 * 60 * minute) True)\<rparr> else c1)"

text \<open>The end of a reload: restart the tasks whose interval the panel has changed.\<close>

definition interval_differs :: "periodic option \<Rightarrow> int \<Rightarrow> bool" where
  "interval_differs p i \<longleftrightarrow> (case p of None \<Rightarrow> False | Some q \<Rightarrow> pd_interval q \<noteq> i \<and> i \<noteq> 0)"

definition check_intervals :: "node_info \<Rightarrow> 's controller \<Rightarrow> 's controller" where
  "check_intervals n c =
     (let c1 = (if interval_differs (monitor_task c) (ni_pull n)
                then c\<lparr>monitor_task := restart_periodic (ni_pull n) (monitor_task c)\<rparr> else c)
      in if interval_differs (report_task c1) (ni_push n)
         then c1\<lparr>report_task := restart_periodic (ni_push n) (report_task c1),
                 status_task := restart_periodic (ni_push n) (status_task c1)\<rparr>
         else c1)"

definition build_node_tag :: "client \<Rightarrow> node_info \<Rightarrow> string" where
  "build_node_tag c n = ''['' @ api_host c @ '']-'' @ ni_type n @ '':'' @ itoa (ni_id n)"

section \<open>Start and Close\<close>

definition new_controller :: "'s \<Rightarrow> client \<Rightarrow> limiters \<Rightarrow> 's controller" where
  "new_controller s a ls =
     \<lparr>server = s, api_client = a, tag = '''', the_limiter = None, user_list = [],
      traffic_state = \<lparr>pending_traffic = None\<rparr>, info = None, monitor_task = None, report_task = None,
      status_task = None, renew_task = None, device_task = None, ws_client = None, last_hash = '''',
      all_limiters = ls\<rparr>"

text \<open>\<^verbatim>\<open>startWS\<close>: the client exists once the panel has announced an endpoint.\<close>

definition start_ws :: "(json option \<Rightarrow> string) \<Rightarrow> json option reply \<Rightarrow> 's controller \<Rightarrow> 's controller" where
  "start_ws show r c =
     (case do_handshake show r (api_client c) of
        Inl e \<Rightarrow> c
      | Inr hs \<Rightarrow>
          if \<not> ws_enabled hs \<or> ws_url hs = '''' then c
          else c\<lparr>ws_client := Some new_ws, device_task := Some (new_periodic (10 * second) True)\<rparr>)"

text \<open>The first calls of \<^verbatim>\<open>Start\<close>: node, users, alive list. A nil node (an unchanged
  configuration) cannot come here from a fresh client and a panel that answers 200.\<close>

definition start_fetch ::
    "('b, 's) ctl_env \<Rightarrow> 'b replies \<Rightarrow> 's controller \<Rightarrow>
     (string + node_info option \<times> user_info list \<times> (int, int) gomap) \<times> 's controller" where
  "start_fetch env r c =
     (case get_node_info (env_parse env) (env_show env) (env_sha_body env) (env_num env) (rep_config r) (api_client c) of
        (Inl e, a1) \<Rightarrow> (Inl (''get node info error: '' @ e), c\<lparr>api_client := a1\<rparr>)
      | (Inr n, a1) \<Rightarrow>
          (case get_user_list (env_show_users env) (rep_users r) a1 of
             (Inl e, a2) \<Rightarrow> (Inl (''get user list error: '' @ e), c\<lparr>api_client := a2, user_list := []\<rparr>)
           | (Inr us, a2) \<Rightarrow>
               (let us' = (case us of None \<Rightarrow> [] | Some xs \<Rightarrow> xs);
                    alive = (case get_user_alive (rep_alive r) of Inl e \<Rightarrow> [] | Inr m \<Rightarrow> (case m of None \<Rightarrow> [] | Some x \<Rightarrow> x))
                in (Inr (n, us', alive), c\<lparr>api_client := a2, user_list := us'\<rparr>))))"

definition start_node ::
    "('b, 's) ctl_env \<Rightarrow> node_info \<Rightarrow> (int, int) gomap \<Rightarrow> 's controller \<Rightarrow> string option \<times> 's controller" where
  "start_node env n alive c =
     (let c1 = c\<lparr>tag := (if opt_name (env_options env) = '''' then build_node_tag (api_client c) n else opt_name (env_options env))\<rparr>;
          (a, ls) = add_limiter_at (tag c1) (opt_speed_limit (env_options env)) (user_list c1) alive (all_limiters c1);
          c2 = c1\<lparr>all_limiters := ls\<rparr>
      in case update_rule (env_re_ok env) (ni_rules n) (limiter_at a ls) of
           Inl e \<Rightarrow> (Some (''update rule error: '' @ e), c2)
         | Inr l \<Rightarrow>
             (let c3 = c2\<lparr>all_limiters := set_limiter_at a l ls, the_limiter := Some a\<rparr> in
              case (if ni_security n = 1 then env_cert env n else None) of
                Some e \<Rightarrow> (Some (''request cert error: '' @ e), c3)
              | None \<Rightarrow>
                  (case co_add_node (env_core env) (tag c3) n (env_options env) (server c3) of
                     (Some e, s) \<Rightarrow> (Some (''add new node error: '' @ e), c3\<lparr>server := s\<rparr>)
                   | (None, s) \<Rightarrow>
                       (case co_add_users (env_core env) (tag c3) (user_list c3) n s of
                          (k, Some e, s') \<Rightarrow> (Some (''add users error: '' @ e), c3\<lparr>server := s'\<rparr>)
                        | (k, None, s') \<Rightarrow> (None, start_tasks env n (c3\<lparr>server := s', info := Some n\<rparr>))))))"

text \<open>\<^verbatim>\<open>Start\<close>; \<open>hs\<close> is the reply to the handshake. Dereferencing a nil node panics, here an error.\<close>

definition start_controller ::
    "('b, 's) ctl_env \<Rightarrow> 'b replies \<Rightarrow> json option reply \<Rightarrow> 's controller \<Rightarrow> string option \<times> 's controller" where
  "start_controller env r hs c =
     (case start_fetch env r c of
        (Inl e, c1) \<Rightarrow> (Some e, c1)
      | (Inr (None, us, alive), c1) \<Rightarrow> (Some ''nil pointer dereference'', c1)
      | (Inr (Some n, us, alive), c1) \<Rightarrow>
          (case start_node env n alive c1 of
             (Some e, c2) \<Rightarrow> (Some e, c2)
           | (None, c2) \<Rightarrow> (None, start_ws (env_show_users env) hs c2)))"

definition close_controller :: "('b, 's) ctl_env \<Rightarrow> 's controller \<Rightarrow> string option \<times> 's controller" where
  "close_controller env c =
     (let c1 = c\<lparr>all_limiters := delete_limiter_at (tag c) (all_limiters c),
                 monitor_task := close_periodic (monitor_task c), report_task := close_periodic (report_task c),
                 status_task := close_periodic (status_task c), renew_task := close_periodic (renew_task c),
                 device_task := close_periodic (device_task c)\<rparr>
      in case co_del_node (env_core env) (tag c1) (server c1) of
           (e, s) \<Rightarrow> (map_option (\<lambda>x. ''del node error: '' @ x) e, c1\<lparr>server := s\<rparr>))"

section \<open>\<^verbatim>\<open>nodeInfoMonitor\<close>\<close>

definition ws_up :: "'s controller \<Rightarrow> bool" where
  "ws_up c \<longleftrightarrow> (case ws_client c of None \<Rightarrow> False | Some w \<Rightarrow> connected w)"

text \<open>The alive list of this round; \<open>None\<close> is the nil map (not fetched, or failed).\<close>

definition fetch_alive :: "json option reply \<Rightarrow> 's controller \<Rightarrow> (int, int) gomap option" where
  "fetch_alive r c =
     (if ws_up c then None else case get_user_alive r of Inl e \<Rightarrow> None | Inr m \<Rightarrow> m)"

definition update_alive :: "(int, int) gomap option \<Rightarrow> 's controller \<Rightarrow> 's controller" where
  "update_alive newA c = (case newA of None \<Rightarrow> c | Some m \<Rightarrow> on_limiter (set_alive_list m) c)"

text \<open>The limiter's part of a reload: a new limiter when the tag changes, else an incremental
  update.\<close>

definition retag_limiter ::
    "int \<Rightarrow> string \<Rightarrow> user_info list option \<Rightarrow> (int, int) gomap option \<Rightarrow> 's controller \<Rightarrow> 's controller" where
  "retag_limiter speed newTag newU newA c =
     (let ls = delete_limiter_at (tag c) (all_limiters c);
          userData = (case newU of None \<Rightarrow> user_list c | Some us \<Rightarrow> us);
          aliveData = (case newA of None \<Rightarrow> get_alive_list (cur_limiter c) | Some m \<Rightarrow> m)
      in case add_limiter_at newTag speed userData aliveData ls of
           (a, ls') \<Rightarrow> c\<lparr>tag := newTag, all_limiters := ls', the_limiter := Some a\<rparr>)"

definition reload_limiter ::
    "node_options \<Rightarrow> node_info \<Rightarrow> user_info list option \<Rightarrow> (int, int) gomap option \<Rightarrow>
     user_info list \<times> user_info list \<times> user_info list \<Rightarrow> 's controller \<Rightarrow> 's controller" where
  "reload_limiter opts n newU newA diff c =
     (case diff of (deleted, added, modified) \<Rightarrow>
        let newTag = build_node_tag (api_client c) n;
            retag = (opt_name opts = '''' \<and> newTag \<noteq> tag c);
            c1 = (if retag then retag_limiter (opt_speed_limit opts) newTag newU newA c
                  else if length deleted + length added + length modified > 0
                       then on_limiter (update_user (tag c) added deleted modified) c
                  else c);
            c2 = (case newU of None \<Rightarrow> c1 | Some us \<Rightarrow> c1\<lparr>user_list := us\<rparr>)
        in update_alive (if retag then None else newA) c2)"

definition monitor_reload ::
    "('b, 's) ctl_env \<Rightarrow> node_info \<Rightarrow> user_info list option \<Rightarrow> (int, int) gomap option \<Rightarrow> 's controller \<Rightarrow> 's controller" where
  "monitor_reload env n newU newA c0 =
     (let c = c0\<lparr>info := Some n\<rparr>;
          diff = (case newU of None \<Rightarrow> ([], [], []) | Some us \<Rightarrow> compare_user_list (user_list c) us)
      in case co_del_node (env_core env) (tag c) (server c) of
           (Some e, s) \<Rightarrow> c\<lparr>server := s\<rparr>
         | (None, s) \<Rightarrow>
             (let c1 = reload_limiter (env_options env) n newU newA diff (c\<lparr>server := s\<rparr>) in
              case update_rule (env_re_ok env) (ni_rules n) (cur_limiter c1) of
                Inl e \<Rightarrow> c1
              | Inr l \<Rightarrow>
                  (let c2 = on_limiter (\<lambda>_. l) c1 in
                   if ni_security n = 1 \<and> env_cert env n \<noteq> None then c2
                   else case co_add_node (env_core env) (tag c2) n (env_options env) (server c2) of
                          (Some e, s2) \<Rightarrow> c2\<lparr>server := s2\<rparr>
                        | (None, s2) \<Rightarrow>
                            (case co_add_users (env_core env) (tag c2) (user_list c2) n s2 of
                               (k, Some e, s3) \<Rightarrow> c2\<lparr>server := s3\<rparr>
                             | (k, None, s3) \<Rightarrow> check_intervals n (c2\<lparr>server := s3\<rparr>)))))"

text \<open>The node is unchanged: apply the difference of the lists to the core, then to the limiter.
  An error of the core ends the round, and the list stays as it was.\<close>

definition apply_deleted :: "'s core_ops \<Rightarrow> user_info list \<Rightarrow> node_info \<Rightarrow> 's controller \<Rightarrow> string option \<times> 's controller" where
  "apply_deleted core deleted n c =
     (if deleted = [] then (None, c)
      else case co_del_users core deleted (tag c) n (server c) of (e, s) \<Rightarrow> (e, c\<lparr>server := s\<rparr>))"

definition apply_added :: "'s core_ops \<Rightarrow> user_info list \<Rightarrow> node_info \<Rightarrow> 's controller \<Rightarrow> string option \<times> 's controller" where
  "apply_added core added n c =
     (if added = [] then (None, c)
      else case co_add_users core (tag c) added n (server c) of (k, e, s) \<Rightarrow> (e, c\<lparr>server := s\<rparr>))"

definition sync_users :: "'s core_ops \<Rightarrow> node_info \<Rightarrow> user_info list \<Rightarrow> 's controller \<Rightarrow> 's controller" where
  "sync_users core n us c =
     (case compare_user_list (user_list c) us of
        (deleted, added, modified) \<Rightarrow>
          (case apply_deleted core deleted n c of
             (Some e, c1) \<Rightarrow> c1
           | (None, c1) \<Rightarrow>
               (case apply_added core added n c1 of
                  (Some e, c2) \<Rightarrow> c2
                | (None, c2) \<Rightarrow>
                    (let c3 = (if length added > 0 \<or> length deleted > 0 \<or> length modified > 0
                               then on_limiter (update_user (tag c2) added deleted modified) c2 else c2)
                     in c3\<lparr>user_list := us\<rparr>))))"

definition monitor_users ::
    "('b, 's) ctl_env \<Rightarrow> user_info list option \<Rightarrow> (int, int) gomap option \<Rightarrow> 's controller \<Rightarrow> 's controller" where
  "monitor_users env newU newA c =
     (let c1 = update_alive newA c in
        case (newU, info c1) of
          (Some us, Some n) \<Rightarrow> sync_users (env_core env) n us c1
        | _ \<Rightarrow> c1)"

definition node_info_monitor :: "('b, 's) ctl_env \<Rightarrow> 'b replies \<Rightarrow> 's controller \<Rightarrow> 's controller" where
  "node_info_monitor env r c =
     (case get_node_info (env_parse env) (env_show env) (env_sha_body env) (env_num env) (rep_config r) (api_client c) of
        (Inl e, a1) \<Rightarrow> c\<lparr>api_client := a1\<rparr>
      | (Inr newN, a1) \<Rightarrow>
          (case get_user_list (env_show_users env) (rep_users r) a1 of
             (Inl e, a2) \<Rightarrow> c\<lparr>api_client := a2\<rparr>
           | (Inr newU, a2) \<Rightarrow>
               (let c1 = c\<lparr>api_client := a2\<rparr>; newA = fetch_alive (rep_alive r) c1 in
                  case newN of
                    Some n \<Rightarrow> monitor_reload env n newU newA c1
                  | None \<Rightarrow> monitor_users env newU newA c1)))"

section \<open>Callbacks of the WebSocket client\<close>

definition on_device :: "int \<Rightarrow> devices \<Rightarrow> 's controller \<Rightarrow> 's controller" where
  "on_device now m c = on_limiter (update_global_devices now (Some m)) c"

definition on_status :: "bool \<Rightarrow> 's controller \<Rightarrow> 's controller" where
  "on_status up c = (if up then c\<lparr>last_hash := ''''\<rparr> else c)"

definition remove_users_by_ids :: "'s core_ops \<Rightarrow> int list \<Rightarrow> 's controller \<Rightarrow> 's controller" where
  "remove_users_by_ids core ids c =
     (let deleted = filter (\<lambda>u. Id u \<in> set ids) (user_list c) in
        if ids = [] \<or> deleted = [] then c
        else case info c of
               None \<Rightarrow> c
             | Some n \<Rightarrow>
                 (case co_del_users core deleted (tag c) n (server c) of
                    (Some e, s) \<Rightarrow> c\<lparr>server := s\<rparr>
                  | (None, s) \<Rightarrow> on_limiter (update_user (tag c) [] deleted []) (c\<lparr>server := s\<rparr>)))"

definition add_users_by_ws :: "'s core_ops \<Rightarrow> user_info list \<Rightarrow> 's controller \<Rightarrow> 's controller" where
  "add_users_by_ws core users c =
     (let fresh = filter (\<lambda>u. Uuid u \<noteq> '''' \<and> Id u \<notin> Id ` set (user_list c)) users in
        if users = [] \<or> fresh = [] then c
        else let c1 = c\<lparr>user_list := user_list c @ fresh\<rparr> in
          case info c1 of
            None \<Rightarrow> c1
          | Some n \<Rightarrow>
              (case co_add_users core (tag c1) fresh n (server c1) of
                 (k, Some e, s) \<Rightarrow> c1\<lparr>server := s\<rparr>
               | (k, None, s) \<Rightarrow> on_limiter (update_user (tag c1) fresh [] []) (c1\<lparr>server := s\<rparr>)))"

end

