(* ===== verification/DeviceReports.thy ===== *)
theory DeviceReports
  imports Controller "HOL-Library.Char_ord" "HOL-Library.List_Lexorder"
begin

text \<open>
  The periodic reports of a controller: the devices over the WebSocket
  (\<^verbatim>\<open>reportDevicesTask\<close>, \<^verbatim>\<open>devicesHash\<close>) and the traffic (\<^verbatim>\<open>reportUserTrafficTask\<close> on the
  controller's state). The lemmas say that the text that is hashed determines the device sets,
  so that a report is skipped only when the panel has been told the same sets, and what the
  panel knows after a round.
\<close>

section \<open>The hash of a device table\<close>

definition sorted_devices :: "devices \<Rightarrow> devices" where
  "sorted_devices m = map (\<lambda>(uid, ips). (uid, sort ips)) m"

text \<open>The text \<^verbatim>\<open>uid:ip,ip,;\<close> of each user, by ascending id.\<close>

definition user_text :: "int \<Rightarrow> string list \<Rightarrow> string" where
  "user_text uid ips = itoa uid @ '':'' @ concat (map (\<lambda>ip. ip @ '','') ips) @ '';''"

definition devices_text :: "devices \<Rightarrow> string" where
  "devices_text m = concat (map (\<lambda>uid. user_text uid (sort (mget [] m uid))) (sort (mkeys m)))"

text \<open>\<^verbatim>\<open>devicesHash\<close>, and the map it leaves behind: it sorts the address lists in place.\<close>

definition devices_hash :: "(string \<Rightarrow> string) \<Rightarrow> devices \<Rightarrow> string \<times> devices" where
  "devices_hash sha m = (sha (devices_text m), sorted_devices m)"

section \<open>\<^verbatim>\<open>reportDevicesTask\<close>\<close>

definition send_devices :: "int \<Rightarrow> devices \<Rightarrow> 's controller \<Rightarrow> bool \<times> 's controller" where
  "send_devices unix m c =
     (case ws_client c of
        None \<Rightarrow> (False, c)
      | Some w \<Rightarrow> (case send_device_report unix m w of (ok, w') \<Rightarrow> (ok, c\<lparr>ws_client := Some w'\<rparr>)))"

definition report_devices_task ::
    "(string \<Rightarrow> string) \<Rightarrow> int \<Rightarrow> int \<Rightarrow> (limiter \<Rightarrow> limiter) \<Rightarrow> 's controller \<Rightarrow> 's controller" where
  "report_devices_task sha now unix mid c =
     (if \<not> ws_up c then c
      else
        let prevHash = last_hash c;
            dirty = fst (devices_dirty now (cur_limiter c));
            c1 = on_limiter (\<lambda>l. snd (devices_dirty now l)) c
        in
          if \<not> dirty \<and> prevHash \<noteq> '''' then c1
          else
            let snapshot = local_device_snapshot now (cur_limiter c1);
                c2 = on_limiter mid c1
            in
              if snapshot = [] then
                (if prevHash \<noteq> '''' then
                   (case send_devices unix [] c2 of
                      (False, c3) \<Rightarrow> c3
                    | (True, c3) \<Rightarrow> on_limiter reset_devices_dirty (c3\<lparr>last_hash := ''''\<rparr>))
                 else on_limiter reset_devices_dirty c2)
              else
                (case devices_hash sha snapshot of
                   (h, m) \<Rightarrow>
                     if h = last_hash c2 then on_limiter reset_devices_dirty c2
                     else
                       (case send_devices unix m c2 of
                          (False, c3) \<Rightarrow> c3
                        | (True, c3) \<Rightarrow> on_limiter reset_devices_dirty (c3\<lparr>last_hash := h\<rparr>))))"

section \<open>\<^verbatim>\<open>reportUserTrafficTask\<close> on the controller\<close>

text \<open>\<open>push_failed\<close>: the panel's answer to the push. The result is what is sent to the panel.\<close>

definition report_traffic_round ::
    "('b, 's) ctl_env \<Rightarrow> bool \<Rightarrow> 's controller \<Rightarrow>
     ((int, int \<times> int) gomap option \<times> (int, string list) gomap option) \<times> 's controller" where
  "report_traffic_round env push_failed c =
     (case co_traffic (env_core env) (tag c) True (server c) of
        (rows, s) \<Rightarrow>
          (case report_user_traffic_task rows push_failed (ws_up c) (get_online_device (cur_limiter c))
                  (opt_min_online (env_options env)) (traffic_state c) of
             (push, alive, st) \<Rightarrow> ((push, alive), c\<lparr>server := s, traffic_state := st\<rparr>)))"

section \<open>The hashed text determines the devices\<close>

text \<open>Splitting at a separator is unambiguous when the parts before it do not contain it.\<close>

lemma split_unique: "c \<notin> set a \<Longrightarrow> c \<notin> set b \<Longrightarrow> a @ c # x = b @ c # y \<longleftrightarrow> a = b \<and> x = y"
proof (induction a arbitrary: b)
  case Nil
  then show ?case by (cases b) auto
next
  case (Cons d a)
  then show ?case by (cases b) auto
qed

definition clean_ip :: "string \<Rightarrow> bool" where
  "clean_ip ip \<longleftrightarrow> CHR '','' \<notin> set ip \<and> CHR '';'' \<notin> set ip"

lemma ips_text_unique:
  "list_all clean_ip xs \<Longrightarrow> list_all clean_ip ys \<Longrightarrow>
     concat (map (\<lambda>ip. ip @ '','') xs) @ '';'' @ r = concat (map (\<lambda>ip. ip @ '','') ys) @ '';'' @ q \<longleftrightarrow> xs = ys \<and> r = q"
proof (induction xs arbitrary: ys)
  case Nil
  then show ?case
  proof (cases ys)
    case (Cons y zs)
    then show ?thesis using Nil by (cases y) (auto simp: clean_ip_def)
  qed simp
next
  case (Cons x xs)
  show ?case
  proof (cases ys)
    case Nil
    then show ?thesis using Cons.prems by (cases x) (auto simp: clean_ip_def)
  next
    case (Cons y zs)
    have "CHR '','' \<notin> set x" "CHR '','' \<notin> set y" using Cons.prems \<open>ys = y # zs\<close> by (auto simp: clean_ip_def)
    then show ?thesis
      using Cons.IH [of zs] Cons.prems \<open>ys = y # zs\<close>
        split_unique [of "CHR '',''" x y "concat (map (\<lambda>ip. ip @ '','') xs) @ '';'' @ r" "concat (map (\<lambda>ip. ip @ '','') zs) @ '';'' @ q"]
      by auto
  qed
qed

lemma itoa_no_colon: "CHR '':'' \<notin> set (itoa i)"
proof -
  have "CHR '':'' \<notin> set (nat_digits n)" for n
    using nat_digits_digits [of n] by (auto simp: list_all_iff is_digit_def)
  then show ?thesis by (auto simp: itoa_def)
qed

lemma user_text_unique:
  assumes "list_all clean_ip xs" "list_all clean_ip ys"
  shows "user_text i xs @ r = user_text j ys @ q \<longleftrightarrow> i = j \<and> xs = ys \<and> r = q"
proof -
  have split: "user_text i xs @ r = itoa i @ CHR '':'' # (concat (map (\<lambda>ip. ip @ '','') xs) @ '';'' @ r)" for i xs r
    by (simp add: user_text_def)
  have "itoa i = itoa j \<longleftrightarrow> i = j" using itoa_inject by blast
  then show ?thesis
    unfolding split split_unique [OF itoa_no_colon itoa_no_colon] ips_text_unique [OF assms] by simp
qed

lemma text_of_unique:
  "list_all (list_all clean_ip \<circ> snd) ps \<Longrightarrow> list_all (list_all clean_ip \<circ> snd) qs \<Longrightarrow>
     concat (map (\<lambda>(i, xs). user_text i xs) ps) = concat (map (\<lambda>(i, xs). user_text i xs) qs) \<longleftrightarrow> ps = qs"
proof (induction ps arbitrary: qs)
  case Nil
  then show ?case by (cases qs) (auto simp: user_text_def)
next
  case (Cons p ps)
  obtain i xs where p: "p = (i, xs)" by (cases p)
  show ?case
  proof (cases qs)
    case Nil
    then show ?thesis by (simp add: p user_text_def)
  next
    case (Cons q zs)
    obtain j ys where q: "q = (j, ys)" by (cases q)
    show ?thesis
      using Cons.prems Cons.IH [of zs] user_text_unique [of xs ys i _ j] by (simp add: \<open>qs = q # zs\<close> p q)
  qed
qed

definition table_ok :: "devices \<Rightarrow> bool" where
  "table_ok m \<longleftrightarrow> wf_map m \<and> list_all (list_all clean_ip) (map snd m) \<and> list_all distinct (map snd m)"

lemma table_okD: "table_ok m \<Longrightarrow> list_all clean_ip (mget [] m uid) \<and> distinct (mget [] m uid)"
proof (cases "map_of m uid")
  case (Some ips)
  assume "table_ok m"
  moreover have "ips \<in> snd ` set m" using map_of_SomeD [OF Some] by force
  ultimately show ?thesis using Some by (auto simp: table_ok_def list_all_iff mget_def)
qed (simp add: mget_def)

lemma sort_eq_iff_set: "distinct xs \<Longrightarrow> distinct ys \<Longrightarrow> sort xs = sort ys \<longleftrightarrow> set xs = set ys"
  by (metis distinct_sort set_sort sorted_distinct_set_unique sorted_sort)

lemma map_graph_eq:
  "map (\<lambda>k. (k, f k)) xs = map (\<lambda>k. (k, g k)) ys \<longleftrightarrow> xs = ys \<and> (\<forall>k \<in> set xs. f k = g k)"
proof (induction xs arbitrary: ys)
  case (Cons x xs)
  then show ?case by (cases ys) auto
qed auto

lemma devices_text_pairs:
  "devices_text m = concat (map (\<lambda>(i, xs). user_text i xs) (map (\<lambda>uid. (uid, sort (mget [] m uid))) (sort (mkeys m))))"
  by (simp add: devices_text_def comp_def)

lemma devices_text_unique:
  assumes "table_ok m" "table_ok m'"
  shows "devices_text m = devices_text m' \<longleftrightarrow>
    set (mkeys m) = set (mkeys m') \<and> (\<forall>uid \<in> set (mkeys m). set (mget [] m uid) = set (mget [] m' uid))"
proof -
  let ?ps = "\<lambda>m. map (\<lambda>uid. (uid, sort (mget [] m uid))) (sort (mkeys m))"
  have clean: "list_all (list_all clean_ip \<circ> snd) (?ps m)" if "table_ok m" for m
    using table_okD [OF that] by (simp add: list_all_iff)
  have keys: "sort (mkeys m) = sort (mkeys m') \<longleftrightarrow> set (mkeys m) = set (mkeys m')"
    using assms by (intro sort_eq_iff_set distinct_mkeys) (simp_all add: table_ok_def)
  have ips: "sort (mget [] m uid) = sort (mget [] m' uid) \<longleftrightarrow> set (mget [] m uid) = set (mget [] m' uid)"
    if "uid \<in> set (mkeys m)" "uid \<in> set (mkeys m')" for uid
  proof -
    have "distinct (mget [] m uid)" "distinct (mget [] m' uid)"
      using table_okD assms by blast+
    then show ?thesis by (rule sort_eq_iff_set)
  qed
  have "devices_text m = devices_text m' \<longleftrightarrow> ?ps m = ?ps m'"
    unfolding devices_text_pairs by (rule text_of_unique [OF clean clean]) fact+
  also have "\<dots> \<longleftrightarrow> sort (mkeys m) = sort (mkeys m') \<and>
      (\<forall>uid \<in> set (sort (mkeys m)). sort (mget [] m uid) = sort (mget [] m' uid))"
    by (rule map_graph_eq)
  also have "\<dots> \<longleftrightarrow> set (mkeys m) = set (mkeys m') \<and> (\<forall>uid \<in> set (mkeys m). set (mget [] m uid) = set (mget [] m' uid))"
    using keys ips by auto
  finally show ?thesis .
qed

text \<open>C37. The hash decides the device sets. Up to a collision of SHA-256 on the two texts, two
  snapshots have the same hash exactly when they have the same users with the same sets of
  addresses: the order in which Go ranges over the map and the order of the addresses do not
  matter, and no two different tables run together in the text.\<close>

theorem hash_decides_devices:
  "table_ok m \<Longrightarrow> table_ok m' \<Longrightarrow> (sha (devices_text m) = sha (devices_text m') \<longrightarrow> devices_text m = devices_text m') \<Longrightarrow>
     fst (devices_hash sha m) = fst (devices_hash sha m') \<longleftrightarrow>
     set (mkeys m) = set (mkeys m') \<and> (\<forall>uid \<in> set (mkeys m). set (mget [] m uid) = set (mget [] m' uid))"
proof -
  assume ok: "table_ok m" "table_ok m'"
    and sha: "sha (devices_text m) = sha (devices_text m') \<longrightarrow> devices_text m = devices_text m'"
  have "sha (devices_text m) = sha (devices_text m') \<longleftrightarrow> devices_text m = devices_text m'" using sha by auto
  then show ?thesis by (simp add: devices_hash_def devices_text_unique [OF ok])
qed

theorem hash_decides_devices_witness:
  "fst (devices_hash (\<lambda>s. s) [(2, [''b'', ''a'']), (1, [''c''])]) = fst (devices_hash (\<lambda>s. s) [(1, [''c'']), (2, [''a'', ''b''])])"
proof -
  have ok: "table_ok [(2, [''b'', ''a'']), (1, [''c''])]" "table_ok [(1, [''c'']), (2, [''a'', ''b''])]"
    by code_simp+
  show ?thesis
    by (subst hash_decides_devices [OF ok]) (auto simp: mkeys_def mget_def)
qed

section \<open>What the panel is told\<close>

definition device_message :: "int \<Rightarrow> devices \<Rightarrow> ws_message" where
  "device_message unix m = \<lparr>ws_event = EvReportDevices, ws_data = Some (devices_json m), ws_timestamp = unix\<rparr>"

lemma send_room:
  "ws_client c = Some w \<Longrightarrow> connected w \<Longrightarrow> write_ch w = Some q \<Longrightarrow> length q < 16 \<Longrightarrow>
     send_devices unix m c = (True, c\<lparr>ws_client := Some (w\<lparr>write_ch := Some (q @ [device_message unix m]),
       accepted := accepted w @ [device_message unix m]\<rparr>)\<rparr>)"
  by (simp add: send_devices_def send_device_report_def try_send_def chan_cap_def device_message_def)

lemma send_full:
  "ws_client c = Some w \<Longrightarrow> write_ch w = Some q \<Longrightarrow> length q = 16 \<Longrightarrow> send_devices unix m c = (False, c)"
  by (simp add: send_devices_def send_device_report_def try_send_def chan_cap_def)

end

