(* ===== verification/ControllerSync.thy ===== *)
theory ControllerSync
  imports DeviceReports
begin

text \<open>
  The composition of controller, core and limiter: the list of users the controller believes
  in, the users the core serves and the users the limiter knows are the same in every run in
  which the panel removes nobody by push (\<open>in_sync\<close>), and what a removal by push does to later
  rounds. The laws of the core come from \<open>user_core\<close> and \<open>total_core\<close>.
\<close>

section \<open>Frames\<close>

lemma on_limiter_frame [simp]:
  "tag (on_limiter f c) = tag c" "user_list (on_limiter f c) = user_list c" "server (on_limiter f c) = server c"
  "the_limiter (on_limiter f c) = the_limiter c" "info (on_limiter f c) = info c"
  "api_client (on_limiter f c) = api_client c" "ws_client (on_limiter f c) = ws_client c"
  "last_hash (on_limiter f c) = last_hash c" "monitor_task (on_limiter f c) = monitor_task c"
  by (simp_all add: on_limiter_def split: option.splits)

definition has_limiter :: "'s controller \<Rightarrow> bool" where
  "has_limiter c \<longleftrightarrow> (\<exists>a < length (lim_heap (all_limiters c)). the_limiter c = Some a)"

lemma cur_on_limiter [simp]: "has_limiter c \<Longrightarrow> cur_limiter (on_limiter f c) = f (cur_limiter c)"
  by (auto simp: has_limiter_def cur_limiter_def on_limiter_def limiter_at_def set_limiter_at_def)

lemma has_on_limiter [simp]: "has_limiter (on_limiter f c) = has_limiter c"
  by (auto simp: has_limiter_def on_limiter_def set_limiter_at_def split: option.splits)

lemma on_limiter_id: "(\<And>l. f l = l) \<Longrightarrow> on_limiter f c = c"
  by (simp add: on_limiter_def set_limiter_at_def limiter_at_def split: option.splits)

lemma update_limiter_simps [simp]:
  "has_limiter (c\<lparr>server := s\<rparr>) = has_limiter c" "cur_limiter (c\<lparr>server := s\<rparr>) = cur_limiter c"
  "has_limiter (c\<lparr>user_list := us\<rparr>) = has_limiter c" "cur_limiter (c\<lparr>user_list := us\<rparr>) = cur_limiter c"
  "has_limiter (c\<lparr>api_client := a\<rparr>) = has_limiter c" "cur_limiter (c\<lparr>api_client := a\<rparr>) = cur_limiter c"
  "has_limiter (c\<lparr>ws_client := w\<rparr>) = has_limiter c" "cur_limiter (c\<lparr>ws_client := w\<rparr>) = cur_limiter c"
  "has_limiter (c\<lparr>last_hash := h\<rparr>) = has_limiter c" "cur_limiter (c\<lparr>last_hash := h\<rparr>) = cur_limiter c"
  "has_limiter (c\<lparr>traffic_state := t\<rparr>) = has_limiter c" "cur_limiter (c\<lparr>traffic_state := t\<rparr>) = cur_limiter c"
  "has_limiter (c\<lparr>info := n\<rparr>) = has_limiter c" "cur_limiter (c\<lparr>info := n\<rparr>) = cur_limiter c"
  by (simp_all add: has_limiter_def cur_limiter_def)

section \<open>In sync\<close>

definition tags_of :: "string \<Rightarrow> user_info list \<Rightarrow> string set" where
  "tags_of t us = user_tag t ` Uuid ` set us"

definition in_sync :: "(string \<Rightarrow> 's \<Rightarrow> string set option) \<Rightarrow> 's controller \<Rightarrow> bool" where
  "in_sync serves c \<longleftrightarrow> has_limiter c \<and> distinct (map Uuid (user_list c))
     \<and> serves (tag c) (server c) = Some (tags_of (tag c) (user_list c))
     \<and> map_of (user_limit_info (cur_limiter c)) = limits_for (tag c) (user_list c)"

lemma in_sync_limiter:
  "in_sync serves c \<Longrightarrow> (\<And>l. user_limit_info (f l) = user_limit_info l) \<Longrightarrow> in_sync serves (on_limiter f c)"
  by (simp add: in_sync_def)

lemma in_sync_update [simp]:
  "in_sync serves (c\<lparr>api_client := a\<rparr>) = in_sync serves c" "in_sync serves (c\<lparr>ws_client := w\<rparr>) = in_sync serves c"
  "in_sync serves (c\<lparr>last_hash := h\<rparr>) = in_sync serves c" "in_sync serves (c\<lparr>traffic_state := t\<rparr>) = in_sync serves c"
  by (simp_all add: in_sync_def)

lemma in_sync_alive: "in_sync serves c \<Longrightarrow> in_sync serves (update_alive newA c)"
  by (auto simp: update_alive_def set_alive_list_def intro: in_sync_limiter split: option.splits)

text \<open>Users that keep their uuid keep their id.\<close>

definition ids_agree :: "user_info list \<Rightarrow> user_info list \<Rightarrow> bool" where
  "ids_agree old new \<longleftrightarrow> list_all (\<lambda>u. list_all (\<lambda>v. Uuid u = Uuid v \<longrightarrow> Id u = Id v) new) old"

lemma tags_difference:
  assumes "distinct (map Uuid old)" "distinct (map Uuid new)" "compare_user_list old new = (d, a, m)"
  shows "tags_of t d \<subseteq> tags_of t old" "tags_of t a \<inter> (tags_of t old - tags_of t d) = {}"
    "tags_of t old - tags_of t d \<union> tags_of t a = tags_of t new" "distinct (map Uuid d)" "distinct (map Uuid a)"
    "set a \<subseteq> set new"
proof -
  note sp = compare_spec [OF assms]
  have inj: "user_tag t ` A \<subseteq> user_tag t ` B \<longleftrightarrow> A \<subseteq> B" "user_tag t ` A - user_tag t ` B = user_tag t ` (A - B)"
    "user_tag t ` A \<inter> user_tag t ` B = user_tag t ` (A \<inter> B)" for A B
    by (auto simp: image_iff)
  have d: "Uuid ` set d = Uuid ` set old - Uuid ` set new" using sp by auto
  have a: "Uuid ` set a = Uuid ` set new - Uuid ` set old" using sp by auto
  show "tags_of t d \<subseteq> tags_of t old" unfolding tags_of_def d inj by blast
  show "tags_of t a \<inter> (tags_of t old - tags_of t d) = {}"
    unfolding tags_of_def a d inj by auto
  show "tags_of t old - tags_of t d \<union> tags_of t a = tags_of t new"
    unfolding tags_of_def a d inj image_Un [symmetric] by (rule arg_cong [of _ _ "image _"]) blast
  show "distinct (map Uuid d)" "distinct (map Uuid a)" "set a \<subseteq> set new"
    using sp assms(2) by (auto simp: distinct_map_filter)
qed

section \<open>A round with an unchanged configuration\<close>

lemma limits_after:
  assumes "in_sync serves c" "distinct (map Uuid us)" "ids_agree (user_list c) us"
    "compare_user_list (user_list c) us = (d, a, m)"
  shows "map_of (user_limit_info (update_user (tag c) a d m (cur_limiter c))) = limits_for (tag c) us"
proof
  fix k
  show "map_of (user_limit_info (update_user (tag c) a d m (cur_limiter c))) k = limits_for (tag c) us k"
    using assms by (intro updated_table [OF _ assms(2,4)]) (auto simp: in_sync_def ids_agree_def list_all_iff)
qed

lemma update_nothing [simp]: "on_limiter (update_user t [] [] []) c = c"
  by (simp add: update_user_def on_limiter_id)

context user_core
begin

text \<open>What a round that takes the list leaves, whatever the core can refuse.\<close>

lemma sync_users_taken:
  assumes sy: "in_sync serves c" and us: "distinct (map Uuid us)" "ids_agree (user_list c) us"
    and cmp: "compare_user_list (user_list c) us = (d, a, m)"
    and del: "apply_deleted core d n c = (None, c1)" and add: "apply_added core a n c1 = (None, c2)"
  shows "in_sync serves (sync_users core n us c) \<and> user_list (sync_users core n us c) = us
    \<and> tag (sync_users core n us c) = tag c \<and> info (sync_users core n us c) = info c"
proof -
  let ?t = "tag c"
  have old: "distinct (map Uuid (user_list c))" and lim: "has_limiter c" using sy by (simp_all add: in_sync_def)
  note td = tags_difference [OF old us(1) cmp]
  have c1: "\<exists>s. c1 = c\<lparr>server := s\<rparr> \<and> serves ?t s = Some (tags_of ?t (user_list c) - tags_of ?t d)"
  proof (cases "d = []")
    case True
    then have "c1 = c" using del by (simp add: apply_deleted_def)
    then show ?thesis using sy True by (intro exI [of _ "server c"]) (simp add: in_sync_def tags_of_def)
  next
    case False
    then obtain s where s: "co_del_users core d ?t n (server c) = (None, s)" "c1 = c\<lparr>server := s\<rparr>"
      using del by (auto simp: apply_deleted_def split: prod.splits)
    then show ?thesis using del_serves [OF s(1)] sy by (auto simp: in_sync_def tags_of_def)
  qed
  then obtain s1 where s1: "c1 = c\<lparr>server := s1\<rparr>" "serves ?t s1 = Some (tags_of ?t (user_list c) - tags_of ?t d)" by blast
  have "\<exists>s. c2 = c\<lparr>server := s\<rparr> \<and> serves ?t s = Some (tags_of ?t us)"
  proof (cases "a = []")
    case True
    then have "c2 = c1" using add by (simp add: apply_added_def)
    then show ?thesis using s1 td(3) [of ?t] True by (intro exI [of _ s1]) (simp add: tags_of_def)
  next
    case False
    then obtain k s where s: "co_add_users core ?t a n s1 = (k, None, s)" "c2 = c\<lparr>server := s\<rparr>"
      using add s1 by (auto simp: apply_added_def split: prod.splits)
    then show ?thesis using add_serves [OF s(1)] s1 td(3) [of ?t] by (auto simp: tags_of_def)
  qed
  then obtain s2 where s2: "c2 = c\<lparr>server := s2\<rparr>" "serves ?t s2 = Some (tags_of ?t us)" by blast
  have "sync_users core n us c = (on_limiter (update_user ?t a d m) c2)\<lparr>user_list := us\<rparr>"
    by (simp add: sync_users_def cmp del add s2(1) Let_def)
  then show ?thesis
    using s2 lim us limits_after [OF sy us cmp] by (simp add: in_sync_def)
qed

end

context total_core
begin

lemma apply_total:
  assumes sy: "in_sync serves c" and us: "distinct (map Uuid us)"
    and cmp: "compare_user_list (user_list c) us = (d, a, m)"
    and ok: "list_all (account_ok (tag c) n) us"
  shows "\<exists>c1 c2. apply_deleted core d n c = (None, c1) \<and> apply_added core a n c1 = (None, c2)"
proof -
  let ?t = "tag c"
  have old: "distinct (map Uuid (user_list c))" and sv: "serves ?t (server c) = Some (tags_of ?t (user_list c))"
    using sy by (simp_all add: in_sync_def)
  note td = tags_difference [OF old us cmp]
  obtain s1 where s1: "apply_deleted core d n c = (None, c\<lparr>server := s1\<rparr>)"
      "serves ?t s1 = Some (tags_of ?t (user_list c) - tags_of ?t d)"
  proof (cases "d = []")
    case True
    then show ?thesis using that [of "server c"] sv by (simp add: apply_deleted_def tags_of_def)
  next
    case False
    obtain s where s: "co_del_users core d ?t n (server c) = (None, s)"
      using del_total [OF sv td(4), of n] td(1) [of ?t] by (auto simp: tags_of_def)
    show ?thesis using that [of s] del_serves [OF s] sv False s by (auto simp: apply_deleted_def tags_of_def)
  qed
  have "\<exists>c2. apply_added core a n (c\<lparr>server := s1\<rparr>) = (None, c2)"
  proof (cases "a = []")
    case False
    have "list_all (account_ok ?t n) a" using ok td(6) by (auto simp: list_all_iff)
    then obtain k s where "co_add_users core ?t a n s1 = (k, None, s)"
      using add_total [OF s1(2) False td(5), of n] td(2) [of ?t] by (auto simp: tags_of_def)
    then show ?thesis using False by (simp add: apply_added_def)
  qed (simp add: apply_added_def)
  then show ?thesis using s1(1) by blast
qed

lemma sync_users_total:
  assumes "in_sync serves c" "distinct (map Uuid us)" "ids_agree (user_list c) us" "list_all (account_ok (tag c) n) us"
  shows "in_sync serves (sync_users core n us c) \<and> user_list (sync_users core n us c) = us
    \<and> tag (sync_users core n us c) = tag c \<and> info (sync_users core n us c) = info c"
proof -
  obtain d a m where cmp: "compare_user_list (user_list c) us = (d, a, m)" by (cases "compare_user_list (user_list c) us")
  obtain c1 c2 where "apply_deleted core d n c = (None, c1)" "apply_added core a n c1 = (None, c2)"
    using apply_total [OF assms(1,2) cmp assms(4)] by blast
  then show ?thesis by (rule sync_users_taken [OF assms(1-3) cmp])
qed

end

section \<open>Runs\<close>

text \<open>What the panel, the clients and the timers do to a controller. Connections and kicks act on
  its limiter.\<close>

datatype 'b ctl_op =
    Round "'b replies"
  | WsAdd "user_info list"
  | WsDevices int devices
  | WsStatus bool
  | DeviceReport int int
  | TrafficReport bool
  | OpenConn int nat string string bool
  | CloseConn string string
  | KickRun int kick

fun do_ctl :: "('b, 's) ctl_env \<Rightarrow> 'b ctl_op \<Rightarrow> 's controller \<Rightarrow> 's controller" where
  "do_ctl env (Round r) c = node_info_monitor env r c"
| "do_ctl env (WsAdd us) c = add_users_by_ws (env_core env) us c"
| "do_ctl env (WsDevices now m) c = on_device now m c"
| "do_ctl env (WsStatus up) c = on_status up c"
| "do_ctl env (DeviceReport now unix) c = report_devices_task (env_sha env) now unix (\<lambda>l. l) c"
| "do_ctl env (TrafficReport failed) c = snd (report_traffic_round env failed c)"
| "do_ctl env (OpenConn now r k ip tcp) c = on_limiter (\<lambda>l. fst (snd (snd (check_limit now r k ip tcp l)))) c"
| "do_ctl env (CloseConn k ip) c = on_limiter (conn_closed k ip) c"
| "do_ctl env (KickRun now k) c = on_limiter (kick_device now k) c"

text \<open>A round is quiet when the panel answers 304 to the configuration. The list it brings, if any.\<close>

definition quiet :: "'b replies \<Rightarrow> bool" where
  "quiet r \<longleftrightarrow> \<not> r_nil (rep_config r) \<and> r_status (rep_config r) = 304"

definition round_list :: "('b, 's) ctl_env \<Rightarrow> 'b replies \<Rightarrow> 's controller \<Rightarrow> user_info list option" where
  "round_list env r c =
     (case get_user_list (env_show_users env) (rep_users r) (api_client c) of
        (Inr (Some us), a) \<Rightarrow> Some us | _ \<Rightarrow> None)"

text \<open>A list the panel may send: no uuid twice, known users with their ids, accounts that parse.\<close>

definition list_ok :: "(string \<Rightarrow> node_info \<Rightarrow> user_info \<Rightarrow> bool) \<Rightarrow> user_info list \<Rightarrow> 's controller \<Rightarrow> bool" where
  "list_ok account_ok us c \<longleftrightarrow> distinct (map Uuid us) \<and> ids_agree (user_list c) us \<and>
     (case info c of None \<Rightarrow> True | Some n \<Rightarrow> list_all (account_ok (tag c) n) us)"

definition legal_op ::
    "(string \<Rightarrow> node_info \<Rightarrow> user_info \<Rightarrow> bool) \<Rightarrow> ('b, 's) ctl_env \<Rightarrow> 'b ctl_op \<Rightarrow> 's controller \<Rightarrow> bool" where
  "legal_op account_ok env op c \<longleftrightarrow>
     (case op of
        Round r \<Rightarrow> quiet r \<and> (case round_list env r c of None \<Rightarrow> True | Some us \<Rightarrow> list_ok account_ok us c)
      | WsAdd us \<Rightarrow> list_ok account_ok us c \<and> list_all (\<lambda>u. list_all (\<lambda>v. Id u = Id v \<longrightarrow> Uuid u = Uuid v) us) (user_list c)
      | _ \<Rightarrow> True)"

inductive ctl_step ::
    "(string \<Rightarrow> node_info \<Rightarrow> user_info \<Rightarrow> bool) \<Rightarrow> ('b, 's) ctl_env \<Rightarrow> 's controller \<Rightarrow> 's controller \<Rightarrow> bool"
  for account_ok env where
  do_ctl: "legal_op account_ok env op c \<Longrightarrow> info c \<noteq> None \<Longrightarrow> ctl_step account_ok env c (do_ctl env op c)"

inductive_cases ctl_stepE: "ctl_step account_ok env c c'"

lemma quiet_round:
  "quiet r \<Longrightarrow> node_info_monitor env r c =
     (case get_user_list (env_show_users env) (rep_users r) (api_client c) of
        (Inl e, a2) \<Rightarrow> c\<lparr>api_client := a2\<rparr>
      | (Inr newU, a2) \<Rightarrow> monitor_users env newU (fetch_alive (rep_alive r) (c\<lparr>api_client := a2\<rparr>)) (c\<lparr>api_client := a2\<rparr>))"
  by (simp add: node_info_monitor_def get_node_info_def quiet_def Let_def split: prod.splits sum.splits)

lemma send_devices_frame: "send_devices unix m c = (ok, c') \<Longrightarrow> \<exists>w. c' = c\<lparr>ws_client := w\<rparr>"
  by (auto simp: send_devices_def split: option.splits prod.splits intro: exI [of _ "ws_client c"])

lemma in_sync_device_report: "in_sync serves c \<Longrightarrow> in_sync serves (report_devices_task sha now unix (\<lambda>l. l) c)"
  unfolding report_devices_task_def Let_def
  by (auto simp: purge_frame report_frame on_limiter_id intro!: in_sync_limiter
      dest!: send_devices_frame split: prod.splits bool.splits)

context total_core
begin

lemma in_sync_ws_add:
  assumes sy: "in_sync serves c" and ok: "list_ok account_ok us c"
    and ids: "list_all (\<lambda>u. list_all (\<lambda>v. Id u = Id v \<longrightarrow> Uuid u = Uuid v) us) (user_list c)" and i: "info c = Some n"
  shows "in_sync serves (add_users_by_ws core us c)"
proof -
  let ?t = "tag c" and ?f = "filter (\<lambda>u. Uuid u \<noteq> '''' \<and> Id u \<notin> Id ` set (user_list c)) us"
  have "distinct (map Uuid us)" using ok by (simp add: list_ok_def)
  then have d: "distinct (map Uuid ?f)" by (rule distinct_map_filter)
  have new: "Uuid ` set ?f \<inter> Uuid ` set (user_list c) = {}"
    using ok by (auto simp: list_ok_def ids_agree_def list_all_iff image_iff)
  have sv: "serves ?t (server c) = Some (tags_of ?t (user_list c))" using sy by (simp add: in_sync_def)
  show ?thesis
  proof (cases "?f = []")
    case True
    then show ?thesis using sy by (simp add: add_users_by_ws_def Let_def)
  next
    case False
    have "list_all (account_ok ?t n) ?f" using ok i by (auto simp: list_ok_def list_all_iff)
    moreover have "user_tag ?t ` Uuid ` set ?f \<inter> tags_of ?t (user_list c) = {}"
      using new by (auto simp: tags_of_def)
    ultimately obtain k s where s: "co_add_users core ?t ?f n (server c) = (k, None, s)"
      using add_total [OF sv False d] by blast
    have "serves ?t s = Some (tags_of ?t (user_list c @ ?f))"
      using add_serves [OF s] sv by (auto simp: tags_of_def image_Un)
    moreover have "limits_for ?t (user_list c @ ?f) k' =
        (case limits_for ?t ?f k' of None \<Rightarrow> limits_for ?t (user_list c) k' | Some v \<Rightarrow> Some v)" for k'
    proof (cases "limits_for ?t ?f k'")
      case (Some v)
      then have "k' \<in> user_tag ?t ` Uuid ` set ?f" using limits_for_None [of ?t ?f k'] by simp
      then have "k' \<notin> user_tag ?t ` Uuid ` set (user_list c)" using new by auto
      then have "limits_for ?t (user_list c) k' = None" by (simp add: limits_for_None)
      then show ?thesis using Some by (simp add: limits_for_def map_add_def)
    qed (simp add: limits_for_def map_add_def split: option.splits)
    moreover have "add_users_by_ws core us c =
        on_limiter (update_user ?t ?f [] []) (c\<lparr>user_list := user_list c @ ?f, server := s\<rparr>)"
      using False i s by (auto simp: add_users_by_ws_def Let_def)
    moreover have "distinct (map Uuid (user_list c @ ?f))"
      using sy d new by (simp add: in_sync_def Int_commute)
    ultimately show ?thesis
      using sy d by (simp add: in_sync_def update_user_def inserted_table fun_eq_iff del: filter_append cong: option.case_cong)
  qed
qed

lemma in_sync_op:
  assumes sy: "in_sync serves c" and lo: "legal_op account_ok env op c" and i: "info c = Some n" and e: "env_core env = core"
  shows "in_sync serves (do_ctl env op c) \<and> info (do_ctl env op c) = info c"
proof (cases op)
  case (Round r)
  let ?u = "get_user_list (env_show_users env) (rep_users r) (api_client c)"
  obtain res a where res: "?u = (res, a)" by (cases ?u)
  note q = quiet_round [of r env c, unfolded res]
  have quiet: "quiet r" using lo Round by (simp add: legal_op_def)
  show ?thesis
  proof (cases "round_list env r c")
    case None
    then show ?thesis
      using Round q [OF quiet] sy res
      by (auto simp: round_list_def monitor_users_def update_alive_def set_alive_list_def Let_def
          intro!: in_sync_limiter split: sum.splits option.splits)
  next
    case (Some us)
    let ?c = "update_alive (fetch_alive (rep_alive r) (c\<lparr>api_client := a\<rparr>)) (c\<lparr>api_client := a\<rparr>)"
    have r: "res = Inr (Some us)" using Some res by (auto simp: round_list_def split: sum.splits option.splits)
    have f: "user_list ?c = user_list c" "tag ?c = tag c" "info ?c = Some n"
      using i by (simp_all add: update_alive_def split: option.splits)
    have ok: "list_ok account_ok us c" using lo Round Some by (simp add: legal_op_def)
    have "in_sync serves ?c" by (rule in_sync_alive) (simp add: sy)
    then have "in_sync serves (sync_users core n us ?c) \<and> info (sync_users core n us ?c) = info ?c"
      using sync_users_total [of ?c us n] ok i f by (simp add: list_ok_def)
    then show ?thesis
      using Round q [OF quiet] r e f i by (simp add: monitor_users_def Let_def)
  qed
next
  case (WsAdd us)
  then show ?thesis
    using in_sync_ws_add [OF sy _ _ i, of us] lo e i
    by (auto simp: legal_op_def add_users_by_ws_def Let_def split: prod.splits option.splits)
next
  case (DeviceReport now unix)
  then show ?thesis
    using in_sync_device_report [OF sy] by (auto simp: report_devices_task_def Let_def dest!: send_devices_frame split: prod.splits bool.splits)
next
  case (TrafficReport failed)
  then show ?thesis
    using sy traffic_serves e by (auto simp: report_traffic_round_def in_sync_def split: prod.splits)
next
  case (OpenConn now r k ip tcp)
  have "user_limit_info (fst (snd (snd (check_limit now r k ip tcp l)))) = user_limit_info l" for l
    using check_user_info [of now r k ip tcp l] by (cases "check_limit now r k ip tcp l") auto
  then show ?thesis using OpenConn in_sync_limiter [OF sy] by simp
qed (use sy in \<open>simp_all add: on_device_def on_status_def in_sync_limiter report_frame kick_device_frame\<close>)

lemma in_sync_step:
  "env_core env = core \<Longrightarrow> ctl_step account_ok env c c' \<Longrightarrow> in_sync serves c \<Longrightarrow> in_sync serves c'"
  by (erule ctl_stepE) (use in_sync_op in blast)

end

sublocale total_core \<subseteq> runs: kept_by_steps
    "\<lambda>c c'. env_core env = core \<and> ctl_step account_ok env c c'" "in_sync serves" for env
  by unfold_locales (metis in_sync_step)

lemma steps_with_core:
  "(ctl_step ok env)\<^sup>*\<^sup>* c c' \<Longrightarrow> env_core env = core \<Longrightarrow> (\<lambda>c c'. env_core env = core \<and> ctl_step ok env c c')\<^sup>*\<^sup>* c c'"
  by (erule rtranclp_mono [THEN predicate2D, rotated]) auto

context total_core
begin

lemma runs_in_sync:
  "env_core env = core \<Longrightarrow> in_sync serves c \<Longrightarrow> (ctl_step account_ok env)\<^sup>*\<^sup>* c c' \<Longrightarrow> in_sync serves c'"
  by (rule runs.reach_keeps [OF steps_with_core])

lemma round_takes:
  assumes sy: "in_sync serves c" and e: "env_core env = core" and q: "quiet r" and i: "info c = Some n"
    and l: "round_list env r c = Some us" and ok: "list_ok account_ok us c"
  shows "user_list (node_info_monitor env r c) = us"
proof -
  obtain a where u: "get_user_list (env_show_users env) (rep_users r) (api_client c) = (Inr (Some us), a)"
    using l by (auto simp: round_list_def split: prod.splits sum.splits option.splits)
  let ?c = "update_alive (fetch_alive (rep_alive r) (c\<lparr>api_client := a\<rparr>)) (c\<lparr>api_client := a\<rparr>)"
  have f: "user_list ?c = user_list c" "tag ?c = tag c" "info ?c = Some n"
    using i by (simp_all add: update_alive_def split: option.splits)
  have "in_sync serves ?c" by (rule in_sync_alive) (simp add: sy)
  then have "user_list (sync_users core n us ?c) = us"
    using sync_users_total [of ?c us n] ok i f by (simp add: list_ok_def)
  then show ?thesis by (simp add: quiet_round [OF q] u monitor_users_def Let_def f e)
qed

end


definition user_json :: "user_info \<Rightarrow> json" where
  "user_json u = JObj [(''id'', JNum (itoa (Id u))), (''uuid'', JStr (Uuid u)),
     (''speed_limit'', JNum (itoa (SpeedLimit u))), (''device_limit'', JNum (itoa (DeviceLimit u)))]"

definition user_a :: user_info where "user_a = \<lparr>Id = 1, Uuid = ''a'', SpeedLimit = 0, DeviceLimit = 2\<rparr>"
definition user_b :: user_info where "user_b = \<lparr>Id = 2, Uuid = ''b'', SpeedLimit = 0, DeviceLimit = 0\<rparr>"

definition demo_node :: node_info where
  "demo_node = \<lparr>ni_id = 7, ni_type = ''shadowsocks'', ni_security = 0, ni_push = 60 * second, ni_pull = 60 * second,
     ni_dns = \<lparr>dns_map = [], dns_json = ''''\<rparr>, ni_rules = \<lparr>rl_regexp = [], rl_protocol = []\<rparr>,
     ni_proto = Shadowsocks \<lparr>ss_cipher = ''aes-128-gcm'', ss_server_key = ''''\<rparr>,
     ni_common = \<lparr>cn_host = '''', cn_port = 443, cn_server_name = '''', cn_routes = [], cn_base = None\<rparr>\<rparr>"

definition demo_env :: "(string, string list xray) ctl_env" where
  "demo_env = \<lparr>env_core = xray_core set_ops (\<lambda>t n opts x. \<lparr>nb_dns = None, nb_inbound = Inr (Inbound []), nb_add_in = None,
       nb_outbound = None, nb_add_out = None\<rparr>) (\<lambda>t x. (None, None)),
     env_options = default_options\<lparr>opt_name := ''t'', opt_core := ''xray''\<rparr>,
     env_parse = (\<lambda>b. None), env_show = (\<lambda>b. b), env_show_users = (\<lambda>b. ''''), env_sha_body = (\<lambda>b. b),
     env_sha = (\<lambda>s. CHR ''#'' # s), env_num = (\<lambda>s. 0), env_re_ok = (\<lambda>s. True), env_cert = (\<lambda>n. None)\<rparr>"

definition demo_ctl :: "string list xray controller" where
  "demo_ctl = (new_controller \<lparr>inbounds = [(''t'', Inbound [''t|a''])], uid_map = [(''t|a'', 1)], min_traffic = [],
       cells = [], counters = [], links = no_links\<rparr> demo_client
       \<lparr>lim_heap = [new_limiter ''t'' 0 [user_a] []], lim_table = [(''t'', 0)]\<rparr>)
     \<lparr>tag := ''t'', the_limiter := Some 0, user_list := [user_a], info := Some demo_node\<rparr>"

definition unchanged :: "'b \<Rightarrow> 'b reply" where
  "unchanged b = \<lparr>r_nil = False, r_err = None, r_status = 304, r_body = b, r_etag = ''''\<rparr>"

definition list_round :: "user_info list \<Rightarrow> string replies" where
  "list_round us = \<lparr>rep_config = unchanged '''', rep_users = ok_reply (Some (JObj [(''users'', JArr (map user_json us))])) ''e'',
     rep_alive = unchanged None\<rparr>"

lemma demo_in_sync: "in_sync (xray_serves set) demo_ctl"
proof -
  have "cur_limiter demo_ctl = new_limiter ''t'' 0 [user_a] []" "has_limiter demo_ctl"
    by (simp_all add: demo_ctl_def cur_limiter_def limiter_at_def has_limiter_def new_controller_def)
  moreover have "map_of (user_limit_info (new_limiter ''t'' 0 [user_a] [])) = limits_for ''t'' [user_a]"
    by (rule new_limiter_table) simp
  ultimately show ?thesis
    by (simp add: in_sync_def demo_ctl_def new_controller_def tags_of_def user_a_def user_tag_def xray_serves_def get_user_manager_def)
qed

lemma demo_complete: "complete_manager set_ops set"
  by (rule lm.complete_manager_axioms)


section \<open>A user removed by push\<close>

definition reply_list :: "'b replies \<Rightarrow> user_info list option" where
  "reply_list r =
     (let u = rep_users r in
        if r_nil u \<or> r_status u = 304 \<or> r_err u \<noteq> None \<or> r_status u \<ge> 400 then None
        else case decode_user_list (r_body u) of Some (Some us) \<Rightarrow> Some us | _ \<Rightarrow> None)"

lemma round_list_reply: "round_list env r c = reply_list r"
  by (auto simp: round_list_def reply_list_def get_user_list_def check_response_def Let_def split: option.splits)

text \<open>A quiet round whose list, if it brings one, does not have the user.\<close>

definition round_without :: "user_info \<Rightarrow> 'b replies \<Rightarrow> bool" where
  "round_without u r \<longleftrightarrow> quiet r \<and>
     (case reply_list r of None \<Rightarrow> True | Some us \<Rightarrow> distinct (map Uuid us) \<and> Uuid u \<notin> Uuid ` set us)"

definition stuck_on :: "(string \<Rightarrow> 's \<Rightarrow> string set option) \<Rightarrow> user_info \<Rightarrow> 's controller \<Rightarrow> bool" where
  "stuck_on serves u c \<longleftrightarrow> u \<in> set (user_list c) \<and> distinct (map Uuid (user_list c)) \<and> info c \<noteq> None \<and>
     (\<exists>es. serves (tag c) (server c) = Some es \<and> user_tag (tag c) (Uuid u) \<notin> es)"

definition served :: "(string \<Rightarrow> 's \<Rightarrow> string set option) \<Rightarrow> 's controller \<Rightarrow> string set" where
  "served serves c = (case serves (tag c) (server c) of None \<Rightarrow> {} | Some es \<Rightarrow> es)"

context user_core
begin

lemma stuck_sync:
  assumes st: "stuck_on serves u c" and us: "distinct (map Uuid us)" "Uuid u \<notin> Uuid ` set us"
  shows "stuck_on serves u (sync_users core n us c) \<and> user_list (sync_users core n us c) = user_list c
    \<and> served serves (sync_users core n us c) \<subseteq> served serves c"
proof -
  obtain d a m where cmp: "compare_user_list (user_list c) us = (d, a, m)" by (cases "compare_user_list (user_list c) us")
  obtain es where es: "serves (tag c) (server c) = Some es" "user_tag (tag c) (Uuid u) \<notin> es"
    using st by (auto simp: stuck_on_def)
  have old: "distinct (map Uuid (user_list c))" using st by (simp add: stuck_on_def)
  have u: "u \<in> set d" using compare_spec [OF old us(1) cmp] st us(2) by (auto simp: stuck_on_def)
  obtain err s where s: "co_del_users core d (tag c) n (server c) = (Some err, s)"
    using del_absent [OF u es] by blast
  obtain es' where es': "serves (tag c) s = Some es'" "es' \<subseteq> es" using del_shrinks [OF s es(1)] by blast
  have "d \<noteq> []" using u by auto
  then have "sync_users core n us c = c\<lparr>server := s\<rparr>"
    by (simp add: sync_users_def cmp apply_deleted_def s)
  then show ?thesis using st es es' by (auto simp: stuck_on_def served_def)
qed

lemma stuck_round:
  assumes st: "stuck_on serves u c" and e: "env_core env = core" and r: "round_without u r"
  shows "stuck_on serves u (node_info_monitor env r c) \<and> user_list (node_info_monitor env r c) = user_list c
    \<and> served serves (node_info_monitor env r c) \<subseteq> served serves c"
proof -
  have q: "quiet r" using r by (simp add: round_without_def)
  obtain res a where u: "get_user_list (env_show_users env) (rep_users r) (api_client c) = (res, a)"
    by (cases "get_user_list (env_show_users env) (rep_users r) (api_client c)")
  let ?c = "update_alive (fetch_alive (rep_alive r) (c\<lparr>api_client := a\<rparr>)) (c\<lparr>api_client := a\<rparr>)"
  have same: "user_list ?c = user_list c" "tag ?c = tag c" "info ?c = info c" "server ?c = server c"
    by (simp_all add: update_alive_def split: option.splits)
  then have st': "stuck_on serves u ?c" "served serves ?c = served serves c"
    using st by (simp_all add: stuck_on_def served_def)
  show ?thesis
  proof (cases res)
    case (Inl err)
    then show ?thesis using st by (simp add: quiet_round [OF q] u stuck_on_def served_def)
  next
    case (Inr newU)
    show ?thesis
    proof (cases newU)
      case None
      then show ?thesis using st' same Inr by (simp add: quiet_round [OF q] u monitor_users_def Let_def)
    next
      case (Some us)
      have "reply_list r = Some us" using u Inr Some by (simp add: round_list_reply [of env r c, symmetric] round_list_def)
      then have us: "distinct (map Uuid us)" "Uuid u \<notin> Uuid ` set us" using r by (simp_all add: round_without_def)
      obtain n where n: "info c = Some n" using st by (auto simp: stuck_on_def)
      show ?thesis
        using stuck_sync [OF st'(1) us, of n] st'(2) same n Inr Some
        by (simp add: quiet_round [OF q] u monitor_users_def Let_def e)
    qed
  qed
qed

lemma stuck_rounds:
  "stuck_on serves u c \<Longrightarrow> env_core env = core \<Longrightarrow> list_all (round_without u) rs \<Longrightarrow>
     stuck_on serves u (fold (node_info_monitor env) rs c) \<and> user_list (fold (node_info_monitor env) rs c) = user_list c
     \<and> served serves (fold (node_info_monitor env) rs c) \<subseteq> served serves c"
proof (induction rs arbitrary: c)
  case (Cons r rs)
  have "stuck_on serves u (node_info_monitor env r c) \<and> user_list (node_info_monitor env r c) = user_list c
      \<and> served serves (node_info_monitor env r c) \<subseteq> served serves c"
    using stuck_round [of u c env r] Cons.prems by simp
  then show ?case using Cons.IH [of "node_info_monitor env r c"] Cons.prems by auto
qed simp

lemma removed_is_stuck:
  assumes sy: "in_sync serves c" and i: "info c = Some n" and u: "u \<in> set (user_list c)"
    and ok: "fst (co_del_users core (filter (\<lambda>v. Id v = Id u) (user_list c)) (tag c) n (server c)) = None"
  shows "stuck_on serves u (remove_users_by_ids core [Id u] c)
    \<and> user_list (remove_users_by_ids core [Id u] c) = user_list c"
proof -
  let ?d = "filter (\<lambda>v. Id v = Id u) (user_list c)"
  obtain s where s: "co_del_users core ?d (tag c) n (server c) = (None, s)"
    using ok by (cases "co_del_users core ?d (tag c) n (server c)") simp
  have "?d \<noteq> []" using u by (auto simp: filter_empty_conv)
  then have c1: "remove_users_by_ids core [Id u] c = on_limiter (update_user (tag c) [] ?d []) (c\<lparr>server := s\<rparr>)"
    by (simp add: remove_users_by_ids_def Let_def i s)
  show ?thesis
    using del_serves [OF s] sy u i unfolding c1 by (auto simp: stuck_on_def in_sync_def)
qed

end



end
