(* ===== verification/DeviceRounds.thy ===== *)
theory DeviceRounds
  imports ControllerSync
begin

text \<open>
  What the panel knows of a node's devices: the effect of one round of \<^verbatim>\<open>reportDevicesTask\<close> for
  any interference by connections between its snapshot and its reset of the dirty flag.
\<close>

lemma ws_up_client: "ws_client c = Some w \<Longrightarrow> ws_up c = connected w"
  by (simp add: ws_up_def)

lemma on_limiter_same: "has_limiter c \<Longrightarrow> f (cur_limiter c) = cur_limiter c \<Longrightarrow> on_limiter f c = c"
  by (auto simp: has_limiter_def on_limiter_def cur_limiter_def limiter_at_def set_limiter_at_def)

text \<open>The state after the purge of the cooldowns, the snapshot and the interference.\<close>

definition purged :: "int \<Rightarrow> 's controller \<Rightarrow> limiter" where
  "purged now c = snd (devices_dirty now (cur_limiter c))"

lemma round_active:
  assumes l: "has_limiter c" and w: "ws_client c = Some w" "connected w" "write_ch w = Some q" "length q < 16"
    and due: "fst (devices_dirty now (cur_limiter c)) \<or> last_hash c = ''''"
    and m: "m = local_device_snapshot now (purged now c)" and sha: "\<And>s. sha s \<noteq> ''''"
    and c': "c' = report_devices_task sha now unix mid c"
  shows "has_limiter c' \<and> cur_limiter c' = reset_devices_dirty (mid (purged now c)) \<and>
     last_hash c' = (if m = [] then '''' else sha (devices_text m)) \<and>
     (\<exists>w'. ws_client c' = Some w' \<and> connected w' \<and>
        accepted w' = (if last_hash c = last_hash c' then accepted w
                       else accepted w @ [device_message unix (sorted_devices m)]))"
proof -
  let ?c1 = "on_limiter (\<lambda>l. snd (devices_dirty now l)) c" and ?c2 = "on_limiter mid (on_limiter (\<lambda>l. snd (devices_dirty now l)) c)"
  have s: "local_device_snapshot now (cur_limiter ?c1) = m" using l m by (simp add: purged_def)
  have cur: "cur_limiter ?c2 = mid (purged now c)" "has_limiter ?c2" using l by (simp_all add: purged_def)
  note send = send_room [of ?c2 w q unix, OF _ w(2,3,4)]
  have c'_eq: "c' = (if m = [] then
      (if last_hash c \<noteq> '''' then
         (case send_devices unix [] ?c2 of (False, c3) \<Rightarrow> c3
          | (True, c3) \<Rightarrow> on_limiter reset_devices_dirty (c3\<lparr>last_hash := ''''\<rparr>))
       else on_limiter reset_devices_dirty ?c2)
     else if sha (devices_text m) = last_hash c then on_limiter reset_devices_dirty ?c2
     else (case send_devices unix (sorted_devices m) ?c2 of (False, c3) \<Rightarrow> c3
           | (True, c3) \<Rightarrow> on_limiter reset_devices_dirty (c3\<lparr>last_hash := sha (devices_text m)\<rparr>)))"
    unfolding c' report_devices_task_def Let_def s using due w by (auto simp: ws_up_def devices_hash_def)
  show ?thesis
  proof (cases "m = []")
    case True
    then show ?thesis
      using c'_eq w cur send by (cases "last_hash c = ''''") (simp_all add: sorted_devices_def)
  next
    case False
    then show ?thesis
      using c'_eq w cur send sha by (cases "sha (devices_text m) = last_hash c") auto
  qed
qed

text \<open>C38. A round of the device report with room in the queue brings the panel up to date with the
  snapshot it took: it sends the whole table if and only if the hash of the last report
  differs (an empty table if the devices are gone since), and remembers the new hash. After a
  reconnect (no hash) or a change it does so without fail, and unchanged sets are not sent
  again.\<close>

theorem device_round_reports:
  "has_limiter c \<Longrightarrow> ws_client c = Some w \<Longrightarrow> connected w \<Longrightarrow> write_ch w = Some q \<Longrightarrow> length q < 16 \<Longrightarrow>
     fst (devices_dirty now (cur_limiter c)) \<or> last_hash c = '''' \<Longrightarrow>
     m = local_device_snapshot now (purged now c) \<Longrightarrow> (\<forall>s. sha s \<noteq> '''') \<Longrightarrow>
     c' = report_devices_task sha now unix mid c \<Longrightarrow>
     last_hash c' = (if m = [] then '''' else sha (devices_text m)) \<and>
     (\<exists>w'. ws_client c' = Some w' \<and>
        accepted w' = (if last_hash c = last_hash c' then accepted w
                       else accepted w @ [device_message unix (sorted_devices m)]))"
  using round_active [of c w q now m sha c' unix mid] by metis

text \<open>The demonstration controller with a connection of user 1 and an open WebSocket.\<close>

definition demo_ws_ctl :: "string list xray controller" where
  "demo_ws_ctl = demo_ctl\<lparr>ws_client := Some (ws_install (new_ws\<lparr>connected := True\<rparr>)),
     all_limiters := \<lparr>lim_heap = [conn_opened 1 ''1.1.1.1'' (new_limiter ''t'' 0 [user_a] [])], lim_table = [(''t'', 0)]\<rparr>\<rparr>"

lemma demo_ws:
  "has_limiter demo_ws_ctl"
  "ws_client demo_ws_ctl = Some \<lparr>connected = True, write_ch = Some [request_devices], written = [], accepted = [request_devices]\<rparr>"
  "cur_limiter demo_ws_ctl = conn_opened 1 ''1.1.1.1'' (new_limiter ''t'' 0 [user_a] [])"
  "last_hash demo_ws_ctl = ''''"
  by (simp_all add: demo_ws_ctl_def demo_ctl_def has_limiter_def cur_limiter_def limiter_at_def new_controller_def
      ws_install_def try_send_def chan_cap_def request_devices_def new_ws_def)

lemma demo_ws_snapshot: "local_device_snapshot 5 (purged 5 demo_ws_ctl) = [(1, [''1.1.1.1''])]"
  unfolding purged_def demo_ws by code_simp

theorem device_round_reports_witness:
  "\<exists>w'. ws_client (report_devices_task (\<lambda>s. CHR ''#'' # s) 5 9 (\<lambda>l. l) demo_ws_ctl) = Some w' \<and>
     accepted w' = [request_devices, device_message 9 [(1, [''1.1.1.1''])]]"
proof -
  let ?c = "report_devices_task (\<lambda>s. CHR ''#'' # s) 5 9 (\<lambda>l. l) demo_ws_ctl"
  have D: "last_hash ?c = (if [(1::int, [''1.1.1.1''])] = [] then '''' else CHR ''#'' # devices_text [(1, [''1.1.1.1''])]) \<and>
     (\<exists>w'. ws_client ?c = Some w' \<and> accepted w' = (if last_hash demo_ws_ctl = last_hash ?c
        then accepted \<lparr>connected = True, write_ch = Some [request_devices], written = [], accepted = [request_devices]\<rparr>
        else accepted \<lparr>connected = True, write_ch = Some [request_devices], written = [], accepted = [request_devices]\<rparr>
          @ [device_message 9 (sorted_devices [(1, [''1.1.1.1''])])]))"
    by (rule device_round_reports [where c = demo_ws_ctl and q = "[request_devices]" and sha = "\<lambda>s. CHR ''#'' # s" and now = 5 and unix = 9 and mid = "\<lambda>l. l",
          OF demo_ws(1,2) _ _ _ disjI2 [OF demo_ws(4)] demo_ws_snapshot [symmetric] _ refl]) simp_all
  then have ne: "last_hash demo_ws_ctl \<noteq> last_hash ?c" by (simp add: demo_ws(4))
  show ?thesis using conjunct2 [OF D] unfolding if_not_P [OF ne] by (simp add: sorted_devices_def)
qed

text \<open>A change of the devices between the snapshot of a round and its reset of the dirty flag is
  not reported. Whatever connections do in between (\<open>mid\<close>, for instance open the first
  connection of a new device), the round ends with the flag cleared and the hash of the old
  snapshot, and the next round sends nothing, at any later time, as long as nothing else
  changes: the panel keeps the old table although the snapshot would now be another.\<close>

theorem change_during_report_lost:
  "has_limiter c \<Longrightarrow> ws_client c = Some w \<Longrightarrow> connected w \<Longrightarrow> write_ch w = Some q \<Longrightarrow> length q < 16 \<Longrightarrow>
     fst (devices_dirty now (cur_limiter c)) \<or> last_hash c = '''' \<Longrightarrow>
     m = local_device_snapshot now (purged now c) \<Longrightarrow> m \<noteq> [] \<Longrightarrow> (\<forall>s. sha s \<noteq> '''') \<Longrightarrow>
     cooldown_count (mid (purged now c)) = 0 \<Longrightarrow> c' = report_devices_task sha now unix mid c \<Longrightarrow>
     report_devices_task sha later unix' (\<lambda>l. l) c' = c' \<and> last_hash c' = sha (devices_text m) \<and>
     cur_limiter c' = reset_devices_dirty (mid (purged now c))"
proof -
  assume l: "has_limiter c" and w: "ws_client c = Some w" "connected w" "write_ch w = Some q" "length q < 16"
    and due: "fst (devices_dirty now (cur_limiter c)) \<or> last_hash c = ''''"
    and m: "m = local_device_snapshot now (purged now c)" "m \<noteq> []" and sha: "\<forall>s. sha s \<noteq> ''''"
    and none: "cooldown_count (mid (purged now c)) = 0" and c': "c' = report_devices_task sha now unix mid c"
  note r = round_active [OF l w due m(1) sha [rule_format] c']
  have clean: "devices_dirty later (cur_limiter c') = (False, cur_limiter c')"
    using r none by (simp add: devices_dirty_def purge_expired_cooldowns_def reset_devices_dirty_def)
  have "on_limiter (\<lambda>l. snd (devices_dirty later l)) c' = c'"
    using clean r by (intro on_limiter_same) auto
  then show ?thesis
    using r m(2) sha clean by (auto simp: report_devices_task_def ws_up_def Let_def)
qed

theorem change_during_report_lost_witness:
  "let c' = report_devices_task (\<lambda>s. CHR ''#'' # s) 5 9 (conn_opened 2 ''9.9.9.9'') demo_ws_ctl
   in report_devices_task (\<lambda>s. CHR ''#'' # s) 10000000005 19 (\<lambda>l. l) c' = c' \<and>
      local_device_snapshot 10000000005 (cur_limiter c') = [(1, [''1.1.1.1'']), (2, [''9.9.9.9''])]"
proof -
  have z: "cooldown_count (conn_opened 2 ''9.9.9.9'' (purged 5 demo_ws_ctl)) = 0"
    unfolding purged_def demo_ws by code_simp
  have s: "local_device_snapshot 10000000005 (reset_devices_dirty (conn_opened 2 ''9.9.9.9'' (purged 5 demo_ws_ctl)))
      = [(1, [''1.1.1.1'']), (2, [''9.9.9.9''])]"
    unfolding purged_def demo_ws by code_simp
  let ?c = "report_devices_task (\<lambda>s. CHR ''#'' # s) 5 9 (conn_opened 2 ''9.9.9.9'') demo_ws_ctl"
  have "report_devices_task (\<lambda>s. CHR ''#'' # s) 10000000005 19 (\<lambda>l. l) ?c = ?c \<and>
      last_hash ?c = CHR ''#'' # devices_text [(1, [''1.1.1.1''])] \<and>
      cur_limiter ?c = reset_devices_dirty (conn_opened 2 ''9.9.9.9'' (purged 5 demo_ws_ctl))"
    by (rule change_during_report_lost [where c = demo_ws_ctl and q = "[request_devices]" and sha = "\<lambda>s. CHR ''#'' # s" and now = 5 and unix = 9
        and mid = "conn_opened 2 ''9.9.9.9''" and later = 10000000005 and unix' = 19, OF demo_ws(1,2) _ _ _ disjI2 [OF demo_ws(4)] demo_ws_snapshot [symmetric] _ _ z refl])
      simp_all
  then show ?thesis using s by (simp add: Let_def)
qed

end
