(* ===== verification/Dispatcher.thy ===== *)
theory Dispatcher
  imports ControllerSync
begin

text \<open>
  The dispatcher of the Xray core (\<^verbatim>\<open>core/xray/app/dispatcher/default.go\<close>): how a connection is
  admitted, attached, judged by the rules, routed and at last given back. Session, router and
  outbound handlers are Xray's: what they answer is an argument. \<open>get_link\<close> is \<^verbatim>\<open>getLink\<close>,
  \<open>dispatch_link\<close> the admission part of \<^verbatim>\<open>DispatchLink\<close>; \<^verbatim>\<open>routedDispatch\<close> is cut into its
  entry (which defers \<^verbatim>\<open>ConnClosed\<close>), its verdict and its return. \<open>dsys_step\<close> interleaves any
  number of connections; the lemmas tie the limiter's counts to them.
\<close>

section \<open>Admission\<close>

record session =
  s_email :: string
  s_tag :: string
  s_ip :: string

definition tracked :: "session \<Rightarrow> bool" where
  "tracked s \<longleftrightarrow> s_email s \<noteq> '''' \<and> s_tag s \<noteq> ''''"

record 'u dstate =
  ds_limiters :: limiters
  ds_xray :: "'u xray"

text \<open>What an admitted connection holds: its limiter, its managed writer, its traffic counter, and
  the bucket that limits both directions.\<close>

record link =
  lk_limiter :: "nat option"
  lk_writer :: "nat option"
  lk_counter :: "nat option"
  lk_bucket :: "bucket option"

definition plain_link :: link where
  "plain_link = \<lparr>lk_limiter = None, lk_writer = None, lk_counter = None, lk_bucket = None\<rparr>"

definition find_limiter :: "string \<Rightarrow> 'u dstate \<Rightarrow> nat option" where
  "find_limiter t st = map_of (lim_table (ds_limiters st)) t"

definition put_limiter :: "nat \<Rightarrow> limiter \<Rightarrow> 'u dstate \<Rightarrow> 'u dstate" where
  "put_limiter a l st = st\<lparr>ds_limiters := set_limiter_at a l (ds_limiters st)\<rparr>"

definition lim_of :: "nat \<Rightarrow> 'u dstate \<Rightarrow> limiter" where
  "lim_of a st = limiter_at a (ds_limiters st)"

definition get_link ::
    "int \<Rightarrow> nat \<Rightarrow> bool \<Rightarrow> session \<Rightarrow> 'u dstate \<Rightarrow> (string + link) \<times> 'u dstate \<times> kick list" where
  "get_link now r tcp s st =
     (if \<not> tracked s then (Inr plain_link, st, [])
      else case find_limiter (s_tag s) st of
             None \<Rightarrow> (Inl (''get limiter '' @ s_tag s @ '' error: not found''), st, [])
           | Some a \<Rightarrow>
               (case check_limit now r (s_email s) (s_ip s) tcp (lim_of a st) of
                  (w, reject, l, ks) \<Rightarrow>
                    (let st1 = put_limiter a l st in
                       if reject then (Inl (''Limited '' @ s_email s @ '' by conn or ip''), st1, ks)
                       else
                         (case open_link (s_email s) (s_ip s) (links (ds_xray st1)) of
                            (wr, ls) \<Rightarrow>
                              (case conn_counter (s_tag s) (s_email s) ((ds_xray st1)\<lparr>links := ls\<rparr>) of
                                 (ca, x) \<Rightarrow>
                                   (Inr \<lparr>lk_limiter = Some a, lk_writer = Some wr, lk_counter = Some ca, lk_bucket = w\<rparr>,
                                    st1\<lparr>ds_xray := x\<rparr>, ks))))))"

text \<open>\<^verbatim>\<open>DispatchLink\<close> fetches the manager first and adds the link last, after the counter.\<close>

definition dispatch_link ::
    "int \<Rightarrow> nat \<Rightarrow> bool \<Rightarrow> session \<Rightarrow> 'u dstate \<Rightarrow> (string + link) \<times> 'u dstate \<times> kick list" where
  "dispatch_link now r tcp s st =
     (if \<not> tracked s then (Inr plain_link, st, [])
      else case find_limiter (s_tag s) st of
             None \<Rightarrow> (Inl (''get limiter '' @ s_tag s @ '' error: not found''), st, [])
           | Some a \<Rightarrow>
               (case check_limit now r (s_email s) (s_ip s) tcp (lim_of a st) of
                  (w, reject, l, ks) \<Rightarrow>
                    (let st1 = put_limiter a l st in
                       if reject then (Inl (''Limited '' @ s_email s @ '' by conn or ip''), st1, ks)
                       else
                         (case load_manager (s_email s) (links (ds_xray st1)) of
                            (m, ls) \<Rightarrow>
                              (case conn_counter (s_tag s) (s_email s) ((ds_xray st1)\<lparr>links := ls\<rparr>) of
                                 (ca, x) \<Rightarrow>
                                   (case attach_link m (s_ip s) (links x) of
                                      (wr, ls') \<Rightarrow>
                                        (Inr \<lparr>lk_limiter = Some a, lk_writer = Some wr, lk_counter = Some ca, lk_bucket = w\<rparr>,
                                         st1\<lparr>ds_xray := x\<lparr>links := ls'\<rparr>\<rparr>, ks)))))))"

lemma dispatch_link_eq: "dispatch_link now r tcp s st = get_link now r tcp s st"
  by (simp add: dispatch_link_def get_link_def open_link_def conn_counter_def Let_def
      split: option.splits prod.splits)

section \<open>\<^verbatim>\<open>routedDispatch\<close>\<close>

text \<open>The limiter on which \<^verbatim>\<open>ConnClosed\<close> is deferred.\<close>

definition rd_enter :: "bool \<Rightarrow> session \<Rightarrow> 'u dstate \<Rightarrow> nat option" where
  "rd_enter tcp s st = (if tracked s \<and> tcp then find_limiter (s_tag s) st else None)"

definition rd_leave :: "session \<Rightarrow> nat option \<Rightarrow> 'u dstate \<Rightarrow> 'u dstate" where
  "rd_leave s deferred st =
     (case deferred of None \<Rightarrow> st | Some a \<Rightarrow> put_limiter a (conn_closed (s_email s) (s_ip s) (lim_of a st)) st)"

datatype verdict =
    RejectDomain
  | RejectProtocol
  | NoForcedTag
  | NoOutTag
  | NoHandler
  | Handle string

text \<open>What Xray answers: the forced outbound tag, the router's pick (\<open>None\<close> without a router or
  route), the handlers by tag and the default one.\<close>

record routing =
  rt_forced :: string
  rt_picked :: "string option"
  rt_handler :: "string \<Rightarrow> bool"
  rt_default :: "string option"

definition route_verdict :: "routing \<Rightarrow> verdict" where
  "route_verdict rt =
     (let use_default = (case rt_default rt of None \<Rightarrow> NoHandler | Some t \<Rightarrow> Handle t) in
      if rt_forced rt \<noteq> '''' then (if rt_handler rt (rt_forced rt) then Handle (rt_forced rt) else NoForcedTag)
      else case rt_picked rt of
             None \<Rightarrow> use_default
           | Some t \<Rightarrow> if rt_handler rt t then Handle t else NoOutTag)"

definition rules_verdict :: "(string \<Rightarrow> string \<Rightarrow> bool) \<Rightarrow> string \<Rightarrow> string \<Rightarrow> limiter option \<Rightarrow> verdict option" where
  "rules_verdict re_match dest protocol l =
     (case l of
        None \<Rightarrow> None
      | Some l \<Rightarrow>
          if check_domain_rule re_match dest l then Some RejectDomain
          else if protocol \<noteq> '''' \<and> check_protocol_rule protocol l then Some RejectProtocol
          else None)"

text \<open>The limiter the rules are taken from: the connection's, else the one registered now.\<close>

definition rd_limiter :: "session \<Rightarrow> link \<Rightarrow> 'u dstate \<Rightarrow> limiter option" where
  "rd_limiter s lk st =
     (if \<not> tracked s then None
      else map_option (\<lambda>a. lim_of a st) (case lk_limiter lk of Some a \<Rightarrow> Some a | None \<Rightarrow> find_limiter (s_tag s) st))"

definition rd_decide ::
    "(string \<Rightarrow> string \<Rightarrow> bool) \<Rightarrow> string \<Rightarrow> string \<Rightarrow> routing \<Rightarrow> session \<Rightarrow> link \<Rightarrow> 'u dstate \<Rightarrow> verdict" where
  "rd_decide re_match dest protocol rt s lk st =
     (case rules_verdict re_match dest protocol (rd_limiter s lk st) of Some v \<Rightarrow> v | None \<Rightarrow> route_verdict rt)"

section \<open>Connections\<close>

text \<open>A connection that has its link, and one inside \<^verbatim>\<open>routedDispatch\<close> with its deferred limiter.\<close>

datatype phase = Linked | Routed "nat option"

record conn =
  cn_session :: session
  cn_tcp :: bool
  cn_phase :: phase

record 'u dsys =
  d_state :: "'u dstate"
  d_conns :: "conn multiset"

inductive dsys_step :: "'u dsys \<Rightarrow> 'u dsys \<Rightarrow> bool" where
  dial: "get_link now r tcp s (d_state d) = (Inr lk, st, ks) \<Longrightarrow> addr_ok (s_ip s) \<Longrightarrow>
    dsys_step d \<lparr>d_state = st, d_conns = add_mset \<lparr>cn_session = s, cn_tcp = tcp, cn_phase = Linked\<rparr> (d_conns d)\<rparr>"
| refused: "get_link now r tcp s (d_state d) = (Inl e, st, ks) \<Longrightarrow> addr_ok (s_ip s) \<Longrightarrow> dsys_step d (d\<lparr>d_state := st\<rparr>)"
| enter: "c \<in># d_conns d \<Longrightarrow> cn_phase c = Linked \<Longrightarrow>
    dsys_step d (d\<lparr>d_conns := add_mset (c\<lparr>cn_phase := Routed (rd_enter (cn_tcp c) (cn_session c) (d_state d))\<rparr>) (d_conns d - {#c#})\<rparr>)"
| leave: "c \<in># d_conns d \<Longrightarrow> cn_phase c = Routed a \<Longrightarrow>
    dsys_step d \<lparr>d_state = rd_leave (cn_session c) a (d_state d), d_conns = d_conns d - {#c#}\<rparr>"
| kicked: "find_limiter t (d_state d) = Some a \<Longrightarrow>
    dsys_step d (d\<lparr>d_state := (put_limiter a (kick_device now k (lim_of a (d_state d))) (d_state d))
      \<lparr>ds_xray := (ds_xray (d_state d))\<lparr>links := kick_by_user_ip (fst (snd k)) (snd (snd k)) (links (ds_xray (d_state d)))\<rparr>\<rparr>\<rparr>)"

inductive_cases dsys_stepE: "dsys_step d d'"

text \<open>The address pairs that the TCP connections of inbound \<open>T\<close> stand for.\<close>

definition counted :: "string \<Rightarrow> conn \<Rightarrow> bool" where
  "counted T c \<longleftrightarrow> tracked (cn_session c) \<and> cn_tcp c \<and> s_tag (cn_session c) = T"

definition live_pairs :: "limiter \<Rightarrow> string \<Rightarrow> conn multiset \<Rightarrow> (int \<times> string) multiset" where
  "live_pairs l T cs =
     (\<Sum>c \<in># filter_mset (counted T) cs. event_pair l (s_email (cn_session c)) (s_ip (cn_session c)))"

text \<open>Limiter \<open>a\<close> belongs to inbound \<open>T\<close> alone, it is well-formed, its counts are the connections',
  and every running connection has deferred the close on the limiter it was counted by.\<close>

definition tied :: "string \<Rightarrow> nat \<Rightarrow> 'u dsys \<Rightarrow> bool" where
  "tied T a d \<longleftrightarrow>
     find_limiter T (d_state d) = Some a \<and> a < length (lim_heap (ds_limiters (d_state d))) \<and>
     (\<forall>t. find_limiter t (d_state d) = Some a \<longrightarrow> t = T) \<and>
     limiter_inv (lim_of a (d_state d)) \<and>
     counts_conns (lim_of a (d_state d)) (live_pairs (lim_of a (d_state d)) T (d_conns d)) \<and>
     (\<forall>c x. c \<in># d_conns d \<longrightarrow> cn_phase c = Routed x \<longrightarrow> x = rd_enter (cn_tcp c) (cn_session c) (d_state d))"

lemma find_put [simp]: "find_limiter t (put_limiter a l st) = find_limiter t st"
  by (simp add: find_limiter_def put_limiter_def set_limiter_at_def)

lemma find_ds_xray [simp]: "find_limiter t (st\<lparr>ds_xray := x\<rparr>) = find_limiter t st"
  by (simp add: find_limiter_def)

lemma lim_put [simp]:
  "lim_of b (st\<lparr>ds_xray := x\<rparr>) = lim_of b st"
  "b < length (lim_heap (ds_limiters st)) \<Longrightarrow> lim_of b (put_limiter a l st) = (if a = b then l else lim_of b st)"
  by (simp_all add: lim_of_def put_limiter_def limiter_at_def set_limiter_at_def)

lemma heap_put [simp]:
  "length (lim_heap (ds_limiters (put_limiter a l st))) = length (lim_heap (ds_limiters st))"
  by (simp add: put_limiter_def set_limiter_at_def)

lemma live_pairs_cong: "user_limit_info l = user_limit_info l' \<Longrightarrow> live_pairs l T cs = live_pairs l' T cs"
  by (simp add: live_pairs_def event_pair_def)

lemma live_pairs_add [simp]:
  "live_pairs l T (add_mset c cs) =
     (if counted T c then event_pair l (s_email (cn_session c)) (s_ip (cn_session c)) else {#}) + live_pairs l T cs"
  by (simp add: live_pairs_def)

lemma live_pairs_empty [simp]: "live_pairs l T {#} = {#}"
  by (simp add: live_pairs_def)

text \<open>What one admission does to the counts of its limiter.\<close>

lemma check_counts:
  assumes c: "check_limit now r k ip tcp l = (w, rej, l', ks)" and inv: "limiter_inv l"
    and M: "counts_conns l M" and ip: "addr_ok ip"
  shows "limiter_inv l' \<and> user_limit_info l' = user_limit_info l \<and>
    counts_conns l' ((if \<not> rej \<and> tcp then event_pair l k ip else {#}) + M)"
proof -
  have fr: "counts_conns (m\<lparr>speed_limiter := sl\<rparr>) N = counts_conns m N"
    "counts_conns (m\<lparr>kick_throttle := th\<rparr>) N = counts_conns m N" for m sl th N
    by (simp_all add: counts_conns_def local_of_def)
  have i: "limiter_inv l'" using inv_check_limit [OF inv c] .
  from c show ?thesis
  proof (cases rule: check_limit_cases)
    case (tcp v ok l1 sl)
    from tcp(3) have "counts_conns l1 ((if ok then {#(ul_uid v, trim_ip ip)#} else {#}) + M)"
      by (cases rule: try_open_cases) (use M ip counts_opened [OF M, of "ul_uid v" "trim_ip ip"] in \<open>simp_all add: fr\<close>)
    then show ?thesis
      using i check_user_info [OF c] tcp by (cases ok) (simp_all add: fr event_pair_def)
  qed (use i M check_user_info [OF c] in \<open>simp_all add: fr\<close>)
qed

text \<open>\<open>get_link\<close>, by cases: not tracked, no limiter, refused, admitted.\<close>

lemma get_link_cases:
  assumes "get_link now r tcp s st = (res, st', ks)"
  obtains (plain) "\<not> tracked s" "res = Inr plain_link" "st' = st" "ks = []"
  | (unknown) e where "tracked s" "find_limiter (s_tag s) st = None" "res = Inl e" "st' = st" "ks = []"
  | (checked) a w rej l x where "tracked s" "find_limiter (s_tag s) st = Some a"
      "check_limit now r (s_email s) (s_ip s) tcp (lim_of a st) = (w, rej, l, ks)"
      "st' = (put_limiter a l st)\<lparr>ds_xray := x\<rparr>" "isl res \<longleftrightarrow> rej" "rej \<Longrightarrow> x = ds_xray st"
      "\<And>lk. res = Inr lk \<Longrightarrow> lk_limiter lk = Some a"
proof (cases "tracked s")
  case False
  then show ?thesis using assms by (intro plain) (auto simp: get_link_def)
next
  case T: True
  show ?thesis
  proof (cases "find_limiter (s_tag s) st")
    case None
    then show ?thesis using T assms by (intro unknown) (auto simp: get_link_def)
  next
    case (Some a)
    obtain w rej l ks' where c: "check_limit now r (s_email s) (s_ip s) tcp (lim_of a st) = (w, rej, l, ks')"
      by (metis prod_cases4)
    show ?thesis
      using T Some c assms
      by (intro checked [of a w rej l "ds_xray st'"])
        (auto simp: get_link_def put_limiter_def Let_def split: if_splits prod.splits)
  qed
qed


lemma tiedD:
  assumes "tied T a d"
  shows "find_limiter T (d_state d) = Some a" "a < length (lim_heap (ds_limiters (d_state d)))"
    "find_limiter t (d_state d) = Some a \<Longrightarrow> t = T"
    "limiter_inv (lim_of a (d_state d))"
    "counts_conns (lim_of a (d_state d)) (live_pairs (lim_of a (d_state d)) T (d_conns d))"
    "c \<in># d_conns d \<Longrightarrow> cn_phase c = Routed x \<Longrightarrow> x = rd_enter (cn_tcp c) (cn_session c) (d_state d)"
  using assms unfolding tied_def by blast+

lemma tiedI:
  assumes "find_limiter T (d_state d) = Some a" "a < length (lim_heap (ds_limiters (d_state d)))"
    "\<And>t. find_limiter t (d_state d) = Some a \<Longrightarrow> t = T"
    "limiter_inv (lim_of a (d_state d))"
    "counts_conns (lim_of a (d_state d)) (live_pairs (lim_of a (d_state d)) T (d_conns d))"
    "\<And>c x. c \<in># d_conns d \<Longrightarrow> cn_phase c = Routed x \<Longrightarrow> x = rd_enter (cn_tcp c) (cn_session c) (d_state d)"
  shows "tied T a d"
  unfolding tied_def using assms by blast

text \<open>The obligations of a step that writes limiter \<open>b\<close> of inbound \<open>t\<close>.\<close>

lemma tied_put:
  assumes t: "tied T a d" and b: "find_limiter t (d_state d) = Some b"
    and cs: "\<And>c x. c \<in># cs \<Longrightarrow> cn_phase c = Routed x \<Longrightarrow> x = rd_enter (cn_tcp c) (cn_session c) (d_state d)"
    and same: "t = T \<Longrightarrow> limiter_inv l \<and> user_limit_info l = user_limit_info (lim_of b (d_state d)) \<and>
      counts_conns l (live_pairs (lim_of b (d_state d)) T cs)"
    and other: "t \<noteq> T \<Longrightarrow> filter_mset (counted T) cs = filter_mset (counted T) (d_conns d)"
  shows "tied T a \<lparr>d_state = (put_limiter b l (d_state d))\<lparr>ds_xray := x\<rparr>, d_conns = cs\<rparr>"
proof -
  let ?st = "(put_limiter b l (d_state d))\<lparr>ds_xray := x\<rparr>"
  have enter: "rd_enter tcp s ?st = rd_enter tcp s (d_state d)" for tcp s
    by (simp add: rd_enter_def)
  have lim: "lim_of a ?st = (if b = a then l else lim_of a (d_state d))"
    using tiedD(2) [OF t] by simp
  have "limiter_inv (lim_of a ?st) \<and> counts_conns (lim_of a ?st) (live_pairs (lim_of a ?st) T cs)"
  proof (cases "t = T")
    case True
    then have ab: "b = a" using tiedD(1) [OF t] b by simp
    have "live_pairs l T cs = live_pairs (lim_of b (d_state d)) T cs"
      using same [OF True] by (intro live_pairs_cong) simp
    then show ?thesis using lim ab same [OF True] by simp
  next
    case False
    then have "b \<noteq> a" using tiedD(3) [OF t] b by blast
    moreover have "live_pairs m T cs = live_pairs m T (d_conns d)" for m
      using other [OF False] by (simp add: live_pairs_def)
    ultimately show ?thesis using lim tiedD(4,5) [OF t] by simp
  qed
  then show ?thesis
    by (intro tiedI) (use tiedD(1,2) [OF t] in \<open>simp_all add: enter\<close>, blast dest: tiedD(3) [OF t] cs, blast dest: cs)
qed

lemma tied_conns:
  assumes t: "tied T a d" and f: "live_pairs (lim_of a (d_state d)) T cs = live_pairs (lim_of a (d_state d)) T (d_conns d)"
    and cs: "\<And>c x. c \<in># cs \<Longrightarrow> cn_phase c = Routed x \<Longrightarrow> x = rd_enter (cn_tcp c) (cn_session c) (d_state d)"
  shows "tied T a (d\<lparr>d_conns := cs\<rparr>)"
  by (rule tiedI) (use tiedD(1,2,4,5) [OF t] in \<open>simp_all add: f\<close>, blast dest: tiedD(3) [OF t], blast dest: cs)

lemma counted_phase [simp]: "counted T (c\<lparr>cn_phase := p\<rparr>) = counted T c"
  by (simp add: counted_def)

lemma tied_dial:
  assumes t: "tied T a d" and g: "get_link now r tcp s (d_state d) = (res, st, ks)" and ip: "addr_ok (s_ip s)"
    and cs: "cs = (if isl res then d_conns d else add_mset \<lparr>cn_session = s, cn_tcp = tcp, cn_phase = Linked\<rparr> (d_conns d))"
  shows "tied T a \<lparr>d_state = st, d_conns = cs\<rparr>"
proof -
  let ?c = "\<lparr>cn_session = s, cn_tcp = tcp, cn_phase = Linked\<rparr>"
  have ph: "x = rd_enter (cn_tcp c) (cn_session c) (d_state d)" if "c \<in># cs" "cn_phase c = Routed x" for c x
    using that tiedD(6) [OF t, of c x] by (auto simp: cs split: if_splits)
  have same: "tied T a (d\<lparr>d_conns := cs\<rparr>)" if "\<not> isl res \<Longrightarrow> \<not> counted T ?c"
    by (rule tied_conns [OF t _ ph]) (use that in \<open>auto simp: cs\<close>)
  have d: "d\<lparr>d_conns := cs\<rparr> = \<lparr>d_state = d_state d, d_conns = cs\<rparr>" by (cases d) simp
  from g show ?thesis
  proof (cases rule: get_link_cases)
    case plain
    then show ?thesis using same by (simp add: d counted_def)
  next
    case (unknown e)
    then show ?thesis using same by (simp add: d)
  next
    case (checked b w rej l x)
    have eq: "event_pair m (s_email s) (s_ip s) + (if tcp then N else {#}) = event_pair m (s_email s) (s_ip s) + N"
      if "tcp" for m N using that by simp
    have "tied T a \<lparr>d_state = (put_limiter b l (d_state d))\<lparr>ds_xray := x\<rparr>, d_conns = cs\<rparr>"
    proof (rule tied_put [OF t checked(2) ph])
      assume tag: "s_tag s = T"
      then have ab: "b = a" using tiedD(1) [OF t] checked(2) by simp
      show "limiter_inv l \<and> user_limit_info l = user_limit_info (lim_of b (d_state d)) \<and>
          counts_conns l (live_pairs (lim_of b (d_state d)) T cs)"
        using check_counts [OF checked(3) _ _ ip] tiedD(4,5) [OF t] checked(1,5) tag
        by (auto simp: ab cs counted_def)
    next
      assume "s_tag s \<noteq> T"
      then show "filter_mset (counted T) cs = filter_mset (counted T) (d_conns d)"
        by (simp add: cs counted_def)
    qed
    then show ?thesis by (simp add: checked(4))
  qed
qed

lemma live_pairs_remove:
  "c \<in># cs \<Longrightarrow> live_pairs l T (cs - {#c#}) =
     live_pairs l T cs - (if counted T c then event_pair l (s_email (cn_session c)) (s_ip (cn_session c)) else {#})"
  using live_pairs_add [of l T c "cs - {#c#}"] by (simp add: insert_DiffM)

lemma closed_counts:
  assumes "limiter_inv l" "counts_conns l M"
  shows "limiter_inv (conn_closed k ip l) \<and> user_limit_info (conn_closed k ip l) = user_limit_info l \<and>
    counts_conns (conn_closed k ip l) (M - event_pair l k ip)"
  using counts_event [OF assms, of "Closes k ip"] by (simp add: conn_event_do_def)

lemma tied_leave:
  assumes t: "tied T a d" and c: "c \<in># d_conns d" "cn_phase c = Routed b"
  shows "tied T a \<lparr>d_state = rd_leave (cn_session c) b (d_state d), d_conns = d_conns d - {#c#}\<rparr>"
proof -
  have ph: "x = rd_enter (cn_tcp c') (cn_session c') (d_state d)"
    if "c' \<in># d_conns d - {#c#}" "cn_phase c' = Routed x" for c' x
    using that tiedD(6) [OF t, of c' x] by (auto dest: in_diffD)
  have b: "b = rd_enter (cn_tcp c) (cn_session c) (d_state d)"
    by (rule tiedD(6) [OF t c])
  show ?thesis
  proof (cases b)
    case None
    then have "\<not> counted T c" using b tiedD(1) [OF t] by (auto simp: rd_enter_def counted_def split: if_splits)
    then have "tied T a (d\<lparr>d_conns := d_conns d - {#c#}\<rparr>)"
      using ph c by (intro tied_conns [OF t]) (simp_all add: live_pairs_remove)
    then show ?thesis using None by (cases d) (simp add: rd_leave_def)
  next
    case (Some e)
    then have e: "tracked (cn_session c)" "cn_tcp c" "find_limiter (s_tag (cn_session c)) (d_state d) = Some e"
      using b by (auto simp: rd_enter_def split: if_splits)
    let ?l = "conn_closed (s_email (cn_session c)) (s_ip (cn_session c)) (lim_of e (d_state d))"
    have "tied T a \<lparr>d_state = (put_limiter e ?l (d_state d))\<lparr>ds_xray := ds_xray (d_state d)\<rparr>,
        d_conns = d_conns d - {#c#}\<rparr>"
    proof (rule tied_put [OF t e(3) ph])
      assume tag: "s_tag (cn_session c) = T"
      then have "e = a" using tiedD(1) [OF t] e(3) by simp
      then show "limiter_inv ?l \<and> user_limit_info ?l = user_limit_info (lim_of e (d_state d)) \<and>
          counts_conns ?l (live_pairs (lim_of e (d_state d)) T (d_conns d - {#c#}))"
        using closed_counts [OF tiedD(4,5) [OF t]] e tag c by (simp add: live_pairs_remove counted_def)
    next
      assume "s_tag (cn_session c) \<noteq> T"
      then show "filter_mset (counted T) (d_conns d - {#c#}) = filter_mset (counted T) (d_conns d)"
        by (simp add: counted_def)
    qed auto
    then show ?thesis
      using Some by (cases "d_state d") (simp add: rd_leave_def put_limiter_def)
  qed
qed

lemma tied_step: "dsys_step d d' \<Longrightarrow> tied T a d \<Longrightarrow> tied T a d'"
proof (induction rule: dsys_step.induct)
  case (dial now r tcp s d lk st ks)
  show ?case by (rule tied_dial [OF dial.prems dial.hyps]) simp
next
  case (refused now r tcp s d e st ks)
  have "tied T a \<lparr>d_state = st, d_conns = d_conns d\<rparr>"
    by (rule tied_dial [OF refused.prems refused.hyps]) simp
  then show ?case by (cases d) simp
next
  case (enter c d)
  let ?c = "c\<lparr>cn_phase := Routed (rd_enter (cn_tcp c) (cn_session c) (d_state d))\<rparr>"
  show ?case
  proof (rule tied_conns [OF enter.prems])
    show "live_pairs (lim_of a (d_state d)) T (add_mset ?c (d_conns d - {#c#})) =
        live_pairs (lim_of a (d_state d)) T (d_conns d)"
      using live_pairs_add [of "lim_of a (d_state d)" T c "d_conns d - {#c#}"] enter.hyps by simp
  next
    fix c' x assume "c' \<in># add_mset ?c (d_conns d - {#c#})" "cn_phase c' = Routed x"
    then show "x = rd_enter (cn_tcp c') (cn_session c') (d_state d)"
      using tiedD(6) [OF enter.prems, of c' x] by (auto dest: in_diffD)
  qed
next
  case (leave c d b)
  show ?case by (rule tied_leave [OF leave.prems leave.hyps])
next
  case (kicked t d b k now)
  let ?l = "kick_device now k (lim_of b (d_state d))"
  let ?x = "(ds_xray (d_state d))\<lparr>links := kick_by_user_ip (fst (snd k)) (snd (snd k)) (links (ds_xray (d_state d)))\<rparr>"
  have "tied T a \<lparr>d_state = (put_limiter b ?l (d_state d))\<lparr>ds_xray := ?x\<rparr>, d_conns = d_conns d\<rparr>"
  proof (rule tied_put [OF kicked.prems kicked.hyps])
    assume "t = T"
    then have "b = a" using tiedD(1) [OF kicked.prems] kicked.hyps by simp
    then show "limiter_inv ?l \<and> user_limit_info ?l = user_limit_info (lim_of b (d_state d)) \<and>
        counts_conns ?l (live_pairs (lim_of b (d_state d)) T (d_conns d))"
      using tiedD(4,5) [OF kicked.prems] by (simp add: inv_kick_device frame counts_conns_def local_of_def)
  qed (auto intro: tiedD(6) [OF kicked.prems])
  then show ?case by (cases d) simp
qed

section \<open>The counts over whole runs\<close>

text \<open>The connections of inbound \<open>T\<close> that belong to user \<open>uid\<close> at address \<open>ip\<close>.\<close>

definition conn_of :: "limiter \<Rightarrow> string \<Rightarrow> int \<Rightarrow> string \<Rightarrow> conn \<Rightarrow> bool" where
  "conn_of l T uid ip c \<longleftrightarrow> counted T c \<and> trim_ip (s_ip (cn_session c)) = ip \<and>
     map_option ul_uid (map_of (user_limit_info l) (s_email (cn_session c))) = Some uid"

lemma count_live_pairs: "count (live_pairs l T cs) (uid, ip) = size (filter_mset (conn_of l T uid ip) cs)"
  by (induction cs) (auto simp: conn_of_def event_pair_def split: option.splits)

interpretation ds: kept_by_steps dsys_step "tied T a" for T a
  by unfold_locales (rule tied_step)

text \<open>A limiter that has just been registered under a new tag is tied.\<close>

lemma tied_new:
  assumes add: "add_limiter_at T speed users alive ls = (a, ls')"
    and old: "\<forall>b \<in> snd ` set (lim_table ls). b < length (lim_heap ls)"
  shows "tied T a \<lparr>d_state = \<lparr>ds_limiters = ls', ds_xray = x\<rparr>, d_conns = {#}\<rparr>"
proof -
  let ?l = "new_limiter T speed users alive"
  have ls': "a = length (lim_heap ls)" "ls' = \<lparr>lim_heap = lim_heap ls @ [?l], lim_table = mput T a (lim_table ls)\<rparr>"
    using add by (auto simp: add_limiter_at_def Let_def)
  have lim: "lim_of a \<lparr>ds_limiters = ls', ds_xray = x\<rparr> = ?l"
    by (simp add: lim_of_def limiter_at_def ls')
  have fresh: "t = T" if "find_limiter t \<lparr>ds_limiters = ls', ds_xray = x\<rparr> = Some a" for t
    using that old by (auto simp: find_limiter_def ls' split: if_splits dest!: map_of_SomeD)
  show ?thesis
    by (rule tiedI) (simp_all add: lim inv_new_limiter counts_new find_limiter_def, simp_all add: ls',
      rule fresh, simp add: find_limiter_def ls')
qed

text \<open>C4. Whatever connections of whatever inbounds are admitted, refused, kicked, routed and given
  back, in any interleaving: the limiter of an inbound counts for every user and address exactly the
  tracked TCP connections of that inbound that have their link and have not returned from
  \<^verbatim>\<open>routedDispatch\<close>; the address is live exactly as long as there is one. So every counted
  admission is given back once, UDP and untracked connections never are, and when the last
  connection has ended no device is left.\<close>

theorem connections_are_counted:
  "dsys_step\<^sup>*\<^sup>* d0 d \<Longrightarrow> tied T a d0 \<Longrightarrow>
     find_limiter T (d_state d) = Some a \<and>
     mget 0 (local_of (lim_of a (d_state d)) uid) ip
       = int (size (filter_mset (conn_of (lim_of a (d_state d)) T uid ip) (d_conns d))) \<and>
     (ip \<in> local_set (lim_of a (d_state d)) uid \<longleftrightarrow>
       (\<exists>c \<in># d_conns d. conn_of (lim_of a (d_state d)) T uid ip c))"
proof -
  assume "dsys_step\<^sup>*\<^sup>* d0 d" "tied T a d0"
  then have t: "tied T a d" by (rule ds.reach_keeps)
  then have n: "mget 0 (local_of (lim_of a (d_state d)) uid) ip
      = int (size (filter_mset (conn_of (lim_of a (d_state d)) T uid ip) (d_conns d)))"
    using tiedD(5) [OF t] by (simp add: counts_conns_def count_live_pairs)
  have "0 < size (filter_mset P M) \<longleftrightarrow> (\<exists>x \<in># M. P x)" for P and M :: "conn multiset"
    by (induction M) auto
  then show ?thesis
    using tiedD(1) [OF t] n live_iff [OF tiedD(4) [OF t], of uid ip] by simp
qed

definition demo_limiters :: limiters where
  "demo_limiters = snd (add_limiter_at ''t'' 0 demo_users [] \<lparr>lim_heap = [], lim_table = []\<rparr>)"

definition demo_dsys :: "unit dsys" where
  "demo_dsys = \<lparr>d_state = \<lparr>ds_limiters = demo_limiters,
     ds_xray = \<lparr>inbounds = [], uid_map = [], min_traffic = [], cells = [], counters = [], links = no_links\<rparr>\<rparr>,
     d_conns = {#}\<rparr>"

definition demo_session :: session where
  "demo_session = \<lparr>s_email = ''t|a'', s_tag = ''t'', s_ip = ''1.1.1.1''\<rparr>"

theorem connections_are_counted_witness:
  "\<exists>d. dsys_step\<^sup>*\<^sup>* demo_dsys d \<and> d_conns d \<noteq> {#} \<and> mget 0 (local_of (lim_of 0 (d_state d)) 1) ''1.1.1.1'' = 1"
proof -
  let ?g = "get_link 0 0 True demo_session (d_state demo_dsys)"
  let ?c = "\<lparr>cn_session = demo_session, cn_tcp = True, cn_phase = Linked\<rparr>"
  have ip: "addr_ok (s_ip demo_session)" by code_simp
  have ok: "\<not> isl (fst ?g)" and info: "map_option ul_uid (map_of (user_limit_info (lim_of 0 (fst (snd ?g)))) ''t|a'') = Some 1"
    by code_simp+
  obtain lk st ks where g: "?g = (Inr lk, st, ks)"
    using ok by (metis isl_def prod_cases3 fst_conv sum.exhaust_sel)
  let ?d = "\<lparr>d_state = st, d_conns = {#?c#}\<rparr>"
  have step: "dsys_step\<^sup>*\<^sup>* demo_dsys ?d"
    using dsys_step.dial [OF g ip] by (auto simp: demo_dsys_def)
  have "tied ''t'' 0 demo_dsys"
    unfolding demo_dsys_def
    by (rule tied_new [where ls = "\<lparr>lim_heap = [], lim_table = []\<rparr>" and speed = 0 and users = demo_users and alive = "[]"])
      (simp_all add: demo_limiters_def add_limiter_at_def Let_def)
  from connections_are_counted [OF step this, of 1 "''1.1.1.1''"]
  have "mget 0 (local_of (lim_of 0 st) 1) ''1.1.1.1'' = 1"
    using info [unfolded g] ip by (simp add: conn_of_def counted_def tracked_def demo_session_def trim_ip_def trim_prefix_def has_prefix_def)
  then show ?thesis using step by (intro exI [of _ ?d]) simp
qed

end
