(* ===== verification/Sniffer.thy ===== *)
theory Sniffer
  imports Dispatcher
begin

text \<open>
  Sniffing in the dispatcher: \<^verbatim>\<open>sniffer.go\<close>, \<^verbatim>\<open>fakednssniffer.go\<close>, and in \<^verbatim>\<open>default.go\<close> the reader
  that keeps what was looked at (\<^verbatim>\<open>cachedReader\<close>), the loop \<^verbatim>\<open>sniffer\<close>, \<^verbatim>\<open>shouldOverride\<close> and the
  destinations that come of it. The sniffers for single protocols and the fake DNS engine are
  Xray's: a sniffer is what it answers to some bytes. Xray's sniffers answer an error or a result,
  never neither.
\<close>

section \<open>Results\<close>

datatype net = UnknownNet | TCP | UDP | UnixNet

datatype sniff_err = NoClue | NeedMoreData | UnknownContent | SniffTimeout | SniffError string

text \<open>Protocol and domain; what fake DNS answers; a domain behind fake DNS with the protocol that was
  found; and a composite of the results for domain and protocol.\<close>

datatype sniff_result =
    Sniffed string string
  | FakeDns string
  | FakeDnsOthers string string
  | Composite sniff_result sniff_result

fun protocol_of :: "sniff_result \<Rightarrow> string" where
  "protocol_of (Sniffed p d) = p"
| "protocol_of (FakeDns d) = ''fakedns''"
| "protocol_of (FakeDnsOthers d p) = ''fakedns+others''"
| "protocol_of (Composite d p) = protocol_of p"

fun domain_of :: "sniff_result \<Rightarrow> string" where
  "domain_of (Sniffed p d) = d"
| "domain_of (FakeDns d) = d"
| "domain_of (FakeDnsOthers d p) = d"
| "domain_of (Composite d p) = domain_of d"

text \<open>\<^verbatim>\<open>ProtocolForDomainResult\<close>, where a result has it, and \<^verbatim>\<open>IsProtoSubsetOf\<close>.\<close>

definition protocol_for_domain :: "sniff_result \<Rightarrow> string" where
  "protocol_for_domain r = (case r of Composite d p \<Rightarrow> protocol_of d | _ \<Rightarrow> protocol_of r)"

definition proto_subset_of :: "sniff_result \<Rightarrow> string \<Rightarrow> bool" where
  "proto_subset_of r p = (case r of FakeDnsOthers d orig \<Rightarrow> has_prefix orig p | _ \<Rightarrow> False)"

section \<open>Sniffers\<close>

record proto_sniffer =
  ps_run :: "string option \<Rightarrow> sniff_err + sniff_result" \<comment> \<open>\<open>None\<close>: nil, for metadata\<close>
  ps_meta :: bool
  ps_net :: net

fun sniff_loop :: "net \<Rightarrow> string \<Rightarrow> proto_sniffer list \<Rightarrow> proto_sniffer list \<Rightarrow> sniff_result option \<times> proto_sniffer list" where
  "sniff_loop network payload [] pend = (None, pend)"
| "sniff_loop network payload (si # sis) pend =
     (if ps_meta si \<or> ps_net si \<noteq> network then sniff_loop network payload sis pend
      else case ps_run si (Some payload) of
             Inr r \<Rightarrow> (Some r, pend)
           | Inl NoClue \<Rightarrow> sniff_loop network payload sis (pend @ [si])
           | Inl _ \<Rightarrow> sniff_loop network payload sis pend)"

definition sniff :: "net \<Rightarrow> string \<Rightarrow> proto_sniffer list \<Rightarrow> (sniff_err + sniff_result) \<times> proto_sniffer list" where
  "sniff network payload sn =
     (case sniff_loop network payload sn [] of
        (Some r, _) \<Rightarrow> (Inr r, sn)
      | (None, pend) \<Rightarrow> if pend \<noteq> [] then (Inl NoClue, pend) else (Inl UnknownContent, sn))"

fun meta_loop :: "proto_sniffer list \<Rightarrow> proto_sniffer list \<Rightarrow> sniff_result option \<times> proto_sniffer list" where
  "meta_loop [] pend = (None, pend)"
| "meta_loop (si # sis) pend =
     (if \<not> ps_meta si then meta_loop sis (pend @ [si])
      else case ps_run si None of
             Inr r \<Rightarrow> (Some r, pend)
           | Inl NoClue \<Rightarrow> meta_loop sis (pend @ [si])
           | Inl _ \<Rightarrow> meta_loop sis pend)"

definition sniff_metadata :: "proto_sniffer list \<Rightarrow> (sniff_err + sniff_result) \<times> proto_sniffer list" where
  "sniff_metadata sn =
     (case meta_loop sn [] of
        (Some r, _) \<Rightarrow> (Inr r, sn)
      | (None, pend) \<Rightarrow> if pend \<noteq> [] then (Inl NoClue, pend) else (Inl UnknownContent, sn))"

section \<open>Fake DNS\<close>

text \<open>What the engine answers for the target: its domain (empty for none), and whether the address is
  in its pool (\<open>None\<close>: an engine that cannot tell).\<close>

record fake_dns =
  fd_domain :: string
  fd_in_pool :: "bool option"

definition fake_sniffer :: "fake_dns \<Rightarrow> net \<Rightarrow> proto_sniffer" where
  "fake_sniffer fd target =
     \<lparr>ps_run = (\<lambda>bytes. if (target = TCP \<or> target = UDP) \<and> fd_domain fd \<noteq> '''' then Inr (FakeDns (fd_domain fd)) else Inl NoClue),
      ps_meta = True, ps_net = UnknownNet\<rparr>"

fun others_loop :: "string option \<Rightarrow> proto_sniffer list \<Rightarrow> sniff_err + sniff_result" where
  "others_loop bytes [] = Inl NoClue"
| "others_loop bytes (v # vs) =
     (if ps_meta v \<or> bytes \<noteq> None then
        (case ps_run v bytes of
           Inr r \<Rightarrow> Inr (FakeDnsOthers (domain_of r) (protocol_of r))
         | Inl e \<Rightarrow> others_loop bytes vs)
      else others_loop bytes vs)"

text \<open>The range is noted by the fake sniffer only when it has no domain. The network of both is left at
  its zero value.\<close>

definition fake_then_others :: "fake_dns \<Rightarrow> net \<Rightarrow> proto_sniffer list \<Rightarrow> proto_sniffer" where
  "fake_then_others fd target others =
     \<lparr>ps_run = (\<lambda>bytes. case ps_run (fake_sniffer fd target) bytes of
          Inr r \<Rightarrow> Inr r
        | Inl e \<Rightarrow> if fd_in_pool fd = Some True then others_loop bytes others else Inl NoClue),
      ps_meta = False, ps_net = UnknownNet\<rparr>"

definition new_sniffer :: "proto_sniffer list \<Rightarrow> fake_dns option \<Rightarrow> net \<Rightarrow> proto_sniffer list" where
  "new_sniffer base fd target =
     (case fd of None \<Rightarrow> base | Some f \<Rightarrow> fake_then_others f target base # base @ [fake_sniffer f target])"

section \<open>The cached reader\<close>

text \<open>\<open>cr_cache\<close>: the bytes looked at and not yet read (a nil and an empty buffer are alike). A pipe
  answers an error or some bytes.\<close>

record cached_reader =
  cr_cache :: string

text \<open>\<^verbatim>\<open>Cache\<close>: the new content of the buffer, of capacity \<open>cap\<close>, or the pipe's error.\<close>

definition cache_bytes :: "nat \<Rightarrow> string + string \<Rightarrow> cached_reader \<Rightarrow> (string + string) \<times> cached_reader" where
  "cache_bytes cap piped r =
     (case piped of
        Inl e \<Rightarrow> (Inl e, r)
      | Inr mb \<Rightarrow> (let r1 = r\<lparr>cr_cache := cr_cache r @ mb\<rparr> in (Inr (take (min (length (cr_cache r1)) cap) (cr_cache r1)), r1)))"

definition read_internal :: "cached_reader \<Rightarrow> string option \<times> cached_reader" where
  "read_internal r = (if cr_cache r \<noteq> '''' then (Some (cr_cache r), r\<lparr>cr_cache := ''''\<rparr>) else (None, r))"

text \<open>\<^verbatim>\<open>ReadMultiBuffer\<close> and its variant with a timeout; \<open>piped\<close> is asked only when nothing is cached.\<close>

definition cached_read :: "string + string \<Rightarrow> cached_reader \<Rightarrow> (string + string) \<times> cached_reader" where
  "cached_read piped r =
     (case read_internal r of (Some mb, r1) \<Rightarrow> (Inr mb, r1) | (None, r1) \<Rightarrow> (piped, r1))"

definition cached_interrupt :: "cached_reader \<Rightarrow> cached_reader" where
  "cached_interrupt r = r\<lparr>cr_cache := ''''\<rparr>"

section \<open>The loop \<^verbatim>\<open>sniffer\<close>\<close>

text \<open>One turn: the context has ended, or the pipe answers and some time (ns) has passed.\<close>

datatype turn = Cancelled string | Turn "string + string" int

datatype turn_end = Ended "sniff_err + sniff_result" | GoOn "proto_sniffer list" int nat cached_reader

definition sniff_turn :: "nat \<Rightarrow> net \<Rightarrow> turn \<Rightarrow> proto_sniffer list \<Rightarrow> int \<Rightarrow> nat \<Rightarrow> cached_reader \<Rightarrow> turn_end" where
  "sniff_turn cap network t sn deadline attempts r =
     (case t of
        Cancelled e \<Rightarrow> Ended (Inl (SniffError e))
      | Turn piped elapsed \<Rightarrow>
          (case cache_bytes cap piped r of
             (Inl e, r1) \<Rightarrow> Ended (Inl (SniffError e))
           | (Inr payload, r1) \<Rightarrow>
               (let deadline1 = deadline - elapsed;
                    next_turn = (\<lambda>sn attempts. if attempts \<ge> 2 \<or> deadline1 \<le> 0 then Ended (Inl SniffTimeout)
                                               else GoOn sn deadline1 attempts r1)
                in if payload = '''' then next_turn sn (attempts + 1)
                   else (case sniff network payload sn of
                           (Inl NoClue, sn1) \<Rightarrow> next_turn sn1 (attempts + 1)
                         | (Inl NeedMoreData, sn1) \<Rightarrow> next_turn sn1 attempts
                         | (res, sn1) \<Rightarrow> Ended res))))"

text \<open>The loop over the turns; \<open>None\<close>: they are used up and the loop has not ended.\<close>

fun content_loop ::
    "nat \<Rightarrow> net \<Rightarrow> turn list \<Rightarrow> proto_sniffer list \<Rightarrow> int \<Rightarrow> nat \<Rightarrow> cached_reader \<Rightarrow> (sniff_err + sniff_result) option" where
  "content_loop cap network [] sn deadline attempts r = None"
| "content_loop cap network (t # ts) sn deadline attempts r =
     (case sniff_turn cap network t sn deadline attempts r of
        Ended res \<Rightarrow> Some res
      | GoOn sn1 d a r1 \<Rightarrow> content_loop cap network ts sn1 d a r1)"

definition run_sniffer ::
    "nat \<Rightarrow> net \<Rightarrow> bool \<Rightarrow> turn list \<Rightarrow> proto_sniffer list \<Rightarrow> cached_reader \<Rightarrow> (sniff_err + sniff_result) option" where
  "run_sniffer cap network metadata_only ts sn r =
     (case sniff_metadata sn of (meta, sn1) \<Rightarrow>
        if metadata_only then Some meta
        else (case content_loop cap network ts sn1 (200 * 1000000) 0 r of
                None \<Rightarrow> None
              | Some content \<Rightarrow> Some
                  (case (meta, content) of
                     (Inr m, Inl e) \<Rightarrow> Inr m
                   | (Inr m, Inr c) \<Rightarrow> Inr (Composite m c)
                   | (Inl e, _) \<Rightarrow> content)))"

section \<open>Overriding the destination\<close>

record sniff_request =
  sr_metadata_only :: bool
  sr_route_only :: bool
  sr_exclude :: "(string \<Rightarrow> bool) option"
  sr_override :: "string list"

text \<open>\<open>in_pool\<close>: the engine can tell, the target is an IP address and in its pool.\<close>

fun override_loop :: "bool \<Rightarrow> sniff_result \<Rightarrow> string \<Rightarrow> string list \<Rightarrow> bool" where
  "override_loop in_pool r proto [] = False"
| "override_loop in_pool r proto (p # ps) =
     (if has_prefix p proto \<or> has_prefix proto p then True
      else if in_pool \<and> proto \<noteq> ''bittorrent'' \<and> p = ''fakedns'' then True
      else if proto_subset_of r p then True
      else override_loop in_pool r proto ps)"

definition should_override :: "bool \<Rightarrow> sniff_result \<Rightarrow> sniff_request \<Rightarrow> bool" where
  "should_override in_pool r rq =
     (if domain_of r = '''' then False
      else if (case sr_exclude rq of None \<Rightarrow> False | Some m \<Rightarrow> m (map fold_char (domain_of r))) then False
      else override_loop in_pool r (protocol_for_domain r) (sr_override rq))"

text \<open>Where the connection goes: the destination the rules see, the outbound's target, and the target
  for the router.\<close>

record targets =
  tg_dest :: string
  tg_target :: string
  tg_route :: "string option"

definition override_target :: "bool \<Rightarrow> bool \<Rightarrow> sniff_err + sniff_result \<Rightarrow> sniff_request \<Rightarrow> targets \<Rightarrow> targets" where
  "override_target in_pool target_in_pool res rq tg =
     (case res of
        Inl e \<Rightarrow> tg
      | Inr r \<Rightarrow>
          if \<not> should_override in_pool r rq then tg
          else let tg1 = tg\<lparr>tg_dest := domain_of r\<rparr>; proto = protocol_for_domain r in
            if sr_route_only rq \<and> proto \<noteq> ''fakedns'' \<and> proto \<noteq> ''fakedns+others'' \<and> \<not> target_in_pool
            then tg1\<lparr>tg_route := Some (domain_of r)\<rparr>
            else tg1\<lparr>tg_target := domain_of r\<rparr>)"

text \<open>\<^verbatim>\<open>content.Protocol\<close>, the protocol the rules see.\<close>

definition content_protocol :: "sniff_err + sniff_result \<Rightarrow> string \<Rightarrow> string" where
  "content_protocol res old = (case res of Inl e \<Rightarrow> old | Inr r \<Rightarrow> protocol_of r)"

section \<open>What sniffing can answer\<close>

text \<open>The result is that of the first sniffer for the network that has one; else exactly the sniffers
  without a clue stay.\<close>

definition asked :: "net \<Rightarrow> proto_sniffer \<Rightarrow> bool" where
  "asked network si \<longleftrightarrow> \<not> ps_meta si \<and> ps_net si = network"

definition no_clue :: "net \<Rightarrow> string \<Rightarrow> proto_sniffer \<Rightarrow> bool" where
  "no_clue network payload si \<longleftrightarrow> asked network si \<and> ps_run si (Some payload) = Inl NoClue"

definition found :: "net \<Rightarrow> string \<Rightarrow> proto_sniffer \<Rightarrow> bool" where
  "found network payload si \<longleftrightarrow> asked network si \<and> \<not> isl (ps_run si (Some payload))"

lemma sniff_loop_none:
  "\<not> list_ex (found network payload) sn \<Longrightarrow>
     sniff_loop network payload sn pend = (None, pend @ filter (no_clue network payload) sn)"
proof (induction sn arbitrary: pend)
  case (Cons si sn)
  then show ?case
    by (cases "ps_run si (Some payload)") (auto simp: found_def no_clue_def asked_def split: sniff_err.splits)
qed simp

lemma sniff_loop_some:
  "list_ex (found network payload) sn \<Longrightarrow>
     \<exists>si. find (found network payload) sn = Some si \<and> fst (sniff_loop network payload sn pend) = Some (projr (ps_run si (Some payload)))"
proof (induction sn arbitrary: pend)
  case (Cons si sn)
  show ?case
  proof (cases "found network payload si")
    case True
    then show ?thesis by (cases "ps_run si (Some payload)") (auto simp: found_def asked_def)
  next
    case False
    then have "\<exists>pend'. sniff_loop network payload (si # sn) pend = sniff_loop network payload sn pend'"
      by (cases "ps_run si (Some payload)") (auto simp: found_def asked_def split: sniff_err.splits)
    then show ?thesis using Cons False by auto
  qed
qed simp

lemma sniff_cases:
  obtains (result) si r where "find (found network payload) sn = Some si" "ps_run si (Some payload) = Inr r"
      "sniff network payload sn = (Inr r, sn)"
  | (pending) "\<not> list_ex (found network payload) sn" "filter (no_clue network payload) sn \<noteq> []"
      "sniff network payload sn = (Inl NoClue, filter (no_clue network payload) sn)"
  | (unknown) "\<not> list_ex (found network payload) sn" "filter (no_clue network payload) sn = []"
      "sniff network payload sn = (Inl UnknownContent, sn)"
proof (cases "list_ex (found network payload) sn")
  case True
  then obtain si where si: "find (found network payload) sn = Some si"
    "fst (sniff_loop network payload sn []) = Some (projr (ps_run si (Some payload)))"
    using sniff_loop_some by blast
  then have "found network payload si" by (auto simp: find_Some_iff)
  then obtain r where "ps_run si (Some payload) = Inr r" by (auto simp: found_def isl_def) (metis sum.collapse(2) isl_def)
  then show ?thesis
    using si by (intro result [of si r]) (auto simp: sniff_def split: prod.splits)
next
  case False
  then show ?thesis
    using sniff_loop_none [OF False, of "[]"] by (cases "filter (no_clue network payload) sn = []") (auto simp: sniff_def intro: pending unknown)
qed

lemma sniff_not_more: "fst (sniff network payload sn) \<noteq> Inl NeedMoreData"
  by (rule sniff_cases [of network payload sn]) auto

section \<open>The loop ends\<close>

lemma turn_counts:
  "sniff_turn cap network t sn deadline attempts r = GoOn sn1 d a r1 \<Longrightarrow> a = attempts + 1 \<and> a < 2"
  using sniff_not_more [of network]
  by (auto simp: sniff_turn_def Let_def split: turn.splits prod.splits sum.splits sniff_err.splits if_splits)
    (metis fst_conv)+

lemma content_two:
  assumes "2 \<le> length ts"
  shows "content_loop cap network ts sn deadline 0 r = content_loop cap network (take 2 ts) sn deadline 0 r
    \<and> content_loop cap network ts sn deadline 0 r \<noteq> None"
proof -
  obtain t1 t2 ts' where ts: "ts = t1 # t2 # ts'"
    using assms by (cases ts; cases "tl ts") auto
  show ?thesis
  proof (cases "sniff_turn cap network t1 sn deadline 0 r")
    case (GoOn sn1 d a r1)
    then have a: "a = 1" using turn_counts [OF GoOn] by simp
    show ?thesis
    proof (cases "sniff_turn cap network t2 sn1 d 1 r1")
      case go: (GoOn sn2 d2 a2 r2)
      then show ?thesis using turn_counts [OF go] by auto
    qed (simp add: ts GoOn a)
  qed (simp add: ts)
qed

text \<open>C24. Sniffing ends: whatever the sniffers answer and however slowly the client sends, two looks at
  the connection decide, so the dispatcher waits at most twice for the client before it routes.
  (The exemption of "need more data" from the count of attempts never applies.)\<close>

theorem sniffing_ends_after_two_looks:
  "2 \<le> length ts \<Longrightarrow>
     (\<exists>res. run_sniffer cap network mo ts sn r = Some res) \<and>
     run_sniffer cap network mo ts sn r = run_sniffer cap network mo (take 2 ts) sn r"
  using content_two [of ts cap network "snd (sniff_metadata sn)" "200 * 1000000" r]
  by (auto simp: run_sniffer_def split: prod.splits option.splits)

definition silent :: proto_sniffer where
  "silent = \<lparr>ps_run = (\<lambda>bytes. Inl NoClue), ps_meta = False, ps_net = TCP\<rparr>"

theorem sniffing_ends_after_two_looks_witness:
  "\<exists>res. run_sniffer 100 TCP False [Turn (Inr ''a'') 1, Turn (Inr '''') 1, Turn (Inr ''b'') 1] [silent] \<lparr>cr_cache = ''''\<rparr> = Some res"
  using sniffing_ends_after_two_looks [of "[Turn (Inr ''a'') 1, Turn (Inr '''') 1, Turn (Inr ''b'') 1]" 100 TCP False "[silent]" "\<lparr>cr_cache = ''''\<rparr>"]
  by (simp del: content_loop.simps) metis

section \<open>A message in two pieces\<close>

text \<open>A sniffer that recognises the first bytes and asks for more: it is struck off the list, so
  nothing it would say about the whole is heard.\<close>

lemma more_is_struck_off:
  assumes "ps_run si (Some payload) = Inl NeedMoreData" "sniff network payload sn = (Inl NoClue, sn1)"
  shows "si \<notin> set sn1"
  using assms by (cases rule: sniff_cases [of network payload sn]) (auto simp: no_clue_def)

lemma no_clue_kept:
  "sniff network payload sn = (Inl NoClue, sn1) \<Longrightarrow> sn1 = filter (no_clue network payload) sn"
  by (cases rule: sniff_cases [of network payload sn]) auto

definition mute :: "net \<Rightarrow> proto_sniffer list \<Rightarrow> bool" where
  "mute network sn \<longleftrightarrow> (\<forall>si \<in> set sn. asked network si \<longrightarrow> (\<forall>p. isl (ps_run si (Some p))))"

lemma mute_sniff: "mute network sn \<Longrightarrow> isl (fst (sniff network p sn)) \<and> mute network (snd (sniff network p sn))"
  by (rule sniff_cases [of network p sn]) (auto simp: mute_def find_Some_iff found_def)

lemma mute_turn:
  assumes m: "mute network sn"
  shows "case sniff_turn cap network t sn d a r of Ended res \<Rightarrow> isl res | GoOn sn1 d1 a1 r1 \<Rightarrow> mute network sn1"
proof -
  have q: "isl res \<and> mute network sn1" if "sniff network p sn = (res, sn1)" for p res sn1
    using mute_sniff [OF m, of p] that by simp
  then show ?thesis
    using m by (auto simp: sniff_turn_def Let_def split: turn.split prod.split sum.split sniff_err.split dest!: q)
qed

lemma mute_content: "mute network sn \<Longrightarrow> content_loop cap network ts sn d a r = Some res \<Longrightarrow> isl res"
proof (induction ts arbitrary: sn d a r)
  case (Cons t ts)
  then show ?case
    using mute_turn [OF Cons.prems(1), of cap t d a r] by (auto split: turn_end.splits)
qed simp

text \<open>C25. A message that comes in two pieces is not recognised. If on the first piece each sniffer for the
  network has no clue or asks for more data, and those without a clue never have one, then content
  sniffing ends without a result, even when the sniffer that asked would have found the domain in the
  whole. (The code's own comment says that such a sniffer is given more data until the timeout.) So a
  rule on the domain is not applied to such a connection.\<close>

theorem split_hello_is_not_sniffed:
  "list_all (\<lambda>si. asked network si \<longrightarrow> ps_run si (Some p0) = Inl NeedMoreData
       \<or> (ps_run si (Some p0) = Inl NoClue \<and> (\<forall>p. isl (ps_run si (Some p))))) sn \<Longrightarrow>
     p0 \<noteq> '''' \<Longrightarrow> length p0 \<le> cap \<Longrightarrow>
     content_loop cap network (Turn (Inr p0) e0 # ts) sn deadline 0 \<lparr>cr_cache = ''''\<rparr> = Some res \<Longrightarrow> isl res"
proof -
  assume sn: "list_all (\<lambda>si. asked network si \<longrightarrow> ps_run si (Some p0) = Inl NeedMoreData
       \<or> (ps_run si (Some p0) = Inl NoClue \<and> (\<forall>p. isl (ps_run si (Some p))))) sn"
    and p0: "p0 \<noteq> ''''" "length p0 \<le> cap"
    and l: "content_loop cap network (Turn (Inr p0) e0 # ts) sn deadline 0 \<lparr>cr_cache = ''''\<rparr> = Some res"
  have nf: "\<not> list_ex (found network p0) sn"
    using sn by (auto simp: list_all_iff list_ex_iff found_def)
  have m: "mute network (filter (no_clue network p0) sn)"
    using sn by (auto simp: mute_def no_clue_def list_all_iff)
  show ?thesis
  proof (rule sniff_cases [of network p0 sn])
    fix si r assume "find (found network p0) sn = Some si"
    then show ?thesis using nf by (auto simp: list_ex_iff find_Some_iff)
  next
    assume "sniff network p0 sn = (Inl NoClue, filter (no_clue network p0) sn)"
    then show ?thesis
      using l p0 by (auto simp: sniff_turn_def cache_bytes_def Let_def split: if_splits dest: mute_content [OF m])
  next
    assume "sniff network p0 sn = (Inl UnknownContent, sn)"
    then show ?thesis
      using l p0 by (auto simp: sniff_turn_def cache_bytes_def Let_def)
  qed
qed

text \<open>A sniffer that needs four bytes.\<close>

definition quiet_udp :: proto_sniffer where
  "quiet_udp = silent\<lparr>ps_net := UDP\<rparr>"

definition four_bytes :: proto_sniffer where
  "four_bytes =
     \<lparr>ps_run = (\<lambda>bytes. case bytes of None \<Rightarrow> Inl NoClue
        | Some p \<Rightarrow> if length p < 4 then Inl NeedMoreData else Inr (Sniffed ''quic'' p)), ps_meta = False, ps_net = UDP\<rparr>"

theorem split_hello_is_not_sniffed_witness:
  "content_loop 100 UDP [Turn (Inr ''abcd'') 1] [four_bytes, quiet_udp] 200 0 \<lparr>cr_cache = ''''\<rparr> = Some (Inr (Sniffed ''quic'' ''abcd'')) \<and>
   map_option isl (content_loop 100 UDP [Turn (Inr ''ab'') 1, Turn (Inr ''cd'') 1] [four_bytes, quiet_udp] 200 0 \<lparr>cr_cache = ''''\<rparr>) = Some True"
proof
  show "content_loop 100 UDP [Turn (Inr ''abcd'') 1] [four_bytes, quiet_udp] 200 0 \<lparr>cr_cache = ''''\<rparr> = Some (Inr (Sniffed ''quic'' ''abcd''))"
    by (simp add: sniff_turn_def cache_bytes_def sniff_def four_bytes_def quiet_udp_def silent_def)
  let ?l = "content_loop 100 UDP [Turn (Inr ''ab'') 1, Turn (Inr ''cd'') 1] [four_bytes, quiet_udp] 200 0 \<lparr>cr_cache = ''''\<rparr>"
  have "list_all (\<lambda>si. asked UDP si \<longrightarrow> ps_run si (Some ''ab'') = Inl NeedMoreData
       \<or> (ps_run si (Some ''ab'') = Inl NoClue \<and> (\<forall>p. isl (ps_run si (Some p))))) [four_bytes, quiet_udp]"
    by (simp add: four_bytes_def quiet_udp_def silent_def)
  from split_hello_is_not_sniffed [OF this, of 100]
  have "?l = Some res \<Longrightarrow> isl res" for res
    by (simp del: content_loop.simps)
  moreover have "?l \<noteq> None"
    by (simp add: sniff_turn_def cache_bytes_def sniff_def four_bytes_def quiet_udp_def silent_def)
  ultimately show "map_option isl ?l = Some True"
    by (cases ?l) auto
qed

section \<open>Fake DNS and the others\<close>

text \<open>The sniffer that tries the others behind a fake address has no network, so it is asked for
  none: content sniffing answers what a basic sniffer answers.\<close>

lemma fake_then_others_not_asked:
  assumes n: "network \<noteq> UnknownNet"
    and r: "sniff network p (new_sniffer base fd target) = (Inr res, sn1)"
  shows "\<exists>si \<in> set base. ps_run si (Some p) = Inr res"
proof (cases rule: sniff_cases [of network p "new_sniffer base fd target"])
  case (result si res')
  then have "si \<in> set (new_sniffer base fd target)" "asked network si"
    by (auto simp: find_Some_iff found_def)
  then have "si \<in> set base"
    using n by (auto simp: new_sniffer_def asked_def fake_then_others_def fake_sniffer_def split: option.splits)
  then show ?thesis using result r by auto
qed (use r in auto)

section \<open>Nothing is lost by looking\<close>

text \<open>The dispatcher looks at the stream, then the outbound reads it.\<close>

datatype reader_op = Look nat "string + string" | Read "string + string"

fun reader_run :: "reader_op list \<Rightarrow> cached_reader \<Rightarrow> string \<times> string \<times> cached_reader" where
  "reader_run [] r = ('''', '''', r)"
| "reader_run (Look cap piped # ops) r =
     (case reader_run ops (snd (cache_bytes cap piped r)) of (given, taken, r') \<Rightarrow>
        (given, (case piped of Inl e \<Rightarrow> '''' | Inr mb \<Rightarrow> mb) @ taken, r'))"
| "reader_run (Read piped # ops) r =
     (case reader_run ops (snd (cached_read piped r)) of (given, taken, r') \<Rightarrow>
        ((case fst (cached_read piped r) of Inl e \<Rightarrow> '''' | Inr mb \<Rightarrow> mb) @ given,
         (if cr_cache r \<noteq> '''' then '''' else case piped of Inl e \<Rightarrow> '''' | Inr mb \<Rightarrow> mb) @ taken, r'))"

lemma reader_keeps: "reader_run ops r = (given, taken, r') \<Longrightarrow> given @ cr_cache r' = cr_cache r @ taken"
proof (induction ops r arbitrary: given taken r' rule: reader_run.induct)
  case (2 cap piped ops r)
  then show ?case by (auto simp: cache_bytes_def Let_def split: sum.splits prod.splits)
next
  case (3 piped ops r)
  then show ?case by (auto simp: cached_read_def read_internal_def split: sum.splits prod.splits if_splits)
qed simp

text \<open>C23. Looking at a connection loses, repeats and reorders nothing: after any looks and reads, what the
  outbound was given and what is still cached is, byte for byte, what the pipe delivered; and a look
  shows the first bytes not yet given, as many as its buffer holds.\<close>

theorem looking_loses_nothing:
  "(case reader_run ops \<lparr>cr_cache = ''''\<rparr> of (given, taken, r) \<Rightarrow>
      given @ cr_cache r = taken \<and>
      (\<forall>cap mb. fst (cache_bytes cap (Inr mb) r) = Inr (take cap (drop (length given) (taken @ mb)))))"
proof -
  obtain given taken r where r: "reader_run ops \<lparr>cr_cache = ''''\<rparr> = (given, taken, r)"
    by (metis prod_cases3)
  have k: "given @ cr_cache r = taken" using reader_keeps [OF r] by simp
  have "fst (cache_bytes cap (Inr mb) r) = Inr (take cap (cr_cache r @ mb))" for cap mb
    by (simp add: cache_bytes_def Let_def min_def)
  then show ?thesis using k by (auto simp: r)
qed

end
