(* ===== verification/Dispatch.thy ===== *)
theory Dispatch
  imports Sniffer
begin

text \<open>
  A whole connection in the dispatcher: \<^verbatim>\<open>Dispatch\<close> and \<^verbatim>\<open>DispatchLink\<close> of \<^verbatim>\<open>default.go\<close>,
  composed of the admission and the rules of \<open>Dispatcher\<close> and the sniffing of \<open>Sniffer\<close>.
  \<open>dispatch\<close> is what the caller waits for, \<open>job\<close> the goroutine it starts, up to the outbound that is
  given the connection. The lemmas carry the block routes of the panel to the connections.
\<close>

section \<open>Definitions\<close>

text \<open>\<^verbatim>\<open>session.Content\<close>: the request for sniffing (\<open>None\<close>: not enabled) and the protocol.\<close>

record content =
  ct_request :: "sniff_request option"
  ct_protocol :: string

text \<open>A connection as it arrives: the destination, the contents of its context (\<open>None\<close>: nil), and what
  Xray answers on its way: the fake DNS engine, the sniffers, the pipe, and the router, which sees
  targets and protocol.\<close>

record arrival =
  ar_valid :: bool
  ar_net :: net
  ar_dest :: string
  ar_is_ip :: bool
  ar_session :: session
  ar_content :: "content option"
  ar_fake :: "fake_dns option"
  ar_sniffers :: "proto_sniffer list"
  ar_turns :: "turn list"
  ar_route :: "targets \<Rightarrow> string \<Rightarrow> routing"

datatype answer = Panics string | Refuses string | Starts link

definition the_content :: "arrival \<Rightarrow> content" where
  "the_content q = (case ar_content q of None \<Rightarrow> \<lparr>ct_request = None, ct_protocol = ''''\<rparr> | Some ct \<Rightarrow> ct)"

text \<open>The outbound of the context, with the destination for both targets.\<close>

definition first_targets :: "arrival \<Rightarrow> targets" where
  "first_targets q = \<lparr>tg_dest = ar_dest q, tg_target = ar_dest q, tg_route = None\<rparr>"

definition dispatch :: "int \<Rightarrow> nat \<Rightarrow> arrival \<Rightarrow> 'u dstate \<Rightarrow> answer \<times> 'u dstate \<times> kick list" where
  "dispatch now r q st =
     (if \<not> ar_valid q then (Panics ''Dispatcher: Invalid destination.'', st, [])
      else case get_link now r (ar_net q = TCP) (ar_session q) st of
             (Inl e, st1, ks) \<Rightarrow> (Refuses e, st1, ks)
           | (Inr lk, st1, ks) \<Rightarrow> (Starts lk, st1, ks))"

text \<open>The engine knows the address; \<^verbatim>\<open>DispatchLink\<close> asks it without looking whether it is one.\<close>

definition pool_answer :: "arrival \<Rightarrow> bool" where
  "pool_answer q = (case ar_fake q of None \<Rightarrow> False | Some f \<Rightarrow> fd_in_pool f = Some True)"

definition sniffed :: "arrival \<Rightarrow> sniff_request \<Rightarrow> (sniff_err + sniff_result) option" where
  "sniffed q rq =
     run_sniffer 32767 (ar_net q) (sr_metadata_only rq) (ar_turns q)
       (new_sniffer (ar_sniffers q) (ar_fake q) (ar_net q)) \<lparr>cr_cache = ''''\<rparr>"

text \<open>Targets and protocol after sniffing; \<open>None\<close> while it goes on. \<open>target_in_pool\<close> is what the test for a
  fake address says.\<close>

definition view :: "bool \<Rightarrow> arrival \<Rightarrow> (targets \<times> string) option" where
  "view target_in_pool q =
     (case ct_request (the_content q) of
        None \<Rightarrow> Some (first_targets q, '''')
      | Some rq \<Rightarrow>
          (case sniffed q rq of
             None \<Rightarrow> None
           | Some res \<Rightarrow>
               Some (override_target (ar_is_ip q \<and> pool_answer q) target_in_pool res rq (first_targets q),
                     content_protocol res (ct_protocol (the_content q)))))"

text \<open>\<^verbatim>\<open>routedDispatch\<close>: the limiter on which the close is deferred, and the verdict.\<close>

definition routed_dispatch ::
    "(string \<Rightarrow> string \<Rightarrow> bool) \<Rightarrow> arrival \<Rightarrow> link \<Rightarrow> targets \<times> string \<Rightarrow> 'u dstate \<Rightarrow> nat option \<times> verdict" where
  "routed_dispatch re_match q lk v st =
     (case v of (tg, protocol) \<Rightarrow>
        (rd_enter (ar_net q = TCP) (ar_session q) st,
         rd_decide re_match (tg_dest tg) protocol (ar_route q tg protocol) (ar_session q) lk st))"

definition job ::
    "(string \<Rightarrow> string \<Rightarrow> bool) \<Rightarrow> arrival \<Rightarrow> link \<Rightarrow> 'u dstate \<Rightarrow> ((targets \<times> string) \<times> nat option \<times> verdict) option" where
  "job re_match q lk st =
     map_option (\<lambda>v. (v, routed_dispatch re_match q lk v st)) (view (ar_is_ip q \<and> pool_answer q) q)"

text \<open>\<^verbatim>\<open>DispatchLink\<close>: an invalid destination is an error, and the caller itself sniffs and dispatches.\<close>

definition dispatch_direct ::
    "(string \<Rightarrow> string \<Rightarrow> bool) \<Rightarrow> int \<Rightarrow> nat \<Rightarrow> arrival \<Rightarrow> 'u dstate
     \<Rightarrow> (string + ((targets \<times> string) \<times> nat option \<times> verdict) option) \<times> 'u dstate \<times> kick list" where
  "dispatch_direct re_match now r q st =
     (if \<not> ar_valid q then (Inl ''Dispatcher: Invalid destination.'', st, [])
      else case dispatch_link now r (ar_net q = TCP) (ar_session q) st of
             (Inl e, st1, ks) \<Rightarrow> (Inl e, st1, ks)
           | (Inr lk, st1, ks) \<Rightarrow>
               (Inr (map_option (\<lambda>v. (v, routed_dispatch re_match q lk v st1)) (view (pool_answer q) q)), st1, ks))"

text \<open>The detour in the access log: a forced tag, a route, or the default.\<close>

definition access_detour :: "string \<Rightarrow> routing \<Rightarrow> string option" where
  "access_detour in_tag rt =
     (case route_verdict rt of
        Handle t \<Rightarrow>
          if t = '''' then None
          else if in_tag = '''' then Some t
          else if rt_forced rt \<noteq> '''' then Some (in_tag @ '' ==> '' @ t)
          else if rt_picked rt \<noteq> None then Some (in_tag @ '' -> '' @ t)
          else Some (in_tag @ '' >> '' @ t)
      | _ \<Rightarrow> None)"

section \<open>Both ways agree\<close>

text \<open>A caller that hands over its own link is treated as one that is given a pipe, apart from an invalid
  destination, if the engine knows no domain for an address.\<close>

lemma dispatch_direct_same:
  assumes "ar_valid q" "pool_answer q \<longrightarrow> ar_is_ip q"
  shows "dispatch_direct re_match now r q st =
     (case dispatch now r q st of
        (Panics e, st1, ks) \<Rightarrow> (Inl e, st1, ks)
      | (Refuses e, st1, ks) \<Rightarrow> (Inl e, st1, ks)
      | (Starts lk, st1, ks) \<Rightarrow> (Inr (job re_match q lk st1), st1, ks))"
proof -
  have "(ar_is_ip q \<and> pool_answer q) = pool_answer q" using assms(2) by auto
  then show ?thesis
    using assms(1) by (simp add: dispatch_direct_def dispatch_def job_def dispatch_link_eq split: prod.splits sum.splits)
qed

section \<open>A connection as steps\<close>

text \<open>The answer of \<open>dispatch\<close> is a step of the interleaved system, a new connection or a refusal, so what
  holds in its runs holds of whole connections.\<close>

lemma dispatch_is_step:
  assumes "dispatch now r q (d_state d) = (ans, st, ks)" "ar_valid q" "addr_ok (s_ip (ar_session q))"
  shows "dsys_step d \<lparr>d_state = st, d_conns =
      (case ans of Starts lk \<Rightarrow> add_mset \<lparr>cn_session = ar_session q, cn_tcp = (ar_net q = TCP), cn_phase = Linked\<rparr> (d_conns d)
       | _ \<Rightarrow> d_conns d)\<rparr>"
proof -
  obtain res where g: "get_link now r (ar_net q = TCP) (ar_session q) (d_state d) = (res, st, ks)"
    and ans: "ans = (case res of Inl e \<Rightarrow> Refuses e | Inr lk \<Rightarrow> Starts lk)"
    using assms(1,2) by (auto simp: dispatch_def split: prod.splits sum.splits)
  show ?thesis
  proof (cases res)
    case (Inl e)
    then show ?thesis
      using dsys_step.refused [OF g [unfolded Inl] assms(3)] by (cases d) (simp add: ans)
  next
    case (Inr lk)
    then show ?thesis using dsys_step.dial [OF g [unfolded Inr] assms(3)] by (simp add: ans)
  qed
qed

section \<open>The rules stay\<close>

text \<open>What the other connections do to a limiter leaves its rules alone.\<close>

definition same_rules :: "limiter \<Rightarrow> limiter \<Rightarrow> bool" where
  "same_rules l l' \<longleftrightarrow> domain_rules l' = domain_rules l \<and> protocol_rules l' = protocol_rules l"

lemma same_rules_refl [simp]: "same_rules l l"
  by (simp add: same_rules_def)

lemma same_rules_trans: "same_rules l l' \<Longrightarrow> same_rules l' l'' \<Longrightarrow> same_rules l l''"
  by (simp add: same_rules_def)

lemma same_rules_fields [simp]:
  "same_rules l (m\<lparr>ref_shards := a\<rparr>) = same_rules l m" "same_rules l (m\<lparr>device_dirty := b\<rparr>) = same_rules l m"
  "same_rules l (m\<lparr>speed_limiter := c\<rparr>) = same_rules l m" "same_rules l (m\<lparr>kick_throttle := d\<rparr>) = same_rules l m"
  "same_rules l (m\<lparr>kick_cooldown := e\<rparr>) = same_rules l m" "same_rules l (m\<lparr>cooldown_count := f\<rparr>) = same_rules l m"
  by (simp_all add: same_rules_def)

lemma same_rules_checked:
  assumes "check_limit now r k ip tcp l = (w, rej, l', ks)"
  shows "same_rules l l'"
  using assms
proof (cases rule: check_limit_cases)
  case (tcp v ok l1 sl)
  from tcp(3) have "same_rules l l1"
    by (cases rule: try_open_cases) (simp_all add: conn_opened_def Let_def)
  then show ?thesis using tcp by simp
qed simp_all

lemma same_rules_conn [simp]:
  "same_rules l (conn_closed k ip l)" "same_rules l (kick_device now x l)"
  by (simp_all add: conn_closed_def kick_device_def Let_def split: option.splits prod.splits)

text \<open>A step keeps the table of limiters, and the rules of each.\<close>

definition rules_kept :: "'u dstate \<Rightarrow> 'u dstate \<Rightarrow> bool" where
  "rules_kept st st' \<longleftrightarrow> (\<forall>t. find_limiter t st' = find_limiter t st) \<and>
     length (lim_heap (ds_limiters st')) = length (lim_heap (ds_limiters st)) \<and>
     (\<forall>b < length (lim_heap (ds_limiters st)). same_rules (lim_of b st) (lim_of b st'))"

lemma rules_kept_refl [simp]: "rules_kept st st"
  by (simp add: rules_kept_def)

lemma rules_kept_trans: "rules_kept st st' \<Longrightarrow> rules_kept st' st'' \<Longrightarrow> rules_kept st st''"
  by (auto simp: rules_kept_def intro: same_rules_trans)

lemma rules_kept_put:
  "same_rules (lim_of b st) l \<Longrightarrow> rules_kept st (put_limiter b l st)"
  "same_rules (lim_of b st) l \<Longrightarrow> rules_kept st ((put_limiter b l st)\<lparr>ds_xray := x\<rparr>)"
  by (simp_all add: rules_kept_def)

lemma rules_kept_get_link:
  assumes "get_link now r tcp s st = (res, st', ks)"
  shows "rules_kept st st'"
  using assms
proof (cases rule: get_link_cases)
  case (checked b w rej l x)
  then show ?thesis by (auto intro: rules_kept_put same_rules_checked)
qed simp_all

lemma rules_kept_leave: "rules_kept st (rd_leave s b st)"
  by (simp add: rd_leave_def rules_kept_put split: option.splits)

lemma rules_kept_step: "dsys_step d d' \<Longrightarrow> rules_kept (d_state d) (d_state d')"
  by (induction rule: dsys_step.induct) (auto intro: rules_kept_get_link rules_kept_leave rules_kept_put)

interpretation rk: kept_by_steps dsys_step "\<lambda>d. rules_kept st (d_state d)" for st
  by unfold_locales (auto intro: rules_kept_trans rules_kept_step)


section \<open>Blocked traffic\<close>

lemma compile_all_same: "compile_all re_ok res = Inr cs \<Longrightarrow> cs = res"
  by (induction res arbitrary: cs) (auto split: if_splits sum.splits)

lemma updated_rules:
  "update_rule re_ok rl l = Inr l' \<Longrightarrow> domain_rules l' = rl_regexp rl \<and> protocol_rules l' = rl_protocol rl"
  by (auto simp: update_rule_def dest: compile_all_same split: sum.splits)

text \<open>An admitted connection keeps the limiter that was registered for its inbound.\<close>

lemma admitted_limiter:
  assumes "dispatch now r q st = (Starts lk, st', ks)" "tracked (ar_session q)"
    "find_limiter (s_tag (ar_session q)) st = Some a"
  shows "lk_limiter lk = Some a" "rules_kept st st'"
proof -
  have g: "get_link now r (ar_net q = TCP) (ar_session q) st = (Inr lk, st', ks)"
    using assms(1) by (simp add: dispatch_def split: if_splits prod.splits sum.splits)
  show "rules_kept st st'" by (rule rules_kept_get_link [OF g])
  from g show "lk_limiter lk = Some a"
    by (cases rule: get_link_cases) (use assms in auto)
qed

text \<open>A verdict that hands the connection on has found no rule of its limiter.\<close>

lemma handled_passes:
  assumes "job re_match q lk st = Some ((tg, protocol), deferred, Handle t)" "tracked (ar_session q)"
    "lk_limiter lk = Some a"
  shows "\<not> check_domain_rule re_match (tg_dest tg) (lim_of a st)"
    "protocol \<noteq> '''' \<Longrightarrow> \<not> check_protocol_rule protocol (lim_of a st)"
  using assms
  by (auto simp: job_def routed_dispatch_def rd_decide_def rules_verdict_def rd_limiter_def split: if_splits option.splits)

definition breaks_route :: "(string \<Rightarrow> string \<Rightarrow> bool) \<Rightarrow> string \<Rightarrow> string \<Rightarrow> string \<Rightarrow> bool" where
  "breaks_route re_match dest protocol m \<longleftrightarrow>
     (if has_prefix ''protocol:'' m then protocol \<noteq> '''' \<and> protocol = trim_prefix ''protocol:'' m
      else re_match (trim_prefix ''regexp:'' m) dest)"

lemma block_matches_reject:
  assumes "m \<in> set (concat (map rules_of_route (cn_routes cm)))" "breaks_route re_match dest protocol m"
    "domain_rules l = rl_regexp (ni_rules (build_node c p cm sec))"
    "protocol_rules l = rl_protocol (ni_rules (build_node c p cm sec))"
  shows "check_domain_rule re_match dest l \<or> (protocol \<noteq> '''' \<and> check_protocol_rule protocol l)"
proof (cases "has_prefix ''protocol:'' m")
  case True
  then have "trim_prefix ''protocol:'' m \<in> set (protocol_rules l)"
    using assms(1) unfolding assms(4) node_rules_exact Let_def by auto
  then show ?thesis using True assms(2) by (auto simp: breaks_route_def check_protocol_rule_def list_ex_iff)
next
  case False
  then have "trim_prefix ''regexp:'' m \<in> set (domain_rules l)"
    using assms(1) unfolding assms(3) node_rules_exact Let_def by auto
  then show ?thesis using False assms(2) by (auto simp: breaks_route_def check_domain_rule_def list_ex_iff)
qed

text \<open>C9. Traffic the panel blocks reaches no outbound. Let the limiter of an inbound have the rules of a
  node of the panel; then after any connections, kicks and closes, a tracked connection of that inbound
  is admitted, and after any more of them it is sniffed and judged: if it is handed to an outbound, by a
  forced tag, a route or by default, it breaks no block route of the node. Neither the
  destination the rules see (the sniffed domain, also when only the router is to know it) matches an
  expression of a route, nor is the protocol one that a route names.\<close>

theorem blocked_traffic_reaches_no_outbound:
  "update_rule re_ok (ni_rules (build_node c p cm sec)) l = Inr (lim_of a (d_state d0)) \<Longrightarrow>
   find_limiter (s_tag (ar_session q)) (d_state d0) = Some a \<Longrightarrow> a < length (lim_heap (ds_limiters (d_state d0))) \<Longrightarrow>
   dsys_step\<^sup>*\<^sup>* d0 d1 \<Longrightarrow> tracked (ar_session q) \<Longrightarrow> dispatch now r q (d_state d1) = (Starts lk, st, ks) \<Longrightarrow>
   dsys_step\<^sup>*\<^sup>* \<lparr>d_state = st, d_conns = add_mset \<lparr>cn_session = ar_session q, cn_tcp = (ar_net q = TCP), cn_phase = Linked\<rparr> (d_conns d1)\<rparr> d \<Longrightarrow>
   job re_match q lk (d_state d) = Some ((tg, protocol), deferred, Handle t) \<Longrightarrow>
   m \<in> set (concat (map rules_of_route (cn_routes cm))) \<Longrightarrow>
   \<not> breaks_route re_match (tg_dest tg) protocol m"
proof -
  assume rule: "update_rule re_ok (ni_rules (build_node c p cm sec)) l = Inr (lim_of a (d_state d0))"
    and a: "find_limiter (s_tag (ar_session q)) (d_state d0) = Some a" "a < length (lim_heap (ds_limiters (d_state d0)))"
    and run: "dsys_step\<^sup>*\<^sup>* d0 d1" and tr: "tracked (ar_session q)"
    and ad: "dispatch now r q (d_state d1) = (Starts lk, st, ks)"
    and more: "dsys_step\<^sup>*\<^sup>* \<lparr>d_state = st, d_conns = add_mset \<lparr>cn_session = ar_session q, cn_tcp = (ar_net q = TCP), cn_phase = Linked\<rparr> (d_conns d1)\<rparr> d"
    and j: "job re_match q lk (d_state d) = Some ((tg, protocol), deferred, Handle t)"
    and m: "m \<in> set (concat (map rules_of_route (cn_routes cm)))"
  have k: "rules_kept (d_state d0) (d_state d1)" by (rule rk.reach_keeps [OF run]) simp
  then have "find_limiter (s_tag (ar_session q)) (d_state d1) = Some a" using a by (simp add: rules_kept_def)
  note ad' = admitted_limiter [OF ad tr this]
  have "rules_kept (d_state d0) (d_state d)"
    by (rule rk.reach_keeps [OF more]) (use rules_kept_trans [OF k ad'(2)] in simp)
  then have "same_rules (lim_of a (d_state d0)) (lim_of a (d_state d))" using a(2) by (simp add: rules_kept_def)
  then have "domain_rules (lim_of a (d_state d)) = rl_regexp (ni_rules (build_node c p cm sec))"
    "protocol_rules (lim_of a (d_state d)) = rl_protocol (ni_rules (build_node c p cm sec))"
    using updated_rules [OF rule] by (simp_all add: same_rules_def)
  from block_matches_reject [OF m _ this] handled_passes [OF j tr ad'(1)]
  show ?thesis by blast
qed


text \<open>A node that blocks a domain and a protocol, and a connection whose fake address stands for another
  domain.\<close>

definition demo_routes :: common_node where
  "demo_routes = \<lparr>cn_host = ''h'', cn_port = 443, cn_server_name = '''',
     cn_routes = [\<lparr>route_id = 1, route_match = MString ''regexp:ads.example,protocol:bittorrent'', route_action = ''block'', route_value = ''''\<rparr>],
     cn_base = None\<rparr>"

definition blocking_node :: node_info where
  "blocking_node = build_node demo_client (Shadowsocks \<lparr>ss_cipher = ''aes-128-gcm'', ss_server_key = ''k''\<rparr>) demo_routes 0"

definition demo_blocked :: "unit dsys" where
  "demo_blocked = demo_dsys\<lparr>d_state := put_limiter 0
     ((lim_of 0 (d_state demo_dsys))\<lparr>domain_rules := [''ads.example''], protocol_rules := [''bittorrent'']\<rparr>) (d_state demo_dsys)\<rparr>"

definition demo_arrival :: arrival where
  "demo_arrival = \<lparr>ar_valid = True, ar_net = TCP, ar_dest = ''198.18.0.1'', ar_is_ip = True, ar_session = demo_session,
     ar_content = Some \<lparr>ct_request = Some \<lparr>sr_metadata_only = True, sr_route_only = True, sr_exclude = None,
       sr_override = [''fakedns'']\<rparr>, ct_protocol = ''''\<rparr>,
     ar_fake = Some \<lparr>fd_domain = ''good.example'', fd_in_pool = Some True\<rparr>, ar_sniffers = [], ar_turns = [],
     ar_route = (\<lambda>tg protocol. \<lparr>rt_forced = '''', rt_picked = Some ''direct'', rt_handler = (\<lambda>t. t = ''direct''), rt_default = None\<rparr>)\<rparr>"

lemma demo_rules:
  "update_rule (\<lambda>re. True) (ni_rules blocking_node) (lim_of 0 (d_state demo_dsys)) = Inr (lim_of 0 (d_state demo_blocked))"
proof -
  have "ni_rules blocking_node = \<lparr>rl_regexp = [''ads.example''], rl_protocol = [''bittorrent'']\<rparr>"
    unfolding blocking_node_def node_rules_exact by code_simp
  moreover have "0 < length (lim_heap (ds_limiters (d_state demo_dsys)))" by code_simp
  ultimately show ?thesis by (simp add: update_rule_def demo_blocked_def)
qed

lemma demo_view:
  "view (ar_is_ip demo_arrival \<and> pool_answer demo_arrival) demo_arrival
     = Some (\<lparr>tg_dest = ''good.example'', tg_target = ''good.example'', tg_route = None\<rparr>, ''fakedns'')"
  by code_simp

theorem blocked_traffic_reaches_no_outbound_witness:
  "\<exists>lk st ks. dispatch 0 0 demo_arrival (d_state demo_blocked) = (Starts lk, st, ks) \<and>
     (\<exists>v b. job (\<lambda>re d. re = d) demo_arrival lk st = Some (v, b, Handle ''direct'') \<and>
       \<not> breaks_route (\<lambda>re d. re = d) (tg_dest (fst v)) (snd v) ''regexp:ads.example'')"
proof -
  let ?m = "\<lambda>re d. re = (d :: string)"
  let ?g = "dispatch 0 0 demo_arrival (d_state demo_blocked)"
  let ?v = "(\<lparr>tg_dest = ''good.example'', tg_target = ''good.example'', tg_route = None\<rparr>, ''fakedns'')"
  have ok: "case fst ?g of Starts lk \<Rightarrow> True | _ \<Rightarrow> False" by code_simp
  obtain lk st ks where g: "?g = (Starts lk, st, ks)"
    using ok by (cases ?g) (auto split: answer.splits)
  have "snd (routed_dispatch ?m demo_arrival (case fst ?g of Starts lk \<Rightarrow> lk | _ \<Rightarrow> plain_link) ?v (fst (snd ?g))) = Handle ''direct''"
    by code_simp
  then have j: "job ?m demo_arrival lk st = Some (?v, fst (routed_dispatch ?m demo_arrival lk ?v st), Handle ''direct'')"
    by (simp add: g job_def demo_view prod_eq_iff)
  have a: "find_limiter (s_tag (ar_session demo_arrival)) (d_state demo_blocked) = Some 0"
    "0 < length (lim_heap (ds_limiters (d_state demo_blocked)))" "tracked (ar_session demo_arrival)"
    by code_simp+
  have m: "''regexp:ads.example'' \<in> set (concat (map rules_of_route (cn_routes demo_routes)))" by code_simp
  have "\<not> breaks_route ?m (tg_dest (fst ?v)) (snd ?v) ''regexp:ads.example''"
    by (rule blocked_traffic_reaches_no_outbound [OF demo_rules [unfolded blocking_node_def] a(1,2) rtranclp.rtrancl_refl a(3) g
        rtranclp.rtrancl_refl _ m, where re_match = ?m and protocol = "snd ?v"]) (use j in simp)
  then show ?thesis using g j by blast
qed

end
