(* ===== verification/Inbound.thy ===== *)
theory Inbound
  imports Cores
begin

text \<open>
  What \<^verbatim>\<open>core/xray/inbound.go\<close>, \<^verbatim>\<open>outbound.go\<close> and \<^verbatim>\<open>dns.go\<close> make of a node: the inbound and outbound
  configuration handed to Xray, and the DNS file. Xray's configuration types are records of the
  fields the code sets. Xray's own parsing of transport settings and its \<^verbatim>\<open>Build\<close> are arguments
  (\<open>xray_conf\<close>); a dereferenced nil pointer is the outcome \<open>Panics\<close>.
\<close>

section \<open>Outcomes\<close>

datatype 'a outcome = Done 'a | Failed string | Panics

definition obind :: "'a outcome \<Rightarrow> ('a \<Rightarrow> 'b outcome) \<Rightarrow> 'b outcome" where
  "obind r f = (case r of Done x \<Rightarrow> f x | Failed e \<Rightarrow> Failed e | Panics \<Rightarrow> Panics)"

lemma obind_simps [simp]:
  "obind (Done x) f = f x" "obind (Failed e) f = Failed e" "obind Panics f = Panics"
  by (simp_all add: obind_def)

lemma obind_Done: "obind r f = Done y \<longleftrightarrow> (\<exists>x. r = Done x \<and> f x = Done y)"
  by (cases r) auto

section \<open>Xray's configuration\<close>

text \<open>Transport settings: what Xray has parsed, and the flag the code sets itself.\<close>

record 'c transport =
  tp_body :: 'c
  tp_proxy :: bool

record socket_config =
  so_proxy :: bool
  so_tfo :: bool
  so_trusted :: "string list"

record tls_config =
  tl_cert_file :: string
  tl_key_file :: string
  tl_ocsp :: int
  tl_reject_sni :: bool

record reality_config =
  re_dest :: string
  re_xver :: int
  re_server_names :: "string list"
  re_private_key :: string
  re_short_ids :: "string list"
  re_seed :: string

record 'c stream =
  st_network :: "string option"
  st_tcp :: "'c transport option"
  st_ws :: "'c transport option"
  st_grpc :: "'c transport option"
  st_upgrade :: "'c transport option"
  st_split :: "'c transport option"
  st_socket :: "socket_config option"
  st_security :: string
  st_tls :: "tls_config option"
  st_reality :: "reality_config option"

definition new_stream :: "string option \<Rightarrow> 'c stream" where
  "new_stream n =
     \<lparr>st_network = n, st_tcp = None, st_ws = None, st_grpc = None, st_upgrade = None, st_split = None,
      st_socket = None, st_security = '''', st_tls = None, st_reality = None\<rparr>"

record in_fallback =
  if_name :: string
  if_alpn :: string
  if_path :: string
  if_dest :: string
  if_xver :: int

text \<open>The settings by protocol. Shadowsocks: cipher, password, and its first user's cipher and password.\<close>

datatype in_settings =
    VlessSettings string "in_fallback list"
  | VmessSettings
  | TrojanSettings "in_fallback list"
  | SSSettings string string string string

record 'c detour =
  de_protocol :: string
  de_settings :: in_settings
  de_port :: int
  de_listen :: string
  de_sniffing :: bool
  de_stream :: "'c stream"
  de_tag :: string

text \<open>Xray's part: the settings of a transport by name, the zero settings, the trusted headers of
  socket settings (\<open>None\<close>: they cannot be read), and the final \<^verbatim>\<open>Build\<close>.\<close>

record ('c, 'h) xray_conf =
  xp_transport :: "string \<Rightarrow> json \<Rightarrow> 'c transport option"
  xp_zero :: 'c
  xp_socket :: "json \<Rightarrow> string list option"
  xp_build :: "'c detour \<Rightarrow> string + 'h"

section \<open>Protocol settings\<close>

definition need_xray :: "node_options \<Rightarrow> xray_options outcome" where
  "need_xray opts = (case opt_xray opts of None \<Rightarrow> Panics | Some x \<Rightarrow> Done x)"

fun fallback_list :: "fallback_config list \<Rightarrow> in_fallback list outcome" where
  "fallback_list [] = Done []"
| "fallback_list (c # cs) =
     (if fb_dest c = '''' then Failed ''dest is required for fallback fialed''
      else obind (fallback_list cs) (\<lambda>fs.
        Done (\<lparr>if_name = fb_sni c, if_alpn = fb_alpn c, if_path = fb_path c, if_dest = fb_dest c, if_xver = fb_xver c\<rparr> # fs)))"

definition build_vless_fallbacks :: "fallback_config list option \<Rightarrow> in_fallback list outcome" where
  "build_vless_fallbacks fcs =
     (case fcs of None \<Rightarrow> Failed ''you must provide FallBackConfigs'' | Some cs \<Rightarrow> fallback_list cs)"

text \<open>The same code with Trojan's record.\<close>

definition build_trojan_fallbacks :: "fallback_config list option \<Rightarrow> in_fallback list outcome" where
  "build_trojan_fallbacks fcs =
     (case fcs of None \<Rightarrow> Failed ''you must provide FallBackConfigs'' | Some cs \<Rightarrow> fallback_list cs)"

definition vless_decryption :: "vallss_node \<Rightarrow> string outcome" where
  "vless_decryption v =
     (if va_decryption v \<noteq> '''' then Done (va_decryption v)
      else if va_encryption v \<noteq> '''' then
        (if va_encryption v = ''mlkem768x25519plus'' then
           (let e = va_enc_settings v in
              Done (join_with ''.'' ([''mlkem768x25519plus'', enc_mode e, enc_ticket e]
                @ (if enc_padding e \<noteq> '''' then [enc_padding e] else []) @ [enc_key e])))
         else Failed (''vless decryption method '' @ va_encryption v @ '' is not support''))
      else Done ''none'')"

section \<open>Transport\<close>

text \<open>The field \<^verbatim>\<open>socketSettings\<close>; any error there is passed over.\<close>

definition trusted_headers :: "('c, 'h) xray_conf \<Rightarrow> raw \<Rightarrow> string list option" where
  "trusted_headers xp ns =
     (case ns of
        None \<Rightarrow> None
      | Some j \<Rightarrow>
          (case struct_fields j of
             None \<Rightarrow> None
           | Some kvs \<Rightarrow>
               (case find_field ''socketSettings'' kvs of
                  None \<Rightarrow> None
                | Some JNull \<Rightarrow> None
                | Some sj \<Rightarrow> xp_socket xp sj)))"

definition apply_socket_settings ::
    "('c, 'h) xray_conf \<Rightarrow> node_options \<Rightarrow> raw \<Rightarrow> 'c stream \<Rightarrow> 'c stream outcome" where
  "apply_socket_settings xp opts ns st =
     (case trusted_headers xp ns of
        None \<Rightarrow> Done st
      | Some trusted \<Rightarrow>
          obind (case st_socket st of
                   Some so \<Rightarrow> Done so
                 | None \<Rightarrow> obind (need_xray opts) (\<lambda>x.
                     Done \<lparr>so_proxy = xo_proxy_protocol x, so_tfo = xo_tfo x, so_trusted = []\<rparr>))
            (\<lambda>so. Done (st\<lparr>st_socket := Some (if trusted \<noteq> [] then so\<lparr>so_trusted := trusted\<rparr> else so)\<rparr>)))"

text \<open>The settings of the named transport.\<close>

definition set_transport :: "string \<Rightarrow> 'c transport \<Rightarrow> 'c stream \<Rightarrow> 'c stream" where
  "set_transport network t st =
     (if network = ''tcp'' then st\<lparr>st_tcp := Some t\<rparr>
      else if network = ''ws'' then st\<lparr>st_ws := Some t\<rparr>
      else if network = ''grpc'' then st\<lparr>st_grpc := Some t\<rparr>
      else if network = ''httpupgrade'' then st\<lparr>st_upgrade := Some t\<rparr>
      else st\<lparr>st_split := Some t\<rparr>)"

definition transport_settings :: "('c, 'h) xray_conf \<Rightarrow> string \<Rightarrow> json \<Rightarrow> 'c stream \<Rightarrow> 'c stream outcome" where
  "transport_settings xp network j st =
     (if network \<notin> {''tcp'', ''ws'', ''grpc'', ''httpupgrade'', ''splithttp'', ''xhttp''}
      then Failed ''the network type is not vail''
      else case xp_transport xp network j of
             None \<Rightarrow> Failed (''unmarshal '' @ network @ '' settings error'')
           | Some t \<Rightarrow> Done (set_transport network t st))"

definition apply_transport_settings ::
    "('c, 'h) xray_conf \<Rightarrow> node_options \<Rightarrow> string \<Rightarrow> raw \<Rightarrow> 'c stream outcome" where
  "apply_transport_settings xp opts network0 ns =
     (let network = (if network0 = '''' then ''tcp'' else network0); st = new_stream (Some network) in
        case ns of
          None \<Rightarrow> apply_socket_settings xp opts ns st
        | Some j \<Rightarrow>
            if j = JNull then apply_socket_settings xp opts ns st
            else obind (transport_settings xp network j st) (apply_socket_settings xp opts ns))"

section \<open>Inbounds by protocol\<close>

definition build_v2ray ::
    "('c, 'h) xray_conf \<Rightarrow> node_options \<Rightarrow> string \<Rightarrow> vallss_node \<Rightarrow> (string \<times> in_settings \<times> 'c stream) outcome" where
  "build_v2ray xp opts type v =
     obind
       (if type = ''vless'' then
          obind (need_xray opts) (\<lambda>x.
            if xo_fallback x then
              obind (build_vless_fallbacks (xo_fallbacks x)) (\<lambda>fs. Done (''vless'', VlessSettings ''none'' fs))
            else obind (vless_decryption v) (\<lambda>d. Done (''vless'', VlessSettings d [])))
        else Done (''vmess'', VmessSettings))
       (\<lambda>(proto, sets).
          obind (apply_transport_settings xp opts (va_network v) (va_net_settings v)) (\<lambda>st. Done (proto, sets, st)))"

definition build_trojan ::
    "('c, 'h) xray_conf \<Rightarrow> node_options \<Rightarrow> trojan_node \<Rightarrow> (string \<times> in_settings \<times> 'c stream) outcome" where
  "build_trojan xp opts v =
     obind (need_xray opts) (\<lambda>x.
       obind (if xo_fallback x then build_trojan_fallbacks (xo_fallbacks x) else Done []) (\<lambda>fs.
         obind (apply_transport_settings xp opts (tr_network v) (tr_net_settings v)) (\<lambda>st.
           Done (''trojan'', TrojanSettings fs, st))))"

text \<open>\<open>rnd\<close>: 32 random bytes in hexadecimal, or the error of the generator.\<close>

definition build_shadowsocks :: "string + string \<Rightarrow> ss_node \<Rightarrow> (string \<times> in_settings \<times> 'c stream) outcome" where
  "build_shadowsocks rnd s =
     (case rnd of
        Inl e \<Rightarrow> Failed (''generate random password error: '' @ e)
      | Inr r \<Rightarrow>
          Done (''shadowsocks'',
            (if ss_server_key s \<noteq> '''' then SSSettings (ss_cipher s) (ss_server_key s) '''' (base64_encode r)
             else SSSettings (ss_cipher s) '''' (ss_cipher s) r),
            new_stream (Some ''tcp'')))"

text \<open>The \<^verbatim>\<open>switch\<close> on the node type: protocol, settings, stream, and the network. A type without its
  part of the node is a nil pointer.\<close>

definition build_protocol ::
    "('c, 'h) xray_conf \<Rightarrow> string + string \<Rightarrow> node_options \<Rightarrow> node_info \<Rightarrow> ((string \<times> in_settings \<times> 'c stream) \<times> string) outcome" where
  "build_protocol xp rnd opts n =
     (if ni_type n = ''vmess'' \<or> ni_type n = ''vless'' then
        (case ni_proto n of
           VAllss v \<Rightarrow> obind (build_v2ray xp opts (ni_type n) v) (\<lambda>r. Done (r, va_network v))
         | _ \<Rightarrow> Panics)
      else if ni_type n = ''trojan'' then
        (case ni_proto n of
           Trojan v \<Rightarrow> obind (build_trojan xp opts v) (\<lambda>r. Done (r, if tr_network v \<noteq> '''' then tr_network v else ''tcp''))
         | _ \<Rightarrow> Panics)
      else if ni_type n = ''shadowsocks'' then
        (case ni_proto n of
           Shadowsocks s \<Rightarrow> obind (build_shadowsocks rnd s) (\<lambda>r. Done (r, ''tcp''))
         | _ \<Rightarrow> Panics)
      else Failed (''unsupported node type: '' @ ni_type n @ '', Only support: V2ray, Trojan, Shadowsocks''))"

section \<open>\<^verbatim>\<open>buildInbound\<close>\<close>

text \<open>The proxy protocol flag goes to the transport, or into new socket settings.\<close>

definition set_proxy_protocol :: "('c, 'h) xray_conf \<Rightarrow> xray_options \<Rightarrow> string \<Rightarrow> 'c stream \<Rightarrow> 'c stream" where
  "set_proxy_protocol xp x network st =
     (let flag = (\<lambda>t. Some (case t of
          Some t' \<Rightarrow> t'\<lparr>tp_proxy := xo_proxy_protocol x\<rparr>
        | None \<Rightarrow> \<lparr>tp_body = xp_zero xp, tp_proxy = xo_proxy_protocol x\<rparr>))
      in if network = ''tcp'' then st\<lparr>st_tcp := flag (st_tcp st)\<rparr>
         else if network = ''ws'' then st\<lparr>st_ws := flag (st_ws st)\<rparr>
         else st\<lparr>st_socket := Some \<lparr>so_proxy = xo_proxy_protocol x, so_tfo = xo_tfo x, so_trusted = []\<rparr>\<rparr>)"

definition reality_target :: "tls_settings \<Rightarrow> string" where
  "reality_target ts =
     (let dest = (if tls_dest ts = '''' then server_name ts else tls_dest ts) in
        if CHR '':'' \<in> set dest \<or> tls_port ts = '''' then dest else dest @ '':'' @ tls_port ts)"

definition tls_of :: "node_info \<Rightarrow> tls_settings outcome" where
  "tls_of n =
     (if ni_type n = ''trojan'' then (case ni_proto n of Trojan t \<Rightarrow> Done (tr_tls_settings t) | _ \<Rightarrow> Panics)
      else (case ni_proto n of VAllss v \<Rightarrow> Done (va_tls_settings v) | _ \<Rightarrow> Panics))"

definition set_security :: "node_options \<Rightarrow> node_info \<Rightarrow> 'c stream \<Rightarrow> 'c stream outcome" where
  "set_security opts n st =
     (if ni_security n = 1 then
        (case opt_cert opts of
           None \<Rightarrow> Failed ''the CertConfig is not vail''
         | Some c \<Rightarrow>
             Done (if cc_mode c = ''none'' \<or> cc_mode c = '''' then st
                   else st\<lparr>st_security := ''tls'',
                     st_tls := Some \<lparr>tl_cert_file = cc_cert_file c, tl_key_file = cc_key_file c, tl_ocsp = 3600,
                       tl_reject_sni = cc_reject_sni c\<rparr>\<rparr>))
      else if ni_security n = 2 then
        obind (tls_of n) (\<lambda>ts.
          Done (st\<lparr>st_security := ''reality'',
            st_reality := Some \<lparr>re_dest = reality_target ts, re_xver = xver ts, re_server_names = effective_server_names ts,
              re_private_key = private_key ts, re_short_ids = effective_short_ids ts, re_seed = mldsa65_seed ts\<rparr>\<rparr>))
      else Done st)"

definition make_detour ::
    "('c, 'h) xray_conf \<Rightarrow> string + string \<Rightarrow> node_options \<Rightarrow> node_info \<Rightarrow> string \<Rightarrow> 'c detour outcome" where
  "make_detour xp rnd opts n tag =
     obind (build_protocol xp rnd opts n) (\<lambda>((proto, sets, st), network0).
       obind (need_xray opts) (\<lambda>x.
         let network = (if network0 = '''' then ''tcp'' else network0) in
         obind (set_security opts n (set_proxy_protocol xp x network st)) (\<lambda>st'.
           Done \<lparr>de_protocol = proto, de_settings = sets, de_port = cn_port (ni_common n) mod 2 ^ 32,
             de_listen = opt_listen_ip opts, de_sniffing = (\<not> xo_no_sniffing x), de_stream = st', de_tag = tag\<rparr>)))"

definition build_inbound ::
    "('c, 'h) xray_conf \<Rightarrow> string + string \<Rightarrow> node_options \<Rightarrow> node_info \<Rightarrow> string \<Rightarrow> 'h outcome" where
  "build_inbound xp rnd opts n tag =
     obind (make_detour xp rnd opts n tag) (\<lambda>d. case xp_build xp d of Inl e \<Rightarrow> Failed e | Inr h \<Rightarrow> Done h)"

section \<open>Outbound\<close>

text \<open>A \<^verbatim>\<open>freedom\<close> outbound: tag, source address, domain strategy.\<close>

record out_detour =
  od_tag :: string
  od_send_through :: "string option"
  od_strategy :: string

definition make_outbound :: "node_options \<Rightarrow> string \<Rightarrow> out_detour outcome" where
  "make_outbound opts tag =
     obind (need_xray opts) (\<lambda>x.
       Done \<lparr>od_tag = tag, od_send_through = (if opt_send_ip opts \<noteq> '''' then Some (opt_send_ip opts) else None),
         od_strategy = (if xo_dns x then (if xo_dns_type x \<noteq> '''' then xo_dns_type x else ''UseIP'') else ''AsIs'')\<rparr>)"

section \<open>The DNS file\<close>

definition last_index :: "char \<Rightarrow> string \<Rightarrow> nat option" where
  "last_index c s = (if c \<in> set s then Some (length s - 1 - length (takeWhile (\<lambda>x. x \<noteq> c) (rev s))) else None)"

definition first_index :: "char \<Rightarrow> string \<Rightarrow> nat option" where
  "first_index c s = (if c \<in> set s then Some (length (takeWhile (\<lambda>x. x \<noteq> c) s)) else None)"

text \<open>\<^verbatim>\<open>net.SplitHostPort\<close>; \<open>None\<close> is any of its errors.\<close>

definition split_host_port :: "string \<Rightarrow> (string \<times> string) option" where
  "split_host_port s =
     (case last_index CHR '':'' s of
        None \<Rightarrow> None
      | Some i \<Rightarrow>
          (if s ! 0 = CHR ''['' then
             (case first_index CHR '']'' s of
                None \<Rightarrow> None
              | Some e \<Rightarrow>
                  if e + 1 \<noteq> i then None
                  else if CHR ''['' \<in> set (drop 1 s) \<or> CHR '']'' \<in> set (drop (e + 1) s) then None
                  else Some (drop 1 (take e s), drop (i + 1) s))
           else if CHR '':'' \<in> set (take i s) then None
           else if CHR ''['' \<in> set s \<or> CHR '']'' \<in> set s then None
           else Some (take i s, drop (i + 1) s)))"

text \<open>\<^verbatim>\<open>strconv.ParseUint(port, 10, 16)\<close>\<close>

definition parse_port :: "string \<Rightarrow> int option" where
  "parse_port s = (if s \<noteq> [] \<and> list_all is_digit s \<and> digits_val 0 s < 2 ^ 16 then Some (int (digits_val 0 s)) else None)"

record dns_server =
  ds_address :: string
  ds_port :: "int option"
  ds_domains :: "string list"

text \<open>One entry of the map, an address with its domains.\<close>

definition dns_entry :: "string \<times> string list \<Rightarrow> string + dns_server" where
  "dns_entry v = (case v of (address, domains) \<Rightarrow>
     if CHR '':'' \<in> set address \<and> CHR ''/'' \<notin> set address then
       (case split_host_port address of
          None \<Rightarrow> Inl ''split host port error''
        | Some (host, port) \<Rightarrow>
            (case parse_port port of
               None \<Rightarrow> Inl (''invalid dns server port '' @ port)
             | Some p \<Rightarrow> Inr \<lparr>ds_address = host, ds_port = Some p, ds_domains = domains\<rparr>))
     else Inr \<lparr>ds_address = address, ds_port = None, ds_domains = domains\<rparr>)"

fun dns_entries :: "(string \<times> string list) list \<Rightarrow> string + dns_server list" where
  "dns_entries [] = Inr []"
| "dns_entries (v # vs) =
     (case dns_entry v of
        Inl e \<Rightarrow> Inl e
      | Inr d \<Rightarrow> (case dns_entries vs of Inl e \<Rightarrow> Inl e | Inr ds \<Rightarrow> Inr (d # ds)))"

text \<open>What the file system and Xray answer: the file (\<open>None\<close>: unreadable), whether the text can be
  read as a DNS configuration and built, and what writing leaves behind.\<close>

record dns_files =
  df_unmarshal :: "string \<Rightarrow> string option"
  df_build :: "string \<Rightarrow> string option"
  df_write :: "string \<Rightarrow> string option \<Rightarrow> string option \<times> string option"
  df_indent :: "string \<Rightarrow> string + string"
  df_show :: "dns_server list \<Rightarrow> string"

text \<open>The error is that of reading, of \<^verbatim>\<open>Build\<close>, or of \<^verbatim>\<open>Unmarshal\<close>: the error of writing stays in
  an inner variable.\<close>

definition save_dns_config :: "dns_files \<Rightarrow> string \<Rightarrow> string option \<Rightarrow> string option \<times> string option" where
  "save_dns_config df dns file =
     (case file of
        None \<Rightarrow> (Some ''read dns file error'', file)
      | Some cur \<Rightarrow>
          if cur = dns then (None, file)
          else case df_build df dns of
                 Some e \<Rightarrow> (Some e, file)
               | None \<Rightarrow> (df_unmarshal df dns, snd (df_write df dns file)))"

text \<open>\<open>vs\<close>: the entries in the order of \<^verbatim>\<open>range\<close>. On this branch the error of saving stays in an
  inner variable, too. Two plain servers come first in the file; \<open>df_show\<close> writes them.\<close>

definition update_dns_config ::
    "dns_files \<Rightarrow> string \<Rightarrow> (string \<times> string list) list \<Rightarrow> string option \<Rightarrow> string option \<times> string option" where
  "update_dns_config df dns_text vs file =
     (if dns_text \<noteq> '''' then
        (case df_indent df dns_text of
           Inl e \<Rightarrow> (Some e, file)
         | Inr pretty \<Rightarrow> save_dns_config df pretty file)
      else if vs \<noteq> [] then
        (case dns_entries vs of
           Inl e \<Rightarrow> (Some e, file)
         | Inr ds \<Rightarrow> (None, snd (save_dns_config df (df_show df ds) file)))
      else (None, file))"

section \<open>Socket settings\<close>

definition transport_of :: "node_info \<Rightarrow> string \<times> raw" where
  "transport_of n =
     (let named = (\<lambda>s. if s = '''' then ''tcp'' else s) in
      case ni_proto n of
        VAllss v \<Rightarrow> (named (va_network v), va_net_settings v)
      | Trojan t \<Rightarrow> (named (tr_network t), tr_net_settings t)
      | Shadowsocks s \<Rightarrow> (''tcp'', None))"

definition socket_with :: "xray_options \<Rightarrow> string list \<Rightarrow> socket_config" where
  "socket_with x hs = \<lparr>so_proxy = xo_proxy_protocol x, so_tfo = xo_tfo x, so_trusted = hs\<rparr>"

lemma need_xray_Done: "need_xray opts = Done x \<longleftrightarrow> opt_xray opts = Some x"
  by (simp add: need_xray_def split: option.splits)

lemma trusted_null [simp]: "trusted_headers xp (Some JNull) = None" "trusted_headers xp None = None"
  by (simp_all add: trusted_headers_def struct_fields_def)

lemma apply_socket_none:
  assumes "opt_xray opts = Some x" "st_socket st = None"
  shows "apply_socket_settings xp opts ns st =
    Done (case trusted_headers xp ns of None \<Rightarrow> st | Some hs \<Rightarrow> st\<lparr>st_socket := Some (socket_with x hs)\<rparr>)"
  using assms by (simp add: apply_socket_settings_def need_xray_def socket_with_def split: option.split)

lemma set_transport_frame [simp]:
  "st_socket (set_transport nw t st) = st_socket st" "st_network (set_transport nw t st) = st_network st"
  "st_security (set_transport nw t st) = st_security st" "st_tls (set_transport nw t st) = st_tls st"
  "st_reality (set_transport nw t st) = st_reality st"
  by (simp_all add: set_transport_def)

lemma transport_settings_frame:
  "transport_settings xp network j st = Done st' \<Longrightarrow> \<exists>t. st' = set_transport network t st"
  by (simp add: transport_settings_def del: insert_iff split: if_split_asm option.split_asm) blast

lemma new_stream_fields [simp]:
  "st_socket (new_stream n) = None" "st_network (new_stream n) = n" "st_security (new_stream n) = ''''"
  "st_tls (new_stream n) = None" "st_reality (new_stream n) = None"
  by (simp_all add: new_stream_def)

lemma apply_transport:
  assumes t: "apply_transport_settings xp opts nw ns = Done st" and x: "opt_xray opts = Some x"
  shows "st_socket st = map_option (socket_with x) (trusted_headers xp ns) \<and>
    st_network st = Some (if nw = '''' then ''tcp'' else nw) \<and> st_security st = '''' \<and> st_tls st = None \<and> st_reality st = None"
proof -
  let ?nw = "if nw = '''' then ''tcp'' else nw"
  obtain st0 where "apply_socket_settings xp opts ns st0 = Done st" and
      f: "st_socket st0 = None" "st_network st0 = Some ?nw" "st_security st0 = ''''" "st_tls st0 = None" "st_reality st0 = None"
    using t by (auto simp: apply_transport_settings_def Let_def obind_Done split: option.splits if_splits
        dest!: transport_settings_frame)
  then show ?thesis
    by (auto simp: apply_socket_none [OF x] split: option.splits)
qed

text \<open>What the protocol part leaves of the stream.\<close>

lemma build_protocol_stream:
  assumes b: "build_protocol xp rnd opts n = Done ((proto, sets, st), nw)" and x: "opt_xray opts = Some x"
  shows "proto = ni_type n \<and> (if nw = '''' then ''tcp'' else nw) = fst (transport_of n) \<and>
    st_network st = Some (fst (transport_of n)) \<and>
    st_socket st = map_option (socket_with x) (trusted_headers xp (snd (transport_of n))) \<and>
    st_security st = '''' \<and> st_tls st = None \<and> st_reality st = None"
proof -
  consider (v2ray) v where "ni_proto n = VAllss v" "build_v2ray xp opts (ni_type n) v = Done (proto, sets, st)" "nw = va_network v"
      "ni_type n \<in> {''vmess'', ''vless''}"
    | (trojan) t where "ni_proto n = Trojan t" "build_trojan xp opts t = Done (proto, sets, st)"
      "nw = (if tr_network t \<noteq> '''' then tr_network t else ''tcp'')" "ni_type n = ''trojan''"
    | (ss) s where "ni_proto n = Shadowsocks s" "build_shadowsocks rnd s = Done (proto, sets, st)" "nw = ''tcp''"
      "ni_type n = ''shadowsocks''"
    using b by (auto simp: build_protocol_def obind_Done split: if_splits proto_node.splits)
  then show ?thesis
  proof cases
    case v2ray
    then have "apply_transport_settings xp opts (va_network v) (va_net_settings v) = Done st" "proto = ni_type n"
      by (auto simp: build_v2ray_def obind_Done split: if_splits)
    then show ?thesis using v2ray apply_transport [OF _ x] by (auto simp: transport_of_def Let_def)
  next
    case trojan
    then have "apply_transport_settings xp opts (tr_network t) (tr_net_settings t) = Done st" "proto = ni_type n"
      by (auto simp: build_trojan_def obind_Done)
    then show ?thesis using trojan apply_transport [OF _ x] by (auto simp: transport_of_def Let_def)
  next
    case ss
    then show ?thesis by (auto simp: build_shadowsocks_def transport_of_def Let_def split: sum.splits)
  qed
qed

lemma set_proxy_fields:
  "st_network (set_proxy_protocol xp x nw st) = st_network st"
  "st_security (set_proxy_protocol xp x nw st) = st_security st"
  "st_tls (set_proxy_protocol xp x nw st) = st_tls st"
  "st_reality (set_proxy_protocol xp x nw st) = st_reality st"
  "st_socket (set_proxy_protocol xp x nw st) =
     (if nw = ''tcp'' \<or> nw = ''ws'' then st_socket st else Some (socket_with x []))"
  by (simp_all add: set_proxy_protocol_def Let_def socket_with_def)

lemma set_security_fields:
  assumes "set_security opts n st = Done st'" "st_security st = ''''" "st_tls st = None" "st_reality st = None"
  shows "st_network st' = st_network st \<and> st_socket st' = st_socket st \<and>
    (st_reality st' \<noteq> None \<longleftrightarrow> ni_security n = 2) \<and> (st_security st' = ''reality'' \<longleftrightarrow> ni_security n = 2) \<and>
    (st_security st' = ''tls'' \<longleftrightarrow> ni_security n = 1 \<and> (\<exists>c. opt_cert opts = Some c \<and> cc_mode c \<notin> {'''', ''none''}))"
  using assms by (auto simp: set_security_def obind_Done split: if_splits option.splits)

lemma make_detour_parts:
  assumes d: "make_detour xp rnd opts n tag = Done d" and x: "opt_xray opts = Some x"
  obtains proto sets st nw where "build_protocol xp rnd opts n = Done ((proto, sets, st), nw)"
    "set_security opts n (set_proxy_protocol xp x (if nw = '''' then ''tcp'' else nw) st) = Done (de_stream d)"
    "d = \<lparr>de_protocol = proto, de_settings = sets, de_port = cn_port (ni_common n) mod 2 ^ 32,
       de_listen = opt_listen_ip opts, de_sniffing = (\<not> xo_no_sniffing x), de_stream = de_stream d, de_tag = tag\<rparr>"
  using d x by (auto simp: make_detour_def obind_Done need_xray_Done Let_def)

text \<open>The headers Xray may trust for the client's address reach it only on some transports: on
  \<^verbatim>\<open>tcp\<close> and \<^verbatim>\<open>ws\<close> the list in the panel's socket settings is in the inbound, with the options'
  flags; on every other transport (\<^verbatim>\<open>grpc\<close>, \<^verbatim>\<open>httpupgrade\<close>, \<^verbatim>\<open>xhttp\<close>) it is replaced by new socket
  settings without a list. And on \<^verbatim>\<open>tcp\<close> and \<^verbatim>\<open>ws\<close> without panel settings there are no socket
  settings at all, so \<^verbatim>\<open>EnableTFO\<close> has no effect.\<close>

theorem trusted_headers_reach_tcp_and_ws_only:
  "make_detour xp rnd opts n tag = Done d \<Longrightarrow> opt_xray opts = Some x \<Longrightarrow>
     st_network (de_stream d) = Some (fst (transport_of n)) \<and>
     st_socket (de_stream d) =
       (if fst (transport_of n) \<in> {''tcp'', ''ws''}
        then map_option (socket_with x) (trusted_headers xp (snd (transport_of n)))
        else Some (socket_with x []))"
proof -
  assume d: "make_detour xp rnd opts n tag = Done d" and x: "opt_xray opts = Some x"
  obtain proto sets st nw where p: "build_protocol xp rnd opts n = Done ((proto, sets, st), nw)"
      "set_security opts n (set_proxy_protocol xp x (if nw = '''' then ''tcp'' else nw) st) = Done (de_stream d)"
    by (rule make_detour_parts [OF d x])
  note b = build_protocol_stream [OF p(1) x]
  show ?thesis
    using set_security_fields [OF p(2)] b by (simp add: set_proxy_fields)
qed

definition demo_xp :: "(json, json detour) xray_conf" where
  "demo_xp =
     \<lparr>xp_transport = (\<lambda>nw j. Some \<lparr>tp_body = j, tp_proxy = False\<rparr>), xp_zero = JObj [],
      xp_socket = (\<lambda>j. case struct_fields j of None \<Rightarrow> None
         | Some kvs \<Rightarrow> map_option (\<lambda>r. case r of None \<Rightarrow> [] | Some hs \<Rightarrow> hs) (as_slice as_str (field ''trustedXForwardedFor'' kvs))),
      xp_build = (\<lambda>d. if de_port d = 0 then Inl ''no port'' else Inr d)\<rparr>"

definition demo_upgrade :: node_info where
  "demo_upgrade =
     \<lparr>ni_id = 1, ni_type = ''trojan'', ni_security = 0, ni_push = 60 * second, ni_pull = 60 * second,
      ni_dns = \<lparr>dns_map = [], dns_json = ''''\<rparr>, ni_rules = \<lparr>rl_regexp = [], rl_protocol = []\<rparr>,
      ni_proto = Trojan \<lparr>tr_network = ''httpupgrade'',
        tr_net_settings = Some (JObj [(''socketSettings'', JObj [(''trustedXForwardedFor'', JArr [JStr ''X-Real-IP''])])]),
        tr_net_back = None, tr_tls = 0,
        tr_tls_settings = \<lparr>server_name = '''', server_names = [], tls_dest = '''', tls_port = '''', short_id = '''',
          short_ids = [], private_key = '''', mldsa65_seed = '''', xver = 0\<rparr>, tr_tls_back = None\<rparr>,
      ni_common = \<lparr>cn_host = '''', cn_port = 443, cn_server_name = '''', cn_routes = [], cn_base = None\<rparr>\<rparr>"

text \<open>The panel names a header to trust, and the inbound has none.\<close>

theorem trusted_headers_reach_tcp_and_ws_only_witness:
  "trusted_headers demo_xp (snd (transport_of demo_upgrade)) = Some [''X-Real-IP''] \<and>
   (\<exists>d. make_detour demo_xp (Inl '''') (default_options\<lparr>opt_xray := Some new_xray_options\<rparr>) demo_upgrade ''t'' = Done d \<and>
      st_socket (de_stream d) = Some (socket_with new_xray_options []))"
proof -
  let ?o = "default_options\<lparr>opt_xray := Some new_xray_options\<rparr>"
  have h: "trusted_headers demo_xp (snd (transport_of demo_upgrade)) = Some [''X-Real-IP'']" by code_simp
  have "\<exists>d. make_detour demo_xp (Inl '''') ?o demo_upgrade ''t'' = Done d"
    by (simp add: make_detour_def build_protocol_def demo_upgrade_def build_trojan_def need_xray_def new_xray_options_def
        apply_transport_settings_def transport_settings_def demo_xp_def apply_socket_settings_def Let_def set_security_def
        split: option.split)
  then obtain d where d: "make_detour demo_xp (Inl '''') ?o demo_upgrade ''t'' = Done d" ..
  have "fst (transport_of demo_upgrade) = ''httpupgrade''" by code_simp
  then show ?thesis
    using h d trusted_headers_reach_tcp_and_ws_only [OF d, of new_xray_options] by simp
qed

section \<open>Nodes from the panel\<close>

text \<open>The type of a decoded node is the one of its part, and only two parts have a security.\<close>

lemma decode_node_proto:
  assumes "decode_node num nt body = Inr (p, cm, sec)"
  shows "(nt \<in> {''vmess'', ''vless''} \<and> (\<exists>v. p = VAllss v)) \<or> (nt = ''shadowsocks'' \<and> (\<exists>s. p = Shadowsocks s) \<and> sec = 0)
    \<or> (nt = ''trojan'' \<and> (\<exists>t. p = Trojan t))"
  using assms by (auto simp: decode_node_def Let_def split: if_splits option.splits prod.splits)

lemma fallback_list_calm [simp]: "fallback_list cs \<noteq> Panics"
  by (induction cs) (auto simp: obind_def split: outcome.splits)

lemma calm_parts [simp]:
  "build_vless_fallbacks fcs \<noteq> Panics" "build_trojan_fallbacks fcs \<noteq> Panics" "vless_decryption v \<noteq> Panics"
  "build_shadowsocks rnd s \<noteq> Panics" "transport_settings xp nw j st \<noteq> Panics"
  by (simp_all add: build_vless_fallbacks_def build_trojan_fallbacks_def vless_decryption_def build_shadowsocks_def
      transport_settings_def Let_def split: option.split sum.split)

lemma obind_Panics: "obind r f = Panics \<longleftrightarrow> r = Panics \<or> (\<exists>x. r = Done x \<and> f x = Panics)"
  by (cases r) auto

lemma apply_calm:
  assumes x: "opt_xray opts = Some x"
  shows "apply_transport_settings xp opts nw ns \<noteq> Panics"
proof -
  have s: "apply_socket_settings xp opts ns st \<noteq> Panics" for ns st
    using x by (auto simp: apply_socket_settings_def obind_Panics need_xray_def split: option.splits)
  then show ?thesis by (simp add: apply_transport_settings_def Let_def obind_Panics split: option.split)
qed

lemma need_calm: "opt_xray opts = Some x \<Longrightarrow> need_xray opts = Done x"
  by (simp add: need_xray_def)

lemma build_node_fields:
  "ni_type (build_node c p cm sec) = node_type c" "ni_proto (build_node c p cm sec) = p" "ni_security (build_node c p cm sec) = sec"
  by (simp_all add: build_node_def split: prod.split)

lemma make_detour_calm:
  assumes dec: "decode_node num nt body = Inr (p, cm, sec)" and x: "opt_xray opts = Some x"
    and f: "ni_type n = nt" "ni_proto n = p" "ni_security n = sec"
  shows "make_detour xp rnd opts n tag \<noteq> Panics"
proof -
  have "build_protocol xp rnd opts n \<noteq> Panics"
    using decode_node_proto [OF dec] x
    by (auto simp: build_protocol_def f obind_Panics build_v2ray_def build_trojan_def apply_calm need_calm split: if_splits)
  moreover have "set_security opts n st \<noteq> Panics" for st :: "'c stream"
    using decode_node_proto [OF dec]
    by (auto simp: set_security_def f obind_Panics tls_of_def split: if_splits option.splits)
  ultimately show ?thesis
    by (auto simp: make_detour_def obind_Panics need_calm [OF x] Let_def)
qed

text \<open>C29. Whatever configuration the panel sends, once decoded, \<^verbatim>\<open>buildInbound\<close> with Xray options
  does not dereference a nil pointer; and the inbound it builds has the node's own type, the tag and
  address of this node, REALITY exactly when the panel's \<^verbatim>\<open>tls\<close> is 2, and TLS exactly when it
  is 1 and a certificate mode is set: a node with \<^verbatim>\<open>tls\<close> 1 and mode \<^verbatim>\<open>none\<close> is served in the
  clear.\<close>

theorem panel_nodes_build_or_fail:
  "decode_node num (node_type c) body = Inr (p, cm, sec) \<Longrightarrow> opt_xray opts = Some x \<Longrightarrow>
     n = build_node c p cm sec \<Longrightarrow>
     make_detour xp rnd opts n tag \<noteq> Panics \<and>
     (\<forall>d. make_detour xp rnd opts n tag = Done d \<longrightarrow>
        de_protocol d = node_type c \<and> de_tag d = tag \<and> de_listen d = opt_listen_ip opts \<and>
        (de_sniffing d \<longleftrightarrow> \<not> xo_no_sniffing x) \<and>
        (st_reality (de_stream d) \<noteq> None \<longleftrightarrow> sec = 2) \<and>
        (st_security (de_stream d) = ''tls'' \<longleftrightarrow> sec = 1 \<and> cert_mode opts \<notin> {'''', ''none''}))"
proof -
  assume dec: "decode_node num (node_type c) body = Inr (p, cm, sec)" and x: "opt_xray opts = Some x"
    and n: "n = build_node c p cm sec"
  note f = build_node_fields [of c p cm sec, folded n]
  have "make_detour xp rnd opts n tag \<noteq> Panics"
    by (rule make_detour_calm [OF dec x f])
  moreover have "de_protocol d = node_type c \<and> de_tag d = tag \<and> de_listen d = opt_listen_ip opts \<and>
        (de_sniffing d \<longleftrightarrow> \<not> xo_no_sniffing x) \<and>
        (st_reality (de_stream d) \<noteq> None \<longleftrightarrow> sec = 2) \<and>
        (st_security (de_stream d) = ''tls'' \<longleftrightarrow> sec = 1 \<and> cert_mode opts \<notin> {'''', ''none''})"
    if d: "make_detour xp rnd opts n tag = Done d" for d
  proof -
    obtain proto sets st nw where q: "build_protocol xp rnd opts n = Done ((proto, sets, st), nw)"
      "set_security opts n (set_proxy_protocol xp x (if nw = '''' then ''tcp'' else nw) st) = Done (de_stream d)"
      "d = \<lparr>de_protocol = proto, de_settings = sets, de_port = cn_port (ni_common n) mod 2 ^ 32,
         de_listen = opt_listen_ip opts, de_sniffing = (\<not> xo_no_sniffing x), de_stream = de_stream d, de_tag = tag\<rparr>"
      by (rule make_detour_parts [OF d x])
    have e: "de_protocol d = proto" "de_tag d = tag" "de_listen d = opt_listen_ip opts" "de_sniffing d = (\<not> xo_no_sniffing x)"
      by (subst q(3), simp)+
    show ?thesis
      using set_security_fields [OF q(2)] build_protocol_stream [OF q(1) x]
      by (auto simp: e f set_proxy_fields cert_mode_def split: option.splits)
  qed
  ultimately show ?thesis by blast
qed

definition demo_panel :: client where
  "demo_panel = demo_client\<lparr>node_type := ''vless''\<rparr>"

definition demo_body :: json where
  "demo_body = JObj [(''server_port'', JNum ''443''), (''network'', JNull), (''network_settings'', JNull), (''tls'', JNum ''2''),
     (''tls_settings'', JObj [(''dest'', JStr ''a.b''), (''server_port'', JStr ''8443'')])]"

theorem panel_nodes_build_or_fail_witness:
  "\<exists>d. make_detour demo_xp (Inl '''') (default_options\<lparr>opt_xray := Some new_xray_options\<rparr>)
        (case decode_node (\<lambda>s. 0) ''vless'' (Some demo_body) of Inr (p, cm, sec) \<Rightarrow> build_node demo_panel p cm sec) ''t'' = Done d \<and>
     st_reality (de_stream d) \<noteq> None \<and> de_protocol d = ''vless''"
proof -
  let ?o = "default_options\<lparr>opt_xray := Some new_xray_options\<rparr>"
  let ?r = "decode_node (\<lambda>s. 0) ''vless'' (Some demo_body)"
  let ?m = "make_detour demo_xp (Inl '''') ?o (case ?r of Inr (p, cm, sec) \<Rightarrow> build_node demo_panel p cm sec) ''t''"
  have k: "case ?r of Inl e \<Rightarrow> False | Inr (p, cm, sec) \<Rightarrow> sec = 2" by code_simp
  then obtain p cm where r: "?r = Inr (p, cm, 2)"
    by (cases ?r) auto
  have "case ?m of Done d \<Rightarrow> True | Failed e \<Rightarrow> False | Panics \<Rightarrow> False" by code_simp
  then obtain d where d: "?m = Done d" by (cases ?m) auto
  have o: "opt_xray ?o = Some new_xray_options" by simp
  have nt: "decode_node (\<lambda>s. 0) (node_type demo_panel) (Some demo_body) = Inr (p, cm, 2)"
    using r by (simp add: demo_panel_def)
  show ?thesis
    using panel_nodes_build_or_fail [OF nt o refl, of demo_xp "Inl ''''" "''t''"] d r by (auto simp: demo_panel_def)
qed

section \<open>DNS\<close>

lemma takeWhile_until: "c \<notin> set a \<Longrightarrow> takeWhile (\<lambda>x. x \<noteq> c) (a @ c # b) = a"
  by (induction a) auto

lemma first_index_append: "c \<notin> set a \<Longrightarrow> first_index c (a @ c # b) = Some (length a)"
  by (simp add: first_index_def takeWhile_until)

lemma last_index_append: "c \<notin> set b \<Longrightarrow> last_index c (a @ c # b) = Some (length a)"
  by (simp add: last_index_def takeWhile_until)

text \<open>A host and a port that are joined are split again, with brackets around an IPv6 address; a bare
  IPv6 address is refused, and with it the node.\<close>

lemma split_joined:
  assumes "set h \<inter> set '':[]'' = {}" "set p \<inter> set '':[]'' = {}"
  shows "split_host_port (h @ '':'' @ p) = Some (h, p)"
  using assms last_index_append [of "CHR '':''" p h] by (cases h) (auto simp: split_host_port_def)

lemma split_joined_v6:
  assumes h: "set h \<inter> set ''[]'' = {}" and p: "set p \<inter> set '':[]'' = {}"
  shows "split_host_port (''['' @ h @ '']:'' @ p) = Some (h, p)"
proof -
  have "last_index CHR '':'' (''['' @ h @ '']:'' @ p) = Some (length h + 2)"
    using last_index_append [of "CHR '':''" p "''['' @ h @ '']''"] p by simp
  moreover have "first_index CHR '']'' (''['' @ h @ '']:'' @ p) = Some (length h + 1)"
    using first_index_append [of "CHR '']''" "''['' @ h" "'':'' @ p"] h by simp
  ultimately show ?thesis
    using h p by (auto simp: split_host_port_def)
qed

lemma bare_v6_refused:
  "CHR '':'' \<in> set a \<Longrightarrow> CHR '':'' \<notin> set b \<Longrightarrow> hd a \<noteq> CHR ''['' \<Longrightarrow> split_host_port (a @ '':'' @ b) = None"
  using last_index_append [of "CHR '':''" b a] by (cases a) (auto simp: split_host_port_def)

text \<open>With the DNS map, no failure to save is reported; with the text, no failure to write is: after
  either, \<^verbatim>\<open>AddNode\<close> goes on with the old file.\<close>

lemma dns_save_errors_lost:
  "vs \<noteq> [] \<Longrightarrow> dns_entries vs = Inr ds \<Longrightarrow> fst (update_dns_config df '''' vs file) = None"
  "t \<noteq> '''' \<Longrightarrow> df_indent df t = Inr pretty \<Longrightarrow> df_build df pretty = None \<Longrightarrow> df_unmarshal df pretty = None \<Longrightarrow>
     fst (update_dns_config df t vs (Some cur)) = None"
  "t \<noteq> '''' \<Longrightarrow> df_indent df t = Inr pretty \<Longrightarrow> fst (update_dns_config df t vs None) \<noteq> None"
  by (simp_all add: update_dns_config_def save_dns_config_def)

section \<open>What \<^verbatim>\<open>AddNode\<close> builds\<close>

text \<open>\<^verbatim>\<open>addInbound\<close> and \<^verbatim>\<open>addOutbound\<close>: what Xray makes of a configuration (an error, an object that is no
  handler, or a handler, with the answer of the handler manager). The second message names the
  inbound, too; the error in it is nil.\<close>

datatype created = NotCreated string | OtherObject | Handler "string option"

definition add_inbound :: "created \<Rightarrow> string option" where
  "add_inbound raw =
     (case raw of NotCreated e \<Rightarrow> Some e | OtherObject \<Rightarrow> Some ''not an InboundHandler: %!s(<nil>)'' | Handler e \<Rightarrow> e)"

definition add_outbound :: "created \<Rightarrow> string option" where
  "add_outbound raw =
     (case raw of NotCreated e \<Rightarrow> Some e | OtherObject \<Rightarrow> Some ''not an InboundHandler: %!s(<nil>)'' | Handler e \<Rightarrow> e)"

text \<open>The parts of a node as \<open>add_node\<close> takes them: \<open>dns\<close> is the error of \<^verbatim>\<open>updateDNSConfig\<close>,
  \<open>new_in\<close> and \<open>new_out\<close> what Xray makes of the configurations, \<open>out_err\<close> the error of the
  outbound's \<^verbatim>\<open>Build\<close>.\<close>

definition node_builds ::
    "('c, 'u handler) xray_conf \<Rightarrow> string + string \<Rightarrow> string option \<Rightarrow> ('u handler \<Rightarrow> created) \<Rightarrow>
     (out_detour \<Rightarrow> string option) \<Rightarrow> (out_detour \<Rightarrow> created) \<Rightarrow>
     string \<Rightarrow> node_info \<Rightarrow> node_options \<Rightarrow> 'u node_build outcome" where
  "node_builds xp rnd dns new_in out_err new_out tag n opts =
     obind (case build_inbound xp rnd opts n tag of Panics \<Rightarrow> Panics | Failed e \<Rightarrow> Done (Inl e) | Done h \<Rightarrow> Done (Inr h)) (\<lambda>ib.
       obind (case ib of Inl e \<Rightarrow> Done (None, None) | Inr h \<Rightarrow> obind (make_outbound opts tag) (\<lambda>od. Done (out_err od, add_outbound (new_out od)))) (\<lambda>(oe, ao).
         Done \<lparr>nb_dns = dns, nb_inbound = ib, nb_add_in = (case ib of Inl e \<Rightarrow> None | Inr h \<Rightarrow> add_inbound (new_in h)),
           nb_outbound = oe, nb_add_out = ao\<rparr>))"

lemma build_inbound_calm:
  assumes "decode_node num (node_type c) body = Inr (p, cm, sec)" "opt_xray opts = Some x"
  shows "build_inbound xp rnd opts (build_node c p cm sec) tag \<noteq> Panics"
  using make_detour_calm [OF assms build_node_fields, of xp rnd _ tag]
  by (auto simp: build_inbound_def obind_Panics split: sum.splits)

lemma panel_nodes_reach_add_node:
  assumes "decode_node num (node_type c) body = Inr (p, cm, sec)" "opt_xray opts = Some x"
  shows "\<exists>b. node_builds xp rnd dns new_in out_err new_out tag (build_node c p cm sec) opts = Done b"
  using build_inbound_calm [OF assms, of xp rnd tag] assms(2)
  by (auto simp: node_builds_def make_outbound_def need_calm split: outcome.split sum.split)

end
