(* ===== verification/Selector.thy ===== *)
theory Selector
  imports ControllerSync
begin

text \<open>
  Several cores behind one interface, \<^verbatim>\<open>core/core.go\<close> and \<^verbatim>\<open>core/selector.go\<close>: which core a node
  is given to, and the calls passed on to it. The operations of the cores are fixed; the selector's
  state is theirs and the table of nodes. Where Go ranges over its map of cores, the order is an
  argument. \<open>core_family\<close> shows that a selector of cores that keep the contract of \<open>total_core\<close>
  keeps it too, so what is proved of a controller and a core holds behind a selector.
\<close>

section \<open>Making cores\<close>

type_synonym 's core_maker = "core_config \<Rightarrow> string + 's core_ops \<times> 's"

definition register_core :: "string \<Rightarrow> 's core_maker \<Rightarrow> (string, 's core_maker) gomap \<Rightarrow> (string, 's core_maker) gomap" where
  "register_core t f reg = mput t f reg"

fun make_cores ::
    "(string, 's core_maker) gomap \<Rightarrow> core_config list \<Rightarrow> (string, 's core_ops \<times> 's) gomap \<Rightarrow> string + (string, 's core_ops \<times> 's) gomap" where
  "make_cores reg [] cs = Inr cs"
| "make_cores reg (t # ts) cs =
     (case map_of reg (lower (kc_type t)) of
        None \<Rightarrow> Inl (''unknown core type: '' @ kc_type t)
      | Some f \<Rightarrow>
          (case f t of
             Inl e \<Rightarrow> Inl e
           | Inr c \<Rightarrow> make_cores reg ts (mput (if kc_name t = '''' then kc_type t else kc_name t) c cs)))"

definition new_selector :: "(string, 's core_maker) gomap \<Rightarrow> core_config list \<Rightarrow> string + (string, 's core_ops \<times> 's) gomap" where
  "new_selector reg ts = make_cores reg ts []"

datatype 's made_core = One "'s core_ops" 's | Many "(string, 's core_ops \<times> 's) gomap"

definition new_core :: "(string, 's core_maker) gomap \<Rightarrow> core_config list \<Rightarrow> string + 's made_core" where
  "new_core reg ts =
     (case ts of
        [] \<Rightarrow> Inl ''no have vail core''
      | [t] \<Rightarrow>
          (case map_of reg (kc_type t) of
             None \<Rightarrow> Inl ''unknown core type''
           | Some f \<Rightarrow> (case f t of Inl e \<Rightarrow> Inl e | Inr (c, s) \<Rightarrow> Inr (One c s)))
      | _ \<Rightarrow> (case new_selector reg ts of Inl e \<Rightarrow> Inl e | Inr cs \<Rightarrow> Inr (Many cs)))"

section \<open>The selector\<close>

record 's selector =
  sel_states :: "string \<Rightarrow> 's" \<comment> \<open>by the name of the core\<close>
  sel_nodes :: "(string, string) gomap" \<comment> \<open>from tag to the name of the core\<close>

type_synonym 's cores = "(string, 's core_ops) gomap"

definition put_state :: "string \<Rightarrow> 's \<Rightarrow> 's selector \<Rightarrow> 's selector" where
  "put_state k st s = s\<lparr>sel_states := (sel_states s)(k := st)\<rparr>"

text \<open>\<^verbatim>\<open>Start\<close> stops at the first error; \<^verbatim>\<open>Close\<close> closes all and joins the errors. \<open>f\<close> is the method
  of the cores.\<close>

fun sel_start :: "(string \<Rightarrow> 's \<Rightarrow> string option \<times> 's) \<Rightarrow> string list \<Rightarrow> 's selector \<Rightarrow> string option \<times> 's selector" where
  "sel_start f [] s = (None, s)"
| "sel_start f (k # ks) s =
     (case f k (sel_states s k) of
        (Some e, st) \<Rightarrow> (Some e, put_state k st s)
      | (None, st) \<Rightarrow> sel_start f ks (put_state k st s))"

fun sel_close :: "(string \<Rightarrow> 's \<Rightarrow> string option \<times> 's) \<Rightarrow> string list \<Rightarrow> 's selector \<Rightarrow> string list \<times> 's selector" where
  "sel_close f [] s = ([], s)"
| "sel_close f (k # ks) s =
     (case f k (sel_states s k) of (e, st) \<Rightarrow>
        (case sel_close f ks (put_state k st s) of (es, s') \<Rightarrow> ((case e of None \<Rightarrow> es | Some x \<Rightarrow> x # es), s')))"

fun is_supported :: "string \<Rightarrow> string list \<Rightarrow> bool" where
  "is_supported p [] = False"
| "is_supported p (q # qs) = (if p = q then True else is_supported p qs)"

definition suits :: "string \<Rightarrow> node_options \<Rightarrow> 's core_ops \<Rightarrow> bool" where
  "suits type opts c = (if opt_core opts = '''' then is_supported type (co_protocols c) else opt_core opts = co_type c)"

text \<open>The loop over the cores has no \<^verbatim>\<open>break\<close>: the last suitable one is taken.\<close>

fun pick_core :: "string \<Rightarrow> node_options \<Rightarrow> 's cores \<Rightarrow> string list \<Rightarrow> string option \<Rightarrow> string option" where
  "pick_core type opts cores [] cur = cur"
| "pick_core type opts cores (k # ks) cur =
     pick_core type opts cores ks
       (case map_of cores k of None \<Rightarrow> cur | Some c \<Rightarrow> if suits type opts c then Some k else cur)"

definition find_core :: "string list \<Rightarrow> string \<Rightarrow> node_options \<Rightarrow> 's cores \<Rightarrow> string option" where
  "find_core order type opts cores =
     (if opt_core_name opts \<noteq> '''' then (if mhas cores (opt_core_name opts) then Some (opt_core_name opts) else None)
      else pick_core type opts cores order None)"

text \<open>The options are changed through their pointer: the type of the core is set even when the raw
  options cannot be read.\<close>

definition sel_add_node ::
    "'s cores \<Rightarrow> string list \<Rightarrow> string \<Rightarrow> node_info \<Rightarrow> node_options \<Rightarrow> 's selector
     \<Rightarrow> string option \<times> node_options \<times> 's selector" where
  "sel_add_node cores order tg n opts s =
     (case find_core order (ni_type n) opts cores of
        None \<Rightarrow> (Some ''the node type is not support'', opts, s)
      | Some k \<Rightarrow>
          (case map_of cores k of
             None \<Rightarrow> (Some ''the node type is not support'', opts, s)
           | Some c \<Rightarrow>
               (case (if opt_core opts = '''' then complete_options (co_type c) opts else Some opts) of
                  None \<Rightarrow> (Some ''unmarshal option error'', opts\<lparr>opt_core := co_type c\<rparr>, s)
                | Some opts' \<Rightarrow>
                    (case co_add_node c tg n opts' (sel_states s k) of
                       (Some e, st) \<Rightarrow> (Some e, opts', put_state k st s)
                     | (None, st) \<Rightarrow> (None, opts', (put_state k st s)\<lparr>sel_nodes := mput tg k (sel_nodes s)\<rparr>)))))"

definition node_core :: "'s cores \<Rightarrow> string \<Rightarrow> 's selector \<Rightarrow> (string \<times> 's core_ops) option" where
  "node_core cores tg s =
     (case map_of (sel_nodes s) tg of None \<Rightarrow> None | Some k \<Rightarrow> map_option (Pair k) (map_of cores k))"

definition sel_del_node :: "'s cores \<Rightarrow> string \<Rightarrow> 's selector \<Rightarrow> string option \<times> 's selector" where
  "sel_del_node cores tg s =
     (case node_core cores tg s of
        None \<Rightarrow> (Some ''the node is not have'', s)
      | Some (k, c) \<Rightarrow>
          (case co_del_node c tg (sel_states s k) of
             (Some e, st) \<Rightarrow> (Some e, put_state k st s)
           | (None, st) \<Rightarrow> (None, (put_state k st s)\<lparr>sel_nodes := mdel tg (sel_nodes s)\<rparr>)))"

definition sel_add_users ::
    "'s cores \<Rightarrow> string \<Rightarrow> user_info list \<Rightarrow> node_info \<Rightarrow> 's selector \<Rightarrow> int \<times> string option \<times> 's selector" where
  "sel_add_users cores tg us n s =
     (case node_core cores tg s of
        None \<Rightarrow> (0, Some ''the node is not have'', s)
      | Some (k, c) \<Rightarrow> (case co_add_users c tg us n (sel_states s k) of (i, e, st) \<Rightarrow> (i, e, put_state k st s)))"

definition sel_traffic :: "'s cores \<Rightarrow> string \<Rightarrow> bool \<Rightarrow> 's selector \<Rightarrow> (string + user_traffic list) \<times> 's selector" where
  "sel_traffic cores tg reset s =
     (case node_core cores tg s of
        None \<Rightarrow> (Inl ''the node is not have'', s)
      | Some (k, c) \<Rightarrow> (case co_traffic c tg reset (sel_states s k) of (rows, st) \<Rightarrow> (Inr rows, put_state k st s)))"

definition sel_del_users ::
    "'s cores \<Rightarrow> user_info list \<Rightarrow> string \<Rightarrow> node_info \<Rightarrow> 's selector \<Rightarrow> string option \<times> 's selector" where
  "sel_del_users cores us tg n s =
     (case node_core cores tg s of
        None \<Rightarrow> (Some ''the node is not have'', s)
      | Some (k, c) \<Rightarrow> (case co_del_users c us tg n (sel_states s k) of (e, st) \<Rightarrow> (e, put_state k st s)))"

definition sel_protocols :: "'s cores \<Rightarrow> string list \<Rightarrow> string list" where
  "sel_protocols cores order = concat (map (\<lambda>k. case map_of cores k of None \<Rightarrow> [] | Some c \<Rightarrow> co_protocols c) order)"

definition sel_type :: "'s cores \<Rightarrow> string list \<Rightarrow> string" where
  "sel_type cores order =
     ''Selector('' @ join_with '' '' (map (\<lambda>k. if k = '''' then (case map_of cores k of None \<Rightarrow> '''' | Some c \<Rightarrow> co_type c) else k) order)
     @ '')''"

text \<open>As a core. The controller's only use of the traffic error is to ignore it.\<close>

definition selector_core :: "'s cores \<Rightarrow> (string \<Rightarrow> string list) \<Rightarrow> 's selector core_ops" where
  "selector_core cores order =
     \<lparr>co_type = sel_type cores (order ''type''), co_protocols = sel_protocols cores (order ''protocols''),
      co_add_node = (\<lambda>tg n opts s. case sel_add_node cores (order tg) tg n opts s of (e, _, s') \<Rightarrow> (e, s')),
      co_del_node = sel_del_node cores,
      co_add_users = sel_add_users cores,
      co_del_users = sel_del_users cores,
      co_traffic = (\<lambda>tg reset s. case sel_traffic cores tg reset s of (r, s') \<Rightarrow> ((case r of Inl e \<Rightarrow> [] | Inr rows \<Rightarrow> rows), s'))\<rparr>"

section \<open>The choice\<close>

lemma is_supported_iff [simp]: "is_supported p qs \<longleftrightarrow> p \<in> set qs"
  by (induction qs) auto

lemma pick_core_Some:
  "pick_core type opts cores ks cur = Some k \<Longrightarrow>
     cur = Some k \<or> (k \<in> set ks \<and> (\<exists>c. map_of cores k = Some c \<and> suits type opts c))"
  by (induction ks arbitrary: cur) (auto split: option.splits if_splits)

lemma pick_core_found:
  "k \<in> set ks \<Longrightarrow> map_of cores k = Some c \<Longrightarrow> suits type opts c \<Longrightarrow> pick_core type opts cores ks cur \<noteq> None"
proof (induction ks arbitrary: cur)
  case (Cons a ks)
  have "pick_core type opts cores ks cur' \<noteq> None" if "cur' \<noteq> None" for cur'
    using that by (induction ks arbitrary: cur') (auto split: option.splits)
  then show ?case using Cons by (cases "a = k") auto
qed simp

text \<open>A node without a named core goes to one that speaks its protocol, if there is one.\<close>

lemma find_core_by_protocol:
  assumes "opt_core_name opts = ''''" "opt_core opts = ''''" "set order = dom (map_of cores)"
  shows "(\<exists>k c. find_core order type opts cores = Some k \<and> map_of cores k = Some c \<and> type \<in> set (co_protocols c))
    \<or> (find_core order type opts cores = None \<and> (\<forall>k c. map_of cores k = Some c \<longrightarrow> type \<notin> set (co_protocols c)))"
proof (cases "find_core order type opts cores")
  case None
  have "type \<notin> set (co_protocols c)" if "map_of cores k = Some c" for k c
    using pick_core_found [of k order cores c type opts None] None that assms by (auto simp: find_core_def suits_def)
  then show ?thesis using None by blast
next
  case (Some k)
  then show ?thesis
    using pick_core_Some [of type opts cores order None k] assms by (auto simp: find_core_def suits_def)
qed

section \<open>The contract passes through\<close>

definition sel_serves :: "'s cores \<Rightarrow> (string \<Rightarrow> 's \<Rightarrow> string set option) \<Rightarrow> string \<Rightarrow> 's selector \<Rightarrow> string set option" where
  "sel_serves cores serves tg s =
     (case node_core cores tg s of None \<Rightarrow> None | Some (k, c) \<Rightarrow> serves tg (sel_states s k))"

lemma node_core_put [simp]: "node_core cores tg (put_state k st s) = node_core cores tg s"
  by (simp add: node_core_def put_state_def)

lemma states_put [simp]: "sel_states (put_state k st s) = (sel_states s)(k := st)"
  by (simp add: put_state_def)

locale core_family =
  fixes cores :: "'s cores" and serves :: "string \<Rightarrow> 's \<Rightarrow> string set option"
    and account_ok :: "string \<Rightarrow> node_info \<Rightarrow> user_info \<Rightarrow> bool"
  assumes member: "map_of cores k = Some c \<Longrightarrow> total_core c serves account_ok"
begin

lemma node_member: "node_core cores tg s = Some (k, c) \<Longrightarrow> total_core c serves account_ok"
  by (auto simp: node_core_def split: option.splits intro: member)

lemma node_user_core: "node_core cores tg s = Some (k, c) \<Longrightarrow> user_core c serves"
  using node_member total_core.axioms(1) by blast

lemma selector_user_core: "user_core (selector_core cores order) (sel_serves cores serves)"
proof
  fix tg us n s k s'
  assume "co_add_users (selector_core cores order) tg us n s = (k, None, s')"
  then show "\<exists>es. sel_serves cores serves tg s = Some es \<and> sel_serves cores serves tg s' = Some (es \<union> user_tag tg ` Uuid ` set us)"
    by (auto simp: selector_core_def sel_add_users_def sel_serves_def split: option.splits prod.splits
        dest: user_core.add_serves [OF node_user_core])
next
  fix us tg n s s'
  assume "co_del_users (selector_core cores order) us tg n s = (None, s')"
  then show "\<exists>es. sel_serves cores serves tg s = Some es \<and> sel_serves cores serves tg s' = Some (es - user_tag tg ` Uuid ` set us)"
    by (auto simp: selector_core_def sel_del_users_def sel_serves_def split: option.splits prod.splits
        dest: user_core.del_serves [OF node_user_core])
next
  fix u :: user_info and us tg s es n
  assume u: "u \<in> set us" "sel_serves cores serves tg s = Some es" "user_tag tg (Uuid u) \<notin> es"
  then obtain k c where nc: "node_core cores tg s = Some (k, c)" "serves tg (sel_states s k) = Some es"
    by (auto simp: sel_serves_def split: option.splits)
  then show "\<exists>err s'. co_del_users (selector_core cores order) us tg n s = (Some err, s')"
    using user_core.del_absent [OF node_user_core [OF nc(1)] u(1) nc(2) u(3), of n]
    by (auto simp: selector_core_def sel_del_users_def)
next
  fix us tg n s err s' es
  assume d: "co_del_users (selector_core cores order) us tg n s = (err, s')" "sel_serves cores serves tg s = Some es"
  then obtain k c where nc: "node_core cores tg s = Some (k, c)" "serves tg (sel_states s k) = Some es"
    by (auto simp: sel_serves_def split: option.splits)
  then show "\<exists>es'. sel_serves cores serves tg s' = Some es' \<and> es' \<subseteq> es"
    using d(1) user_core.del_shrinks [OF node_user_core [OF nc(1)], of us tg n "sel_states s k"]
    by (auto simp: selector_core_def sel_del_users_def sel_serves_def split: prod.splits)
next
  fix t reset s rows s' tg
  assume "co_traffic (selector_core cores order) t reset s = (rows, s')"
  then show "sel_serves cores serves tg s' = sel_serves cores serves tg s"
    by (auto simp: selector_core_def sel_traffic_def sel_serves_def split: option.splits prod.splits
        dest: user_core.traffic_serves [OF node_user_core])
qed

lemma selector_total_core: "total_core (selector_core cores order) (sel_serves cores serves) account_ok"
proof (intro total_core.intro total_core_axioms.intro)
  show "user_core (selector_core cores order) (sel_serves cores serves)" by (rule selector_user_core)
next
  fix tg s es n and us :: "user_info list"
  assume a: "sel_serves cores serves tg s = Some es" "distinct (map Uuid us)" "user_tag tg ` Uuid ` set us \<subseteq> es"
  then obtain k c where nc: "node_core cores tg s = Some (k, c)" "serves tg (sel_states s k) = Some es"
    by (auto simp: sel_serves_def split: option.splits)
  show "\<exists>s'. co_del_users (selector_core cores order) us tg n s = (None, s')"
    using total_core.del_total [OF node_member [OF nc(1)] nc(2) a(2,3), of n] nc(1)
    by (auto simp: selector_core_def sel_del_users_def)
next
  fix tg s es n and us :: "user_info list"
  assume a: "sel_serves cores serves tg s = Some es" "us \<noteq> []" "distinct (map Uuid us)"
    "user_tag tg ` Uuid ` set us \<inter> es = {}" "list_all (account_ok tg n) us"
  then obtain k c where nc: "node_core cores tg s = Some (k, c)" "serves tg (sel_states s k) = Some es"
    by (auto simp: sel_serves_def split: option.splits)
  show "\<exists>i s'. co_add_users (selector_core cores order) tg us n s = (i, None, s')"
    using total_core.add_total [OF node_member [OF nc(1)] nc(2) a(2-5)] nc(1)
    by (auto simp: selector_core_def sel_add_users_def)
qed

end

sublocale core_family \<subseteq> sel: total_core "selector_core cores order" "sel_serves cores serves" account_ok for order
  by (rule selector_total_core)

section \<open>A controller behind a selector of Xray cores\<close>

definition all_xray :: "('m, 'u) user_ops \<Rightarrow> 'u xray cores \<Rightarrow> bool" where
  "all_xray ops cores \<longleftrightarrow> (\<forall>k c. map_of cores k = Some c \<longrightarrow> (\<exists>build removal. c = xray_core ops build removal))"

context complete_manager
begin

lemma xray_family: "all_xray ops cores \<Longrightarrow> core_family cores (xray_serves emails) (xray_account_ok ops)"
  by (rule core_family.intro) (auto simp: all_xray_def intro: xray_total_core)

end

lemma all_xray_duo: "all_xray ops [(''a'', xray_core ops b1 r1), (''b'', xray_core ops b2 r2)]"
  by (auto simp: all_xray_def split: if_splits)

interpretation duo: core_family "[(''a'', xray_core set_ops b1 r1), (''b'', xray_core set_ops b2 r2)]"
    "xray_serves set" "xray_account_ok set_ops" for b1 r1 b2 r2
  by (rule lm.xray_family [OF all_xray_duo])

text \<open>C8. A controller that talks to several Xray cores through the selector agrees with them as it does
  with one core: in every run of rounds with an unchanged configuration, users added by push, device
  tables, connections, kicks and reports, the users served by the core the node was given to are
  those of the controller's list and of its limiter, whichever core that is and in whatever order
  Go ranges over the cores; and every round that brings a new list makes it the list of all.\<close>

theorem users_in_sync_behind_selector:
  "complete_manager ops emails \<Longrightarrow> all_xray ops cores \<Longrightarrow> env_core env = selector_core cores order \<Longrightarrow>
     in_sync (sel_serves cores (xray_serves emails)) c \<Longrightarrow> (ctl_step (xray_account_ok ops) env)\<^sup>*\<^sup>* c c' \<Longrightarrow>
     in_sync (sel_serves cores (xray_serves emails)) c' \<and>
     (\<forall>r n us. quiet r \<longrightarrow> info c' = Some n \<longrightarrow> round_list env r c' = Some us \<longrightarrow> list_ok (xray_account_ok ops) us c' \<longrightarrow>
        user_list (node_info_monitor env r c') = us)"
proof -
  assume m: "complete_manager ops emails" and x: "all_xray ops cores" and e: "env_core env = selector_core cores order"
    and sy: "in_sync (sel_serves cores (xray_serves emails)) c" and run: "(ctl_step (xray_account_ok ops) env)\<^sup>*\<^sup>* c c'"
  note core = core_family.selector_total_core [OF complete_manager.xray_family [OF m x], of order]
  show ?thesis
    using total_core.runs_in_sync [OF core e sy run] total_core.round_takes [OF core _ e] by blast
qed

definition idle_build :: "string \<Rightarrow> node_info \<Rightarrow> node_options \<Rightarrow> string list xray \<Rightarrow> string list node_build" where
  "idle_build t n opts x = \<lparr>nb_dns = None, nb_inbound = Inr (Inbound []), nb_add_in = None, nb_outbound = None, nb_add_out = None\<rparr>"

definition duo_cores :: "string list xray cores" where
  "duo_cores = [(''a'', xray_core set_ops idle_build (\<lambda>t x. (None, None))), (''b'', xray_core set_ops idle_build (\<lambda>t x. (None, None)))]"

definition duo_env :: "(string, string list xray selector) ctl_env" where
  "duo_env = \<lparr>env_core = selector_core duo_cores (\<lambda>t. [''b'', ''a'']), env_options = env_options demo_env,
     env_parse = env_parse demo_env, env_show = env_show demo_env, env_show_users = env_show_users demo_env,
     env_sha_body = env_sha_body demo_env, env_sha = env_sha demo_env, env_num = env_num demo_env,
     env_re_ok = env_re_ok demo_env, env_cert = env_cert demo_env\<rparr>"

definition duo_ctl :: "string list xray selector controller" where
  "duo_ctl = (new_controller \<lparr>sel_states = (\<lambda>k. server demo_ctl), sel_nodes = [(''t'', ''a'')]\<rparr> demo_client
       \<lparr>lim_heap = [new_limiter ''t'' 0 [user_a] []], lim_table = [(''t'', 0)]\<rparr>)
     \<lparr>tag := ''t'', the_limiter := Some 0, user_list := [user_a], info := Some demo_node\<rparr>"

lemma duo_in_sync: "in_sync (sel_serves duo_cores (xray_serves set)) duo_ctl"
proof -
  have "cur_limiter duo_ctl = cur_limiter demo_ctl" "has_limiter duo_ctl"
    by (simp_all add: duo_ctl_def demo_ctl_def cur_limiter_def limiter_at_def has_limiter_def new_controller_def)
  moreover have "user_list duo_ctl = user_list demo_ctl" "tag duo_ctl = tag demo_ctl"
    "sel_serves duo_cores (xray_serves set) ''t'' (server duo_ctl) = xray_serves set ''t'' (server demo_ctl)"
    by (simp_all add: duo_ctl_def demo_ctl_def new_controller_def sel_serves_def node_core_def duo_cores_def)
  moreover have "tag demo_ctl = ''t''" by (simp add: demo_ctl_def)
  ultimately show ?thesis using demo_in_sync by (simp add: in_sync_def)
qed

theorem users_in_sync_behind_selector_witness:
  "user_list (node_info_monitor duo_env (list_round [user_a, user_b]) duo_ctl) = [user_a, user_b]"
proof -
  let ?r = "list_round [user_a, user_b]" and ?ok = "xray_account_ok set_ops"
  have x: "all_xray set_ops duo_cores" unfolding duo_cores_def by (rule all_xray_duo)
  have core: "env_core duo_env = selector_core duo_cores (\<lambda>t. [''b'', ''a''])" by (simp add: duo_env_def)
  have q: "quiet ?r" by (simp add: quiet_def list_round_def unchanged_def)
  have i: "info duo_ctl = Some demo_node" by (simp add: duo_ctl_def)
  have l: "round_list duo_env ?r duo_ctl = Some [user_a, user_b]" by code_simp
  have ok: "list_ok ?ok [user_a, user_b] duo_ctl" by code_simp
  show ?thesis
    using users_in_sync_behind_selector [OF demo_complete x core duo_in_sync rtranclp.rtrancl_refl] q i l ok by blast
qed

end
