(* ===== verification/Nodes.thy ===== *)
theory Nodes
  imports ControllerSync
begin

text \<open>
  The nodes of the process, \<^verbatim>\<open>node/node.go\<close>: one controller for each node of the configuration, all
  on one core and one table of limiters, which go from controller to controller. A controller that
  was not made is \<open>None\<close> (a nil pointer).
\<close>

section \<open>Controllers on a shared core\<close>

record 's nodes =
  nd_controllers :: "'s controller option list"
  nd_core :: 's
  nd_limiters :: limiters

text \<open>A controller sees the core and the limiters as they are now, and leaves them to the others.\<close>

definition enter_shared :: "'s \<Rightarrow> limiters \<Rightarrow> 's controller \<Rightarrow> 's controller" where
  "enter_shared s ls c = c\<lparr>server := s, all_limiters := ls\<rparr>"

text \<open>The message of a failed start names the node type, which \<^verbatim>\<open>panel.New\<close> has replaced in the
  configuration.\<close>

definition start_message :: "node_config \<Rightarrow> client \<Rightarrow> string \<Rightarrow> string" where
  "start_message nc a e =
     ''start node controller ['' @ ac_host (nc_api nc) @ ''-'' @ node_type a @ ''-'' @ itoa (ac_node_id (nc_api nc)) @ ''] error: '' @ e"

text \<open>\<^verbatim>\<open>Start\<close>: stops at the first error; what was started before stays. \<open>envs\<close> and \<open>reps\<close> are by position.\<close>

fun start_nodes ::
    "(nat \<Rightarrow> ('b, 's) ctl_env) \<Rightarrow> (nat \<Rightarrow> 'b replies \<times> json option reply) \<Rightarrow> nat \<Rightarrow> node_config list
     \<Rightarrow> 's nodes \<Rightarrow> string option \<times> 's nodes" where
  "start_nodes envs reps i [] n = (None, n)"
| "start_nodes envs reps i (nc # ncs) n =
     (case new_client (nc_api nc) of
        Inl e \<Rightarrow> (Some e, n)
      | Inr a \<Rightarrow>
          (case start_controller ((envs i)\<lparr>env_options := nc_options nc\<rparr>) (fst (reps i)) (snd (reps i))
                  (new_controller (nd_core n) a (nd_limiters n)) of
             (e, c) \<Rightarrow>
               (let n' = \<lparr>nd_controllers = (nd_controllers n)[i := Some c], nd_core = server c, nd_limiters = all_limiters c\<rparr>
                in (case e of
                      Some x \<Rightarrow> (Some (start_message nc a x), n')
                    | None \<Rightarrow> start_nodes envs reps (i + 1) ncs n'))))"

definition start_all ::
    "(nat \<Rightarrow> ('b, 's) ctl_env) \<Rightarrow> (nat \<Rightarrow> 'b replies \<times> json option reply) \<Rightarrow> node_config list \<Rightarrow> 's \<Rightarrow> limiters
     \<Rightarrow> string option \<times> 's nodes" where
  "start_all envs reps ncs s ls =
     start_nodes envs reps 0 ncs \<lparr>nd_controllers = replicate (length ncs) None, nd_core = s, nd_limiters = ls\<rparr>"

text \<open>\<^verbatim>\<open>Close\<close>: an error of a controller is logged and the next one is closed. The left side is a nil
  controller dereferenced. The closed controllers are returned beside the errors.\<close>

fun close_each ::
    "(nat \<Rightarrow> ('b, 's) ctl_env) \<Rightarrow> nat \<Rightarrow> 's controller option list \<Rightarrow> 's \<Rightarrow> limiters
     \<Rightarrow> string + (string option \<times> 's controller) list \<times> 's \<times> limiters" where
  "close_each envs i [] s ls = Inr ([], s, ls)"
| "close_each envs i (None # cs) s ls = Inl ''nil pointer dereference''"
| "close_each envs i (Some c # cs) s ls =
     (case close_controller (envs i) (enter_shared s ls c) of
        (e, c') \<Rightarrow>
          (case close_each envs (i + 1) cs (server c') (all_limiters c') of
             Inl p \<Rightarrow> Inl p
           | Inr (r, s', ls') \<Rightarrow> Inr ((e, c') # r, s', ls')))"

definition close_nodes ::
    "(nat \<Rightarrow> ('b, 's) ctl_env) \<Rightarrow> 's nodes \<Rightarrow> string + (string option \<times> 's controller) list \<times> 's nodes" where
  "close_nodes envs n =
     (case close_each envs 0 (nd_controllers n) (nd_core n) (nd_limiters n) of
        Inl p \<Rightarrow> Inl p
      | Inr (r, s, ls) \<Rightarrow> Inr (r, \<lparr>nd_controllers = [], nd_core = s, nd_limiters = ls\<rparr>))"

section \<open>Start\<close>

lemma start_nodes_all:
  "start_nodes envs reps i ncs n = (None, n') \<Longrightarrow> i + length ncs = length (nd_controllers n) \<Longrightarrow>
     length (nd_controllers n') = length (nd_controllers n) \<and>
     (\<forall>j. i \<le> j \<and> j < length (nd_controllers n) \<longrightarrow> nd_controllers n' ! j \<noteq> None) \<and>
     (\<forall>j < i. nd_controllers n' ! j = nd_controllers n ! j)"
proof (induction ncs arbitrary: i n)
  case (Cons nc ncs)
  obtain c where "start_nodes envs reps (i + 1) ncs
      \<lparr>nd_controllers = (nd_controllers n)[i := Some c], nd_core = server c, nd_limiters = all_limiters c\<rparr> = (None, n')"
    using Cons.prems(1) by (auto simp: Let_def split: sum.splits prod.splits option.splits)
  from Cons.IH [OF this] Cons.prems(2)
  have ih: "length (nd_controllers n') = length (nd_controllers n)"
    "\<And>j. i + 1 \<le> j \<Longrightarrow> j < length (nd_controllers n) \<Longrightarrow> nd_controllers n' ! j \<noteq> None"
    "\<And>j. j < i + 1 \<Longrightarrow> nd_controllers n' ! j = (nd_controllers n)[i := Some c] ! j"
    by simp_all
  have "nd_controllers n' ! i = Some c" using ih(3) [of i] Cons.prems(2) by simp
  then have "nd_controllers n' ! j \<noteq> None" if "i \<le> j" "j < length (nd_controllers n)" for j
    using ih(2) [of j] that by (cases "j = i") auto
  then show ?case using ih(1,3) by simp
qed auto

lemma start_all_full:
  assumes "start_all envs reps ncs s ls = (None, n)"
  shows "length (nd_controllers n) = length ncs" "None \<notin> set (nd_controllers n)"
proof -
  have *: "length (nd_controllers n) = length ncs" "\<And>j. j < length ncs \<Longrightarrow> nd_controllers n ! j \<noteq> None"
    using start_nodes_all [OF assms [unfolded start_all_def]] by auto
  show "length (nd_controllers n) = length ncs" by (rule *(1))
  show "None \<notin> set (nd_controllers n)" using * by (auto simp: in_set_conv_nth)
qed

section \<open>Close\<close>

lemma close_controller_done:
  assumes "close_controller env c = (e, c')"
  shows "lim_table (all_limiters c') = mdel (tag c) (lim_table (all_limiters c))" "tag c' = tag c"
    "monitor_task c' = close_periodic (monitor_task c)" "report_task c' = close_periodic (report_task c)"
    "status_task c' = close_periodic (status_task c)" "renew_task c' = close_periodic (renew_task c)"
    "device_task c' = close_periodic (device_task c)" "server c' = snd (co_del_node (env_core env) (tag c) (server c))"
  using assms by (auto simp: close_controller_def Let_def delete_limiter_at_def split: prod.splits)

text \<open>One controller, closed.\<close>

definition tasks_closed :: "'s controller \<Rightarrow> 's controller \<Rightarrow> bool" where
  "tasks_closed c c' \<longleftrightarrow> tag c' = tag c \<and> monitor_task c' = close_periodic (monitor_task c) \<and>
     report_task c' = close_periodic (report_task c) \<and> status_task c' = close_periodic (status_task c) \<and>
     renew_task c' = close_periodic (renew_task c) \<and> device_task c' = close_periodic (device_task c)"

lemma close_each_total:
  "None \<notin> set cs \<Longrightarrow> \<exists>r s' ls'. close_each envs i cs s ls = Inr (r, s', ls') \<and>
     list_all2 (\<lambda>c p. tasks_closed (the c) (snd p)) cs r \<and>
     dom (map_of (lim_table ls')) = dom (map_of (lim_table ls)) - tag ` the ` set cs"
proof (induction cs arbitrary: i s ls)
  case (Cons oc cs)
  then obtain c where c: "oc = Some c" by (cases oc) auto
  obtain e c' where e: "close_controller (envs i) (enter_shared s ls c) = (e, c')" by fastforce
  note d = close_controller_done [OF e]
  obtain r s' ls' where ih: "close_each envs (i + 1) cs (server c') (all_limiters c') = Inr (r, s', ls')"
    "list_all2 (\<lambda>c p. tasks_closed (the c) (snd p)) cs r"
    "dom (map_of (lim_table ls')) = dom (map_of (lim_table (all_limiters c'))) - tag ` the ` set cs"
    using Cons.IH [of "i + 1" "server c'" "all_limiters c'"] Cons.prems by auto
  have "tasks_closed c c'" using d by (simp add: tasks_closed_def enter_shared_def)
  moreover have "dom (map_of (lim_table (all_limiters c'))) = dom (map_of (lim_table ls)) - {tag c}"
    using d(1) by (auto simp: enter_shared_def)
  moreover have "close_each envs i (oc # cs) s ls = Inr ((e, c') # r, s', ls')"
    using e ih(1) by (simp only: c close_each.simps prod.case sum.case)
  moreover have "dom (map_of (lim_table ls')) = dom (map_of (lim_table ls)) - tag ` the ` set (oc # cs)"
    using ih(3) calculation(2) by (auto simp only: c list.set image_insert option.sel)
  moreover have "list_all2 (\<lambda>c p. tasks_closed (the c) (snd p)) (oc # cs) ((e, c') # r)"
    using ih(2) calculation(1) by (simp add: c)
  ultimately show ?case by blast
qed simp

text \<open>C11. After a start without error the process has a controller for every node of the configuration,
  and closing them, at any later time (\<open>n1\<close>), never panics and reaches every one: whatever the core
  answers to the deletion of an inbound, the tasks of each are closed, and its limiter is out of the
  table of tags.\<close>

theorem close_reaches_every_node:
  assumes st: "start_all envs reps ncs s ls = (None, n)"
    and later: "list_all2 (\<lambda>a b. a \<noteq> None \<longrightarrow> b \<noteq> None) (nd_controllers n) (nd_controllers n1)"
  shows "\<exists>r n'. close_nodes envs n1 = Inr (r, n') \<and> length r = length ncs \<and> nd_controllers n' = [] \<and>
    list_all2 (\<lambda>c p. tasks_closed (the c) (snd p)) (nd_controllers n1) r \<and>
    dom (map_of (lim_table (nd_limiters n'))) = dom (map_of (lim_table (nd_limiters n1))) - tag ` the ` set (nd_controllers n1)"
proof -
  have n: "None \<notin> set (nd_controllers n1)" "length (nd_controllers n1) = length ncs"
    using start_all_full [OF st] later by (auto simp: list_all2_conv_all_nth in_set_conv_nth)
  obtain r s' ls' where c: "close_each envs 0 (nd_controllers n1) (nd_core n1) (nd_limiters n1) = Inr (r, s', ls')"
    "list_all2 (\<lambda>c p. tasks_closed (the c) (snd p)) (nd_controllers n1) r"
    "dom (map_of (lim_table ls')) = dom (map_of (lim_table (nd_limiters n1))) - tag ` the ` set (nd_controllers n1)"
    using close_each_total [OF n(1)] by blast
  have "length r = length ncs" using list_all2_lengthD [OF c(2)] n(2) by simp
  then show ?thesis using c by (simp add: close_nodes_def)
qed

section \<open>An example\<close>

definition start_env :: "(string, string list xray) ctl_env" where
  "start_env = demo_env\<lparr>env_parse := (\<lambda>b. Some (JObj [(''server_port'', JNum ''443''), (''cipher'', JStr ''aes-128-gcm'')]))\<rparr>"

definition start_replies :: "string replies \<times> json option reply" where
  "start_replies = (\<lparr>rep_config = ok_reply ''c'' ''e'', rep_users = ok_reply (Some (JObj [(''users'', JArr [user_json user_a])])) ''e'',
     rep_alive = unchanged None\<rparr>, unchanged None)"

definition demo_config :: "int \<Rightarrow> node_config" where
  "demo_config i = \<lparr>nc_api = default_api\<lparr>ac_node_id := i, ac_node_type := ''Shadowsocks''\<rparr>, nc_options = default_options\<rparr>"

definition fresh_core :: "string list xray" where
  "fresh_core = \<lparr>inbounds = [], uid_map = [], min_traffic = [], cells = [], counters = [], links = no_links\<rparr>"

definition demo_started :: "string option \<times> string list xray nodes" where
  "demo_started = start_all (\<lambda>i. start_env) (\<lambda>i. start_replies) [demo_config 1, demo_config 2] fresh_core \<lparr>lim_heap = [], lim_table = []\<rparr>"

lemma demo_start_ok: "fst demo_started = None"
  by code_simp

theorem close_reaches_every_node_witness:
  "\<exists>r n'. close_nodes (\<lambda>i. start_env) (snd demo_started) = Inr (r, n') \<and> length r = 2 \<and> nd_controllers n' = []"
proof -
  have st: "start_all (\<lambda>i. start_env) (\<lambda>i. start_replies) [demo_config 1, demo_config 2] fresh_core \<lparr>lim_heap = [], lim_table = []\<rparr>
      = (None, snd demo_started)"
    using demo_start_ok by (simp add: demo_started_def prod_eq_iff)
  have l: "list_all2 (\<lambda>a b. a \<noteq> None \<longrightarrow> b \<noteq> None) (nd_controllers (snd demo_started)) (nd_controllers (snd demo_started))"
    by (simp add: list_all2_same)
  show ?thesis
    using close_reaches_every_node [OF st l] by auto
qed

end
