(* ===== verification/Files.thy ===== *)
theory Files
  imports Conf
begin

text \<open>
  Paths and files as the code uses them: \<^verbatim>\<open>path.Clean\<close>, \<^verbatim>\<open>path.Dir\<close>, \<^verbatim>\<open>path.Join\<close>, \<^verbatim>\<open>os.MkdirAll\<close>,
  \<^verbatim>\<open>os.WriteFile\<close>, \<^verbatim>\<open>os.ReadFile\<close>, \<^verbatim>\<open>os.Setenv\<close>, and \<^verbatim>\<open>common/file/file.go\<close>. A disk is a table from
  paths to contents and modes, and a list of directories; paths are compared as they are written.
  Which calls the operating system refuses is an argument. A mode is the one asked for when the
  file is created, before the umask.
\<close>

section \<open>Paths\<close>

definition clean_step :: "bool \<Rightarrow> string \<Rightarrow> string list \<Rightarrow> string list" where
  "clean_step rooted seg out =
     (if seg = '''' \<or> seg = ''.'' then out
      else if seg = ''..'' then
        (case out of x # xs \<Rightarrow> if x \<noteq> ''..'' then xs else seg # out | [] \<Rightarrow> if rooted then [] else [seg])
      else seg # out)"

definition clean_path :: "string \<Rightarrow> string" where
  "clean_path p =
     (let rooted = has_prefix ''/'' p;
          body = join_with ''/'' (rev (fold (clean_step rooted) (split_on CHR ''/'' p) []));
          r = (if rooted then ''/'' @ body else body)
      in if r = '''' then ''.'' else r)"

definition path_dir :: "string \<Rightarrow> string" where
  "path_dir p = clean_path (rev (dropWhile (\<lambda>c. c \<noteq> CHR ''/'') (rev p)))"

definition path_join :: "string list \<Rightarrow> string" where
  "path_join ps =
     (let qs = filter (\<lambda>p. p \<noteq> '''') ps in if qs = [] then '''' else clean_path (join_with ''/'' qs))"

section \<open>The disk\<close>

record disk =
  dk_files :: "(string, string \<times> int) gomap" \<comment> \<open>content and mode\<close>
  dk_dirs :: "string list"
  dk_env :: "(string, string) gomap" \<comment> \<open>the environment of the process\<close>

text \<open>What the system refuses, by path: \<^verbatim>\<open>oe_stat\<close> is a failure of \<^verbatim>\<open>stat\<close> other than that there is no
  such file.\<close>

record os_errors =
  oe_stat :: "string \<Rightarrow> bool"
  oe_mkdir :: "string \<Rightarrow> string option"
  oe_open :: "string \<Rightarrow> string option"
  oe_write :: "string \<Rightarrow> string option"
  oe_read :: "string \<Rightarrow> string option"

definition is_dir :: "disk \<Rightarrow> string \<Rightarrow> bool" where
  "is_dir d p \<longleftrightarrow> p = ''/'' \<or> p = ''.'' \<or> p \<in> set (dk_dirs d)"

definition is_exist :: "os_errors \<Rightarrow> disk \<Rightarrow> string \<Rightarrow> bool" where
  "is_exist oe d p \<longleftrightarrow> mhas (dk_files d) p \<or> is_dir d p \<or> oe_stat oe p"

text \<open>A directory and those above it.\<close>

fun parents :: "nat \<Rightarrow> string \<Rightarrow> string list" where
  "parents 0 p = [p]"
| "parents (Suc n) p = p # parents n (path_dir p)"

definition mkdir_all :: "os_errors \<Rightarrow> string \<Rightarrow> disk \<Rightarrow> string option \<times> disk" where
  "mkdir_all oe p d =
     (case oe_mkdir oe p of
        Some e \<Rightarrow> (Some e, d)
      | None \<Rightarrow>
          if list_ex (mhas (dk_files d)) (parents (length p) p) then (Some ''not a directory'', d)
          else (None, d\<lparr>dk_dirs := dk_dirs d @ parents (length p) p\<rparr>))"

text \<open>Opening to write over: a file that is there keeps its mode.\<close>

definition open_trunc :: "os_errors \<Rightarrow> string \<Rightarrow> int \<Rightarrow> disk \<Rightarrow> string option \<times> disk" where
  "open_trunc oe p perm d =
     (case oe_open oe p of
        Some e \<Rightarrow> (Some e, d)
      | None \<Rightarrow>
          if \<not> is_dir d (path_dir p) then (Some ''no such file or directory'', d)
          else if is_dir d p then (Some ''is a directory'', d)
          else (None, d\<lparr>dk_files := mput p ('''', snd (mget ('''', perm) (dk_files d) p)) (dk_files d)\<rparr>))"

definition write_open :: "os_errors \<Rightarrow> string \<Rightarrow> string \<Rightarrow> disk \<Rightarrow> string option \<times> disk" where
  "write_open oe p text d =
     (case oe_write oe p of
        Some e \<Rightarrow> (Some e, d)
      | None \<Rightarrow> (None, d\<lparr>dk_files := mput p (text, snd (mget ('''', 0) (dk_files d) p)) (dk_files d)\<rparr>))"

definition write_file :: "os_errors \<Rightarrow> string \<Rightarrow> string \<Rightarrow> int \<Rightarrow> disk \<Rightarrow> string option \<times> disk" where
  "write_file oe p text perm d =
     (case open_trunc oe p perm d of
        (Some e, d1) \<Rightarrow> (Some e, d1)
      | (None, d1) \<Rightarrow> write_open oe p text d1)"

definition read_file :: "os_errors \<Rightarrow> string \<Rightarrow> disk \<Rightarrow> string + string" where
  "read_file oe p d =
     (case oe_read oe p of
        Some e \<Rightarrow> Inl e
      | None \<Rightarrow> (case map_of (dk_files d) p of None \<Rightarrow> Inl ''no such file or directory'' | Some (text, m) \<Rightarrow> Inr text))"

section \<open>What the operations leave\<close>

lemma write_file_ok:
  assumes "write_file oe p text perm d = (None, d')"
  shows "d' = d\<lparr>dk_files := dk_files d'\<rparr>" "is_dir d (path_dir p)" "\<not> is_dir d p"
    "map_of (dk_files d') = (map_of (dk_files d))(p \<mapsto> (text, snd (mget ('''', perm) (dk_files d) p)))"
  using assms by (auto simp: write_file_def open_trunc_def write_open_def split: option.splits prod.splits if_splits)

text \<open>Whether it succeeds or not, a write touches one file and no directory.\<close>

lemma write_file_frame:
  assumes "write_file oe p text perm d = (e, d')"
  shows "dk_dirs d' = dk_dirs d" "dk_env d' = dk_env d" "q \<noteq> p \<Longrightarrow> map_of (dk_files d') q = map_of (dk_files d) q"
    "e = None \<Longrightarrow> mhas (dk_files d') p"
  using assms by (auto simp: write_file_def open_trunc_def write_open_def split: option.splits prod.splits if_splits)

lemma mkdir_all_frame:
  assumes "mkdir_all oe p d = (e, d')"
  shows "dk_files d' = dk_files d" "dk_env d' = dk_env d" "set (dk_dirs d) \<subseteq> set (dk_dirs d')"
    "set (dk_dirs d') \<subseteq> set (dk_dirs d) \<union> set (parents (length p) p)"
  using assms by (auto simp: mkdir_all_def split: option.splits if_splits)

end
