(* ===== verification/XrayStart.thy ===== *)
theory XrayStart
  imports Files Cores
begin

text \<open>
  Making, starting and closing the Xray core, \<^verbatim>\<open>core/xray/xray.go\<close>. Xray's own configuration types,
  their \<^verbatim>\<open>Build\<close> and its server are arguments (\<open>xray_lib\<close>); a panic is the left side of the result. The locale
  \<open>core_life\<close> is what the program relies on when it starts and closes a core.
\<close>

section \<open>The configuration of the server\<close>

record core_log =
  cl_level :: string
  cl_access :: string
  cl_error :: string

record level_policy =
  lp_stats_up :: bool
  lp_stats_down :: bool
  lp_handshake :: int
  lp_idle :: int
  lp_uplink :: int
  lp_downlink :: int
  lp_buffer :: int

definition parse_connection_config :: "xray_connection_config \<Rightarrow> level_policy" where
  "parse_connection_config c =
     \<lparr>lp_stats_up = True, lp_stats_down = True, lp_handshake = xn_handshake c, lp_idle = xn_idle c,
      lp_uplink = xn_uplink c, lp_downlink = xn_downlink c, lp_buffer = xn_buffer c\<rparr>"

datatype 'm app =
    LogApp core_log | DispatcherApp | StatsApp | InboundApp | OutboundApp
  | PolicyApp "(int \<times> level_policy) list" | DnsApp 'm | RouteApp 'm

record 'm server_conf =
  sc_apps :: "'m app list"
  sc_inbound :: "'m list"
  sc_outbound :: "'m list"

record ('c, 'm, 'i) xray_lib =
  xb_empty_dns :: 'c
  xb_empty_route :: 'c
  xb_parse_dns :: "string \<Rightarrow> string + 'c" \<comment> \<open>\<^verbatim>\<open>json.Unmarshal\<close> into the type of Xray\<close>
  xb_parse_route :: "string \<Rightarrow> string + 'c"
  xb_parse_inbounds :: "string \<Rightarrow> string + 'c list"
  xb_parse_outbounds :: "string \<Rightarrow> string + 'c list"
  xb_build_dns :: "'c \<Rightarrow> string + 'm"
  xb_build_route :: "'c \<Rightarrow> string + 'm"
  xb_build_inbound :: "'c \<Rightarrow> string + 'm"
  xb_build_outbound :: "'c \<Rightarrow> string + 'm"
  xb_new :: "'m server_conf \<Rightarrow> string + 'i"

text \<open>The DNS file: what cannot be read or parsed is replaced by the default.\<close>

definition dns_config :: "('c, 'm, 'i) xray_lib \<Rightarrow> os_errors \<Rightarrow> string \<Rightarrow> disk \<Rightarrow> 'c" where
  "dns_config lib oe p d =
     (if p = '''' then xb_empty_dns lib
      else case read_file oe p d of
             Inl e \<Rightarrow> xb_empty_dns lib
           | Inr data \<Rightarrow> (case xb_parse_dns lib data of Inl e \<Rightarrow> xb_empty_dns lib | Inr c \<Rightarrow> c))"

text \<open>The other files: an error is a panic.\<close>

definition file_config :: "(string \<Rightarrow> string + 'a) \<Rightarrow> 'a \<Rightarrow> string \<Rightarrow> os_errors \<Rightarrow> string \<Rightarrow> disk \<Rightarrow> string + 'a" where
  "file_config parse none what oe p d =
     (if p = '''' then Inr none
      else case read_file oe p d of
             Inl e \<Rightarrow> Inl (''Failed to read '' @ what)
           | Inr data \<Rightarrow> (case parse data of Inl e \<Rightarrow> Inl (''Failed to unmarshal '' @ what) | Inr c \<Rightarrow> Inr c))"

fun build_all :: "('c \<Rightarrow> string + 'm) \<Rightarrow> string \<Rightarrow> 'c list \<Rightarrow> string + 'm list" where
  "build_all build what [] = Inr []"
| "build_all build what (c # cs) =
     (case build c of
        Inl e \<Rightarrow> Inl (''Failed to understand '' @ what)
      | Inr m \<Rightarrow> (case build_all build what cs of Inl e \<Rightarrow> Inl e | Inr ms \<Rightarrow> Inr (m # ms)))"

definition sbind :: "'e + 'a \<Rightarrow> ('a \<Rightarrow> 'e + 'b) \<Rightarrow> 'e + 'b" where
  "sbind r f = (case r of Inl e \<Rightarrow> Inl e | Inr x \<Rightarrow> f x)"

lemma sbind_simps [simp]: "sbind (Inl e) f = Inl e" "sbind (Inr x) f = f x"
  by (simp_all add: sbind_def)

lemma sbind_Inr: "sbind r f = Inr y \<longleftrightarrow> (\<exists>x. r = Inr x \<and> f x = Inr y)"
  by (cases r) auto

definition core_log_of :: "xray_log_config \<Rightarrow> core_log" where
  "core_log_of l =
     \<lparr>cl_level = xl_level l, cl_access = (if xl_access l = '''' then ''none'' else xl_access l), cl_error = xl_error l\<rparr>"

text \<open>\<^verbatim>\<open>getCore\<close> without the environment; a nil part of the configuration is dereferenced.\<close>

definition make_core :: "('c, 'm, 'i) xray_lib \<Rightarrow> os_errors \<Rightarrow> xray_config \<Rightarrow> disk \<Rightarrow> string + 'i" where
  "make_core lib oe c d =
     (case xc_log c of
        None \<Rightarrow> Inl ''nil pointer dereference''
      | Some l \<Rightarrow>
          sbind (case xb_build_dns lib (dns_config lib oe (xc_dns c) d) of
                   Inl e \<Rightarrow> Inl ''Failed to understand DNS config'' | Inr m \<Rightarrow> Inr m) (\<lambda>dns.
          sbind (file_config (xb_parse_route lib) (xb_empty_route lib) ''Routing config'' oe (xc_route c) d) (\<lambda>rc.
          sbind (case xb_build_route lib rc of
                   Inl e \<Rightarrow> Inl ''Failed to understand Routing config'' | Inr m \<Rightarrow> Inr m) (\<lambda>route.
          sbind (file_config (xb_parse_inbounds lib) [] ''Custom Inbound config'' oe (xc_inbound c) d) (\<lambda>is.
          sbind (build_all (xb_build_inbound lib) ''Inbound config'' is) (\<lambda>ins.
          sbind (file_config (xb_parse_outbounds lib) [] ''Custom Outbound config'' oe (xc_outbound c) d) (\<lambda>os.
          sbind (build_all (xb_build_outbound lib) ''Outbound config'' os) (\<lambda>outs.
            case xc_connection c of
              None \<Rightarrow> Inl ''nil pointer dereference''
            | Some cn \<Rightarrow>
                (case xb_new lib \<lparr>sc_apps = [LogApp (core_log_of l), DispatcherApp, StatsApp, InboundApp, OutboundApp,
                     PolicyApp [(0, parse_connection_config cn)], DnsApp dns, RouteApp route],
                     sc_inbound = ins, sc_outbound = outs\<rparr> of
                   Inl e \<Rightarrow> Inl ''failed to create instance'' | Inr i \<Rightarrow> Inr i)))))))))"

definition set_env :: "string \<Rightarrow> string \<Rightarrow> disk \<Rightarrow> disk" where
  "set_env k v d = d\<lparr>dk_env := mput k v (dk_env d)\<rparr>"

definition get_core :: "('c, 'm, 'i) xray_lib \<Rightarrow> os_errors \<Rightarrow> xray_config option \<Rightarrow> disk \<Rightarrow> (string + 'i) \<times> disk" where
  "get_core lib oe cfg d =
     (case cfg of
        None \<Rightarrow> (Inl ''nil pointer dereference'', d)
      | Some c \<Rightarrow>
          (let d1 = set_env ''XRAY_LOCATION_ASSET'' (xc_asset c) d in
           if xc_log c = None then (Inl ''nil pointer dereference'', d1)
           else (make_core lib oe c d1, set_env ''XRAY_DNS_PATH'' (xc_dns c) d1)))"

section \<open>The core\<close>

record ('i, 'u) xray_server =
  xs_instance :: 'i
  xs_features :: bool \<comment> \<open>\<^verbatim>\<open>ihm\<close>, \<^verbatim>\<open>ohm\<close> and \<^verbatim>\<open>dispatcher\<close> are set\<close>
  xs_xray :: "'u xray"

definition new_xray ::
    "('c, 'm, 'i) xray_lib \<Rightarrow> os_errors \<Rightarrow> core_config \<Rightarrow> disk \<Rightarrow> (string + ('i, 'u) xray_server) \<times> disk" where
  "new_xray lib oe c d =
     (case get_core lib oe (kc_xray c) d of
        (Inl e, d1) \<Rightarrow> (Inl e, d1)
      | (Inr i, d1) \<Rightarrow>
          (Inr \<lparr>xs_instance = i, xs_features = False,
             xs_xray = \<lparr>inbounds = [], uid_map = [], min_traffic = [], cells = [], counters = [], links = no_links\<rparr>\<rparr>, d1))"

definition xray_start ::
    "('i \<Rightarrow> string option \<times> 'i) \<Rightarrow> ('i, 'u) xray_server \<Rightarrow> string option \<times> ('i, 'u) xray_server" where
  "xray_start start s =
     (case start (xs_instance s) of
        (Some e, i) \<Rightarrow> (Some e, s\<lparr>xs_instance := i\<rparr>)
      | (None, i) \<Rightarrow> (None, s\<lparr>xs_instance := i, xs_features := True\<rparr>))"

definition xray_close ::
    "('i \<Rightarrow> string option \<times> 'i) \<Rightarrow> ('i, 'u) xray_server \<Rightarrow> string option \<times> ('i, 'u) xray_server" where
  "xray_close close s =
     (case close (xs_instance (s\<lparr>xs_features := False\<rparr>)) of
        (e, i) \<Rightarrow> (e, s\<lparr>xs_instance := i, xs_features := False\<rparr>))"

text \<open>The operations on nodes and users act on the state of \<open>XrayUsers\<close> and leave the server alone.\<close>

definition with_xray :: "('i, 'u) xray_server \<Rightarrow> 'u xray \<Rightarrow> ('i, 'u) xray_server" where
  "with_xray s x = s\<lparr>xs_xray := x\<rparr>"

definition server_core :: "'u xray core_ops \<Rightarrow> ('i, 'u) xray_server core_ops" where
  "server_core c = \<lparr>co_type = co_type c, co_protocols = co_protocols c,
     co_add_node = (\<lambda>t n opts s. apsnd (with_xray s) (co_add_node c t n opts (xs_xray s))),
     co_del_node = (\<lambda>t s. apsnd (with_xray s) (co_del_node c t (xs_xray s))),
     co_add_users = (\<lambda>t us n s. apsnd (apsnd (with_xray s)) (co_add_users c t us n (xs_xray s))),
     co_del_users = (\<lambda>us t n s. apsnd (with_xray s) (co_del_users c us t n (xs_xray s))),
     co_traffic = (\<lambda>t r s. apsnd (with_xray s) (co_traffic c t r (xs_xray s)))\<rparr>"

section \<open>Files that cannot be used\<close>

definition usable :: "(string \<Rightarrow> string + 'a) \<Rightarrow> os_errors \<Rightarrow> string \<Rightarrow> disk \<Rightarrow> bool" where
  "usable parse oe p d \<longleftrightarrow> (case read_file oe p d of Inl e \<Rightarrow> False | Inr data \<Rightarrow> \<not> isl (parse data))"

lemma file_config_Inr: "file_config parse none what oe p d = Inr x \<Longrightarrow> p = '''' \<or> usable parse oe p d"
  by (auto simp: file_config_def usable_def split: if_splits sum.splits)

lemma build_all_Inr: "build_all build what cs = Inr ms \<Longrightarrow> map build cs = map Inr ms"
  by (induction cs arbitrary: ms) (auto split: sum.splits)

lemma read_file_env [simp]: "read_file oe p (set_env k v d) = read_file oe p d"
  by (simp add: read_file_def set_env_def split: option.split)

lemma dns_config_env [simp]: "dns_config lib oe p (set_env k v d) = dns_config lib oe p d"
  by (simp add: dns_config_def)

lemma file_config_env [simp]: "file_config parse none what oe p (set_env k v d) = file_config parse none what oe p d"
  by (simp add: file_config_def)

lemma make_core_env [simp]: "make_core lib oe c (set_env k v d) = make_core lib oe c d"
  by (simp add: make_core_def cong: option.case_cong)

lemma make_core_Inr:
  assumes "make_core lib oe c d = Inr i"
  shows "\<exists>l cn dns route ins outs. xc_log c = Some l \<and> xc_connection c = Some cn \<and>
    xb_new lib \<lparr>sc_apps = [LogApp (core_log_of l), DispatcherApp, StatsApp, InboundApp, OutboundApp,
      PolicyApp [(0, parse_connection_config cn)], DnsApp dns, RouteApp route], sc_inbound = ins, sc_outbound = outs\<rparr> = Inr i \<and>
    (xc_route c = '''' \<or> usable (xb_parse_route lib) oe (xc_route c) d) \<and>
    (xc_inbound c = '''' \<or> usable (xb_parse_inbounds lib) oe (xc_inbound c) d) \<and>
    (xc_outbound c = '''' \<or> usable (xb_parse_outbounds lib) oe (xc_outbound c) d)"
  using assms
  by (fastforce simp: make_core_def sbind_Inr dest: file_config_Inr split: option.splits sum.splits)


definition demo_lib :: "(string, string, string server_conf) xray_lib" where
  "demo_lib = \<lparr>xb_empty_dns = ''{}'', xb_empty_route = ''{}'',
     xb_parse_dns = (\<lambda>s. if has_prefix ''{'' s then Inr s else Inl ''no object''),
     xb_parse_route = (\<lambda>s. if has_prefix ''{'' s then Inr s else Inl ''no object''),
     xb_parse_inbounds = (\<lambda>s. if has_prefix ''['' s then Inr [s] else Inl ''no list''),
     xb_parse_outbounds = (\<lambda>s. if has_prefix ''['' s then Inr [s] else Inl ''no list''),
     xb_build_dns = Inr, xb_build_route = Inr, xb_build_inbound = Inr, xb_build_outbound = Inr, xb_new = Inr\<rparr>"

definition calm_os :: os_errors where
  "calm_os = \<lparr>oe_stat = (\<lambda>p. False), oe_mkdir = (\<lambda>p. None), oe_open = (\<lambda>p. None), oe_write = (\<lambda>p. None), oe_read = (\<lambda>p. None)\<rparr>"


section \<open>The life of a core\<close>

text \<open>What a core promises to the program: a start without error makes it usable, a close without error
  ends that.\<close>

locale core_life =
  fixes start :: "'s \<Rightarrow> string option \<times> 's"
    and close :: "'s \<Rightarrow> string option \<times> 's"
    and running :: "'s \<Rightarrow> bool"
  assumes start_runs: "start s = (None, s') \<Longrightarrow> running s'"
    and close_stops: "close s = (None, s') \<Longrightarrow> \<not> running s'"

interpretation xl: core_life "xray_start istart" "xray_close iclose" xs_features for istart iclose
  by unfold_locales (auto simp: xray_start_def xray_close_def split: prod.splits option.splits)

end
