(* ===== verification/Server.thy ===== *)
theory Server
  imports Nodes XrayStart
begin

text \<open>
  The process, \<^verbatim>\<open>cmd/server.go\<close>: start, reload, exit and the log file. A core is a place in a heap of
  core states, as the deferred close keeps the core it was given while the variable moves on. What the world answers to a start (the configuration
  read, the core made, the replies of the panel) is a \<open>boot\<close>.
\<close>

section \<open>Log\<close>

record log_state =
  lg_level :: string
  lg_file :: "string option" \<comment> \<open>the file that is open\<close>

definition apply_log_config :: "(string \<Rightarrow> bool) \<Rightarrow> log_config \<Rightarrow> log_state \<Rightarrow> log_state" where
  "apply_log_config can_open c s =
     (let s1 = (if lc_level c \<in> {''debug'', ''info'', ''warn'', ''error''} then s\<lparr>lg_level := lc_level c\<rparr> else s)
      in if lc_output c \<noteq> '''' \<and> can_open (lc_output c) then s1\<lparr>lg_file := Some (lc_output c)\<rparr> else s1)"

section \<open>The process\<close>

datatype status = Running | Returned | Crashed string

datatype 's made = Made 's | Refused string | Panicked string

record ('b, 's) boot =
  bt_conf :: "conf option"
  bt_core :: "core_config list \<Rightarrow> 's made"
  bt_replies :: "nat \<Rightarrow> 'b replies \<times> json option reply"
  bt_can_open :: "string \<Rightarrow> bool"
  bt_watch :: "string option" \<comment> \<open>the error of \<^verbatim>\<open>Watch\<close>, when it is called\<close>

record 's server =
  sv_status :: status
  sv_cores :: "'s list"
  sv_vc :: nat \<comment> \<open>the core in use\<close>
  sv_defer :: nat \<comment> \<open>the core of the deferred close\<close>
  sv_controllers :: "'s controller option list"
  sv_limiters :: limiters
  sv_conf :: conf
  sv_log :: log_state

definition put_core :: "nat \<Rightarrow> 's \<Rightarrow> 's server \<Rightarrow> 's server" where
  "put_core i s sv = sv\<lparr>sv_cores := (sv_cores sv)[i := s]\<rparr>"

text \<open>Leaving \<^verbatim>\<open>serverHandle\<close> after the core has started, by return or by panic, runs the deferred down.\<close>

definition leave :: "('s \<Rightarrow> string option \<times> 's) \<Rightarrow> status \<Rightarrow> 's server \<Rightarrow> 's server" where
  "leave down st sv = (put_core (sv_defer sv) (snd (down (sv_cores sv ! sv_defer sv))) sv)\<lparr>sv_status := st\<rparr>"

definition put_nodes :: "'s nodes \<Rightarrow> 's server \<Rightarrow> 's server" where
  "put_nodes n sv = (put_core (sv_vc sv) (nd_core n) sv)\<lparr>sv_controllers := nd_controllers n, sv_limiters := nd_limiters n\<rparr>"

definition new_server :: "'s server" where
  "new_server = \<lparr>sv_status = Returned, sv_cores = [], sv_vc = 0, sv_defer = 0, sv_controllers = [],
     sv_limiters = \<lparr>lim_heap = [], lim_table = []\<rparr>, sv_conf = new_conf, sv_log = \<lparr>lg_level = ''info'', lg_file = None\<rparr>\<rparr>"

definition start_server ::
    "('s \<Rightarrow> string option \<times> 's) \<Rightarrow> ('s \<Rightarrow> string option \<times> 's) \<Rightarrow> (nat \<Rightarrow> ('b, 's) ctl_env) \<Rightarrow> bool
     \<Rightarrow> ('b, 's) boot \<Rightarrow> 's server" where
  "start_server up down envs watch b =
     (case bt_conf b of
        None \<Rightarrow> new_server
      | Some cf \<Rightarrow>
          (let sv = new_server\<lparr>sv_conf := cf, sv_log := apply_log_config (bt_can_open b) (cf_log cf) \<lparr>lg_level = ''info'', lg_file = None\<rparr>\<rparr> in
           case bt_core b (cf_cores cf) of
             Refused e \<Rightarrow> sv
           | Panicked e \<Rightarrow> sv\<lparr>sv_status := Crashed e\<rparr>
           | Made s \<Rightarrow>
               (case up s of
                  (Some e, s1) \<Rightarrow> sv\<lparr>sv_cores := [s1]\<rparr>
                | (None, s1) \<Rightarrow>
                    (case start_all envs (bt_replies b) (cf_nodes cf) s1 (sv_limiters sv) of
                       (e, n) \<Rightarrow>
                         (let sv1 = put_nodes n (sv\<lparr>sv_cores := [s1]\<rparr>) in
                          if e \<noteq> None \<or> (watch \<and> bt_watch b \<noteq> None) then leave down Returned sv1
                          else sv1\<lparr>sv_status := Running\<rparr>)))))"

text \<open>The exit signal: the nodes are closed, then the deferred close runs.\<close>

definition stop_server ::
    "('s \<Rightarrow> string option \<times> 's) \<Rightarrow> (nat \<Rightarrow> ('b, 's) ctl_env) \<Rightarrow> 's server \<Rightarrow> 's server" where
  "stop_server down envs sv =
     (case close_nodes envs \<lparr>nd_controllers = sv_controllers sv, nd_core = sv_cores sv ! sv_vc sv, nd_limiters = sv_limiters sv\<rparr> of
        Inl p \<Rightarrow> leave down (Crashed p) sv
      | Inr (r, n) \<Rightarrow> leave down Returned (put_nodes n sv))"

text \<open>\<^verbatim>\<open>reload\<close> and what the loop does with its error: \<^verbatim>\<open>log.Panic\<close>.\<close>

definition restart_server ::
    "('s \<Rightarrow> string option \<times> 's) \<Rightarrow> ('s \<Rightarrow> string option \<times> 's) \<Rightarrow> (nat \<Rightarrow> ('b, 's) ctl_env)
     \<Rightarrow> ('b, 's) boot \<Rightarrow> 's server \<Rightarrow> 's server" where
  "restart_server up down envs b sv =
     (case bt_conf b of
        None \<Rightarrow> leave down (Crashed ''Reload failed'') sv
      | Some cf \<Rightarrow>
          (let sv1 = sv\<lparr>sv_log := apply_log_config (bt_can_open b) (cf_log cf) (sv_log sv)\<rparr> in
           case bt_core b (cf_cores cf) of
             Refused e \<Rightarrow> leave down (Crashed ''Reload failed'') sv1
           | Panicked e \<Rightarrow> leave down (Crashed e) sv1
           | Made s \<Rightarrow>
               (case up s of
                  (Some e, s1) \<Rightarrow> leave down (Crashed ''Reload failed'') (sv1\<lparr>sv_cores := sv_cores sv1 @ [s1]\<rparr>)
                | (None, s1) \<Rightarrow>
                    (case start_all envs (bt_replies b) (cf_nodes cf) s1 (sv_limiters sv1) of
                       (e, n) \<Rightarrow>
                         (let sv2 = sv1\<lparr>sv_cores := sv_cores sv1 @ [nd_core n], sv_limiters := nd_limiters n\<rparr> in
                          if e \<noteq> None then leave down (Crashed ''Reload failed'') sv2
                          else sv2\<lparr>sv_vc := length (sv_cores sv), sv_controllers := nd_controllers n, sv_conf := cf\<rparr>)))))"

definition reload_server ::
    "('s \<Rightarrow> string option \<times> 's) \<Rightarrow> ('s \<Rightarrow> string option \<times> 's) \<Rightarrow> (nat \<Rightarrow> ('b, 's) ctl_env)
     \<Rightarrow> ('b, 's) boot \<Rightarrow> 's server \<Rightarrow> 's server" where
  "reload_server up down envs b sv =
     (case close_nodes envs \<lparr>nd_controllers = sv_controllers sv, nd_core = sv_cores sv ! sv_vc sv, nd_limiters = sv_limiters sv\<rparr> of
        Inl p \<Rightarrow> leave down (Crashed p) sv
      | Inr (r, n) \<Rightarrow>
          (case down (nd_core n) of
             (e, s) \<Rightarrow>
               (let sv1 = put_nodes (n\<lparr>nd_core := s\<rparr>) sv in
                if e \<noteq> None then leave down (Crashed ''Reload failed'') sv1
                else restart_server up down envs b sv1)))"

section \<open>Runs\<close>

text \<open>While the process waits, the nodes work: they change the controllers, the limiters, and the core in use,
  which stays a lives one.\<close>

inductive server_step ::
    "('s \<Rightarrow> bool) \<Rightarrow> ('s \<Rightarrow> string option \<times> 's) \<Rightarrow> ('s \<Rightarrow> string option \<times> 's) \<Rightarrow> (nat \<Rightarrow> ('b, 's) ctl_env)
     \<Rightarrow> 's server \<Rightarrow> 's server \<Rightarrow> bool"
  for lives up down envs where
  work: "sv_status sv = Running \<Longrightarrow> list_all2 (\<lambda>a b. a \<noteq> None \<longrightarrow> b \<noteq> None) (sv_controllers sv) cs \<Longrightarrow>
      lives s = lives (sv_cores sv ! sv_vc sv) \<Longrightarrow>
      server_step lives up down envs sv (put_nodes \<lparr>nd_controllers = cs, nd_core = s, nd_limiters = ls\<rparr> sv)"
| reload: "sv_status sv = Running \<Longrightarrow> server_step lives up down envs sv (reload_server up down envs b sv)"
| stop: "sv_status sv = Running \<Longrightarrow> server_step lives up down envs sv (stop_server down envs sv)"

text \<open>The operations of a core on nodes and users neither start nor stop it.\<close>

definition steady :: "('s \<Rightarrow> bool) \<Rightarrow> 's core_ops \<Rightarrow> bool" where
  "steady lives core \<longleftrightarrow> (\<forall>t n opts us s.
     lives (snd (co_add_node core t n opts s)) = lives s \<and> lives (snd (co_del_node core t s)) = lives s \<and>
     lives (snd (snd (co_add_users core t us n s))) = lives s)"

lemma steadyD:
  assumes "steady lives core"
  shows "co_add_node core t n opts s = (e, s') \<Longrightarrow> lives s' = lives s"
    "co_del_node core t s = (e, s') \<Longrightarrow> lives s' = lives s"
    "co_add_users core t us n s = (k, e, s') \<Longrightarrow> lives s' = lives s"
  using assms unfolding steady_def by (metis snd_conv)+

lemma steady_start_node:
  assumes st: "steady lives (env_core env)" and r: "start_node env n alive c = (e, c')"
  shows "lives (server c') = lives (server c)"
  using r
  by (auto simp: start_node_def Let_def start_tasks_def add_limiter_at_def dest!: steadyD [OF st]
      split: sum.splits option.splits prod.splits if_splits)

lemma start_fetch_server: "start_fetch env r c = (x, c') \<Longrightarrow> server c' = server c"
  by (auto simp: start_fetch_def Let_def split: sum.splits option.splits prod.splits)

lemma start_ws_server: "server (start_ws show r c) = server c"
  by (simp add: start_ws_def split: sum.split)

lemma steady_start_controller:
  assumes st: "steady lives (env_core env)" and r: "start_controller env r hs c = (e, c')"
  shows "lives (server c') = lives (server c)"
  using r
  by (auto simp: start_controller_def start_ws_server dest!: steady_start_node [OF st] start_fetch_server
      split: sum.splits option.splits prod.splits)

lemma steady_close_controller:
  assumes "steady lives (env_core env)" "close_controller env c = (e, c')"
  shows "lives (server c') = lives (server c)"
  using assms(1) close_controller_done(8) [OF assms(2)] by (simp add: steady_def)

lemma steady_start_nodes:
  assumes "\<And>i. steady lives (env_core (envs i))"
  shows "start_nodes envs reps i ncs n = (e, n') \<Longrightarrow> lives (nd_core n') = lives (nd_core n)"
proof (induction ncs arbitrary: i n)
  case (Cons nc ncs)
  show ?case
  proof (cases "new_client (nc_api nc)")
    case (Inl x)
    then show ?thesis using Cons.prems by auto
  next
    case (Inr a)
    obtain e1 c where c: "start_controller ((envs i)\<lparr>env_options := nc_options nc\<rparr>) (fst (reps i)) (snd (reps i))
        (new_controller (nd_core n) a (nd_limiters n)) = (e1, c)" by fastforce
    have "lives (server c) = lives (nd_core n)"
      using steady_start_controller [OF _ c] assms [of i] by (simp add: new_controller_def)
    then show ?thesis
      using Cons.prems Inr c Cons.IH by (cases e1) (auto simp: Let_def)
  qed
qed simp

lemma steady_close_each:
  assumes "\<And>i. steady lives (env_core (envs i))"
  shows "close_each envs i cs s ls = Inr (r, s', ls') \<Longrightarrow> lives s' = lives s"
proof (induction cs arbitrary: i s ls r)
  case (Cons oc cs)
  obtain c where c: "oc = Some c" using Cons.prems by (cases oc) auto
  obtain e c' where e: "close_controller (envs i) (enter_shared s ls c) = (e, c')" by fastforce
  have "lives (server c') = lives s"
    using steady_close_controller [OF assms e] by (simp add: enter_shared_def)
  moreover obtain r' where "close_each envs (i + 1) cs (server c') (all_limiters c') = Inr (r', s', ls')"
    using Cons.prems c e by (auto split: sum.splits)
  ultimately show ?case using Cons.IH by metis
qed simp

lemma close_nodes_ok:
  assumes "\<And>i. steady lives (env_core (envs i))" "None \<notin> set cs"
  obtains r n where "close_nodes envs \<lparr>nd_controllers = cs, nd_core = s, nd_limiters = ls\<rparr> = Inr (r, n)"
    "nd_controllers n = []" "lives (nd_core n) = lives s"
proof -
  obtain r s' ls' where c: "close_each envs 0 cs s ls = Inr (r, s', ls')"
    using close_each_total [OF assms(2)] by blast
  from steady_close_each [OF assms(1) this] show thesis
    by (intro that [of r "\<lparr>nd_controllers = [], nd_core = s', nd_limiters = ls'\<rparr>"]) (simp_all add: close_nodes_def c)
qed

section \<open>One core\<close>

text \<open>While the process waits it has every controller, the core in use is running, and no other is.\<close>

definition one_core :: "('s \<Rightarrow> bool) \<Rightarrow> 's server \<Rightarrow> bool" where
  "one_core lives sv \<longleftrightarrow> (sv_status sv = Running \<longrightarrow>
     None \<notin> set (sv_controllers sv) \<and> sv_vc sv < length (sv_cores sv) \<and> sv_defer sv < length (sv_cores sv) \<and>
     (\<forall>i < length (sv_cores sv). lives (sv_cores sv ! i) \<longleftrightarrow> i = sv_vc sv))"

lemma leave_status [simp]: "sv_status (leave down st sv) = st"
  by (simp add: leave_def)

lemma one_core_idle: "sv_status sv \<noteq> Running \<Longrightarrow> one_core lives sv"
  by (simp add: one_core_def)

lemma put_nodes_simps [simp]:
  "sv_status (put_nodes n sv) = sv_status sv" "sv_cores (put_nodes n sv) = (sv_cores sv)[sv_vc sv := nd_core n]"
  "sv_vc (put_nodes n sv) = sv_vc sv" "sv_defer (put_nodes n sv) = sv_defer sv"
  "sv_controllers (put_nodes n sv) = nd_controllers n" "sv_limiters (put_nodes n sv) = nd_limiters n"
  by (simp_all add: put_nodes_def put_core_def)

text \<open>What a start or a restart that ends up running has done.\<close>

lemma start_running:
  fixes watch :: bool
  assumes r: "sv_status (start_server up down envs watch b) = Running"
  obtains cf s s1 n sv where "bt_conf b = Some cf" "up s = (None, s1)"
    "start_all envs (bt_replies b) (cf_nodes cf) s1 \<lparr>lim_heap = [], lim_table = []\<rparr> = (None, n)"
    "start_server up down envs watch b = (put_nodes n sv)\<lparr>sv_status := Running\<rparr>"
    "sv_vc sv = 0" "sv_defer sv = 0" "sv_cores sv = [s1]"
proof -
  obtain cf where 1: "bt_conf b = Some cf"
    using r by (cases "bt_conf b") (auto simp: start_server_def new_server_def)
  obtain s where 2: "bt_core b (cf_cores cf) = Made s"
    using r 1 by (cases "bt_core b (cf_cores cf)") (auto simp: start_server_def new_server_def Let_def)
  obtain e s1 where 3: "up s = (e, s1)" by fastforce
  have 4: "e = None" using r 1 2 3 by (cases e) (auto simp: start_server_def new_server_def Let_def)
  obtain e2 n where 5: "start_all envs (bt_replies b) (cf_nodes cf) s1 \<lparr>lim_heap = [], lim_table = []\<rparr> = (e2, n)"
    by fastforce
  have 6: "e2 = None" "\<not> (watch \<and> bt_watch b \<noteq> None)"
    using r 1 2 3 4 5 by (auto simp: start_server_def new_server_def Let_def split: if_splits)
  show thesis
    by (rule that [of cf s s1 n "new_server\<lparr>sv_conf := cf,
          sv_log := apply_log_config (bt_can_open b) (cf_log cf) \<lparr>lg_level = ''info'', lg_file = None\<rparr>, sv_cores := [s1]\<rparr>"])
      (use 1 2 3 4 5 6 in \<open>auto simp: start_server_def new_server_def Let_def\<close>)
qed

lemma restart_running:
  assumes r: "sv_status (restart_server up down envs b sv) = Running"
  obtains cf s s1 n where "bt_conf b = Some cf" "up s = (None, s1)"
    "start_all envs (bt_replies b) (cf_nodes cf) s1 (sv_limiters sv) = (None, n)"
    "restart_server up down envs b sv = sv\<lparr>sv_log := apply_log_config (bt_can_open b) (cf_log cf) (sv_log sv),
       sv_cores := sv_cores sv @ [nd_core n], sv_limiters := nd_limiters n, sv_vc := length (sv_cores sv),
       sv_controllers := nd_controllers n, sv_conf := cf\<rparr>"
proof -
  obtain cf where 1: "bt_conf b = Some cf"
    using r by (cases "bt_conf b") (auto simp: restart_server_def)
  obtain s where 2: "bt_core b (cf_cores cf) = Made s"
    using r 1 by (cases "bt_core b (cf_cores cf)") (auto simp: restart_server_def Let_def)
  obtain e s1 where 3: "up s = (e, s1)" by fastforce
  have 4: "e = None" using r 1 2 3 by (cases e) (auto simp: restart_server_def Let_def)
  obtain e2 n where 5: "start_all envs (bt_replies b) (cf_nodes cf) s1 (sv_limiters sv) = (e2, n)"
    by fastforce
  have 6: "e2 = None"
    using r 1 2 3 4 5 by (auto simp: restart_server_def Let_def split: if_splits)
  show thesis
    by (rule that [of cf s s1 n]) (use 1 2 3 4 5 6 in \<open>simp_all add: restart_server_def Let_def\<close>)
qed

lemma restart_stopped:
  "sv_status sv = Running \<Longrightarrow> sv_status (restart_server up down envs b sv) = Running \<or>
     (\<exists>x. sv_status (restart_server up down envs b sv) = Crashed x)"
  by (simp add: restart_server_def Let_def split: option.split made.split prod.split)

locale serving = core_life up down lives
  for up :: "'s \<Rightarrow> string option \<times> 's" and down :: "'s \<Rightarrow> string option \<times> 's" and lives :: "'s \<Rightarrow> bool" +
  fixes envs :: "nat \<Rightarrow> ('b, 's) ctl_env"
  assumes envs_steady: "steady lives (env_core (envs i))"
begin

lemma start_all_lives: "start_all envs reps ncs s ls = (e, n) \<Longrightarrow> lives (nd_core n) = lives s"
  unfolding start_all_def using steady_start_nodes [OF envs_steady] by fastforce

lemma start_one_core: "one_core lives (start_server up down envs watch b)"
proof (cases "sv_status (start_server up down envs watch b) = Running")
  case True
  then show ?thesis
  proof (rule start_running)
    fix cf s s1 n sv
    assume r: "up s = (None, s1)" "start_server up down envs watch b = (put_nodes n sv)\<lparr>sv_status := Running\<rparr>"
      "sv_vc sv = 0" "sv_defer sv = 0" "sv_cores sv = [s1]"
      and n: "start_all envs (bt_replies b) (cf_nodes cf) s1 \<lparr>lim_heap = [], lim_table = []\<rparr> = (None, n)"
    show ?thesis
      unfolding r(2) using start_all_lives [OF n] start_runs [OF r(1)] start_all_full(2) [OF n] r(3-)
      by (simp add: one_core_def)
  qed
qed (rule one_core_idle)

lemma restart_one_core:
  assumes dead: "\<forall>i < length (sv_cores sv). \<not> lives (sv_cores sv ! i)" and d: "sv_defer sv < length (sv_cores sv)"
  shows "one_core lives (restart_server up down envs b sv)"
proof (cases "sv_status (restart_server up down envs b sv) = Running")
  case True
  then show ?thesis
  proof (rule restart_running)
    fix cf s s1 n
    assume r: "up s = (None, s1)" and n: "start_all envs (bt_replies b) (cf_nodes cf) s1 (sv_limiters sv) = (None, n)"
      and e: "restart_server up down envs b sv = sv\<lparr>sv_log := apply_log_config (bt_can_open b) (cf_log cf) (sv_log sv),
       sv_cores := sv_cores sv @ [nd_core n], sv_limiters := nd_limiters n, sv_vc := length (sv_cores sv),
       sv_controllers := nd_controllers n, sv_conf := cf\<rparr>"
    show ?thesis
      unfolding e using start_all_lives [OF n] start_runs [OF r] start_all_full(2) [OF n] dead d
      by (simp add: one_core_def nth_append less_Suc_eq)
  qed
qed (rule one_core_idle)

text \<open>A reload closes the nodes and the core first; what goes on has no running core.\<close>

lemma reload_cases:
  assumes sv: "one_core lives sv" "sv_status sv = Running"
  obtains (crash) sv1 where "reload_server up down envs b sv = leave down (Crashed ''Reload failed'') sv1"
    | (go) sv1 where "reload_server up down envs b sv = restart_server up down envs b sv1" "sv_controllers sv1 = []"
      "sv_vc sv1 = sv_vc sv" "sv_defer sv1 = sv_defer sv" "length (sv_cores sv1) = length (sv_cores sv)"
      "\<forall>i < length (sv_cores sv1). \<not> lives (sv_cores sv1 ! i)"
proof -
  have i: "None \<notin> set (sv_controllers sv)" "sv_vc sv < length (sv_cores sv)"
    "\<And>i. i < length (sv_cores sv) \<Longrightarrow> lives (sv_cores sv ! i) \<longleftrightarrow> i = sv_vc sv"
    using sv by (simp_all add: one_core_def)
  obtain r n where n: "close_nodes envs \<lparr>nd_controllers = sv_controllers sv, nd_core = sv_cores sv ! sv_vc sv, nd_limiters = sv_limiters sv\<rparr>
      = Inr (r, n)" "nd_controllers n = []"
    by (rule close_nodes_ok [OF envs_steady i(1)])
  obtain e s where d: "down (nd_core n) = (e, s)" by fastforce
  show thesis
  proof (cases e)
    case (Some x)
    then show ?thesis using n(1) d by (intro crash) (simp add: reload_server_def Let_def)
  next
    case None
    let ?sv1 = "put_nodes (n\<lparr>nd_core := s\<rparr>) sv"
    have "\<not> lives s" using close_stops d None by simp
    then have "\<forall>i < length (sv_cores ?sv1). \<not> lives (sv_cores ?sv1 ! i)"
      using i by (simp add: nth_list_update)
    then show ?thesis using n d None by (intro go [of ?sv1]) (simp_all add: reload_server_def Let_def)
  qed
qed

lemma reload_one_core:
  assumes "one_core lives sv" "sv_status sv = Running"
  shows "one_core lives (reload_server up down envs b sv)"
proof (rule reload_cases [OF assms])
  fix sv1
  assume go: "reload_server up down envs b sv = restart_server up down envs b sv1" "sv_controllers sv1 = []"
      "sv_vc sv1 = sv_vc sv" "sv_defer sv1 = sv_defer sv" "length (sv_cores sv1) = length (sv_cores sv)"
      "\<forall>i < length (sv_cores sv1). \<not> lives (sv_cores sv1 ! i)"
  have "sv_defer sv < length (sv_cores sv)" using assms by (simp add: one_core_def)
  then show ?thesis using restart_one_core [OF go(6)] go by simp
qed (auto intro: one_core_idle)

lemma step_one_core: "server_step lives up down envs sv sv' \<Longrightarrow> one_core lives sv \<Longrightarrow> one_core lives sv'"
proof (induction rule: server_step.induct)
  case (work sv cs s ls)
  have "None \<notin> set cs"
    using work.prems work.hyps(1,2) by (fastforce simp: one_core_def list_all2_conv_all_nth in_set_conv_nth)
  then show ?case using work by (auto simp: one_core_def nth_list_update)
next
  case (reload sv b)
  then show ?case by (simp add: reload_one_core)
next
  case (stop sv)
  then show ?case by (auto simp: stop_server_def intro!: one_core_idle split: sum.split prod.split)
qed

lemma runs_one_core:
  "(server_step lives up down envs)\<^sup>*\<^sup>* (start_server up down envs watch b) sv \<Longrightarrow> one_core lives sv"
  by (induction rule: rtranclp_induct) (auto intro: start_one_core step_one_core)

lemma stop_leaves:
  assumes sv: "one_core lives sv" "sv_status sv = Running"
  obtains n where "stop_server down envs sv = leave down Returned (put_nodes n sv)" "nd_controllers n = []" "lives (nd_core n)"
proof -
  have i: "None \<notin> set (sv_controllers sv)" "lives (sv_cores sv ! sv_vc sv)" using sv by (simp_all add: one_core_def)
  obtain r n where "close_nodes envs \<lparr>nd_controllers = sv_controllers sv, nd_core = sv_cores sv ! sv_vc sv, nd_limiters = sv_limiters sv\<rparr>
      = Inr (r, n)" "nd_controllers n = []" "lives (nd_core n) = lives (sv_cores sv ! sv_vc sv)"
    by (rule close_nodes_ok [OF envs_steady i(1)])
  then show thesis using i(2) by (intro that [of n]) (simp_all add: stop_server_def)
qed

end

section \<open>Start, reload, exit\<close>


text \<open>C12. The deferred close in \<^verbatim>\<open>serverHandle\<close> keeps the core it was given at the start. So when the process
  gets its exit signal before any reload, the core in use is closed; after a reload it is not: the
  process returns with the core in use still running, and closes the one that was closed
  long ago. The comments say that the exit closes the core.\<close>

theorem exit_after_reload_closes_old_core:
  assumes life: "core_life up down lives" and st: "\<forall>i. steady lives (env_core (envs i))"
    and run: "(server_step lives up down envs)\<^sup>*\<^sup>* (start_server up down envs watch b) sv"
    and running: "sv_status sv = Running"
  shows "sv_status (stop_server down envs sv) = Returned \<and>
    (sv_vc sv \<noteq> sv_defer sv \<longrightarrow> lives (sv_cores (stop_server down envs sv) ! sv_vc sv)) \<and>
    (sv_vc sv = sv_defer sv \<longrightarrow> (\<forall>s. fst (down s) = None) \<longrightarrow> \<not> lives (sv_cores (stop_server down envs sv) ! sv_vc sv))"
proof -
  have s: "serving up down lives envs"
    using life st by (simp add: serving_def serving_axioms_def)
  have one: "one_core lives sv" by (rule serving.runs_one_core [OF s run])
  then have v: "sv_vc sv < length (sv_cores sv)" "sv_defer sv < length (sv_cores sv)"
    using running by (simp_all add: one_core_def)
  obtain n where n: "stop_server down envs sv = leave down Returned (put_nodes n sv)" "lives (nd_core n)"
    using serving.stop_leaves [OF s one running] by blast
  have "\<not> lives (snd (down x))" if "fst (down x) = None" for x
    using core_life.close_stops [OF life, of x "snd (down x)"] that by (simp add: prod_eq_iff)
  then show ?thesis
    using v n(2) unfolding n(1) by (auto simp: leave_def put_core_def)
qed

text \<open>A configuration that cannot be read at a reload ends the process: the nodes are closed, the core is
  closed, and the process panics, so a mistake while the file is edited takes the service down. The
  comment in the watcher says that a panic in a reload must not take the process down.\<close>

theorem broken_config_ends_process:
  assumes life: "core_life up down lives" and st: "\<forall>i. steady lives (env_core (envs i))"
    and run: "(server_step lives up down envs)\<^sup>*\<^sup>* (start_server up down envs watch b) sv"
    and running: "sv_status sv = Running" and broken: "bt_conf b1 = None"
  shows "sv_status (reload_server up down envs b1 sv) = Crashed ''Reload failed''"
proof -
  have s: "serving up down lives envs"
    using life st by (simp add: serving_def serving_axioms_def)
  show ?thesis
    by (rule serving.reload_cases [OF s serving.runs_one_core [OF s run] running, of b1])
      (simp_all add: restart_server_def broken)
qed

section \<open>The Xray core as the core of the process\<close>

text \<open>The environment of a controller on another core.\<close>

definition lift_env :: "'t core_ops \<Rightarrow> ('b, 's) ctl_env \<Rightarrow> ('b, 't) ctl_env" where
  "lift_env core env = \<lparr>env_core = core, env_options = env_options env, env_parse = env_parse env,
     env_show = env_show env, env_show_users = env_show_users env, env_sha_body = env_sha_body env,
     env_sha = env_sha env, env_num = env_num env, env_re_ok = env_re_ok env, env_cert = env_cert env\<rparr>"

lemma server_core_steady: "steady xs_features (server_core c)"
  by (simp add: steady_def server_core_def with_xray_def)

interpretation xs: serving "xray_start istart" "xray_close iclose" xs_features
    "\<lambda>i. lift_env (server_core (env_core (envs i))) (envs i)" for istart iclose envs
  by unfold_locales (simp add: lift_env_def server_core_steady)

text \<open>An example: two nodes on an Xray core whose server starts and closes without error.\<close>

type_synonym toy = "(unit, string list) xray_server"

definition toy_env :: "(string, toy) ctl_env" where
  "toy_env = lift_env (server_core (env_core start_env)) start_env"

definition toy_up :: "toy \<Rightarrow> string option \<times> toy" where
  "toy_up = xray_start (Pair None)"

definition toy_down :: "toy \<Rightarrow> string option \<times> toy" where
  "toy_down = xray_close (Pair None)"

definition toy_core :: "bool \<Rightarrow> toy" where
  "toy_core up = \<lparr>xs_instance = (), xs_features = up, xs_xray = fresh_core\<rparr>"

definition toy_boot :: "(string, toy) boot" where
  "toy_boot = \<lparr>bt_conf = Some (new_conf\<lparr>cf_nodes := [demo_config 1, demo_config 2]\<rparr>), bt_core = (\<lambda>cs. Made (toy_core False)),
     bt_replies = (\<lambda>i. start_replies), bt_can_open = (\<lambda>p. True), bt_watch = None\<rparr>"

lemma toy_life: "core_life toy_up toy_down xs_features"
  unfolding toy_up_def toy_down_def by (rule xl.core_life_axioms)

lemma toy_steady: "\<forall>i. steady xs_features (env_core toy_env)"
  by (simp add: toy_env_def lift_env_def server_core_steady)

definition toy_server :: "toy server" where
  "toy_server = start_server toy_up toy_down (\<lambda>i. toy_env) True toy_boot"

lemma toy_started:
  "fst (start_all (\<lambda>i. toy_env) (\<lambda>i. start_replies) [demo_config 1, demo_config 2] (toy_core True) \<lparr>lim_heap = [], lim_table = []\<rparr>) = None"
  by code_simp

lemma toy_runs: "sv_status toy_server = Running" "sv_vc toy_server = 0" "sv_defer toy_server = 0"
proof -
  obtain n where "start_all (\<lambda>i. toy_env) (\<lambda>i. start_replies) [demo_config 1, demo_config 2] (toy_core True) \<lparr>lim_heap = [], lim_table = []\<rparr>
      = (None, n)"
    using toy_started by (auto simp: prod_eq_iff)
  then show "sv_status toy_server = Running" "sv_vc toy_server = 0" "sv_defer toy_server = 0"
    by (simp_all add: toy_server_def start_server_def toy_boot_def toy_up_def xray_start_def toy_core_def new_server_def Let_def)
qed

text \<open>A reload with a configuration that has lost its nodes.\<close>

definition toy_boot2 :: "(string, toy) boot" where
  "toy_boot2 = toy_boot\<lparr>bt_conf := Some new_conf\<rparr>"

definition toy_reloaded :: "toy server" where
  "toy_reloaded = reload_server toy_up toy_down (\<lambda>i. toy_env) toy_boot2 toy_server"

lemma toy_serving: "serving toy_up toy_down xs_features (\<lambda>i. toy_env)"
  using toy_life toy_steady by (simp add: serving_def serving_axioms_def)

lemma toy_one: "one_core xs_features toy_server"
  unfolding toy_server_def by (rule serving.start_one_core [OF toy_serving])

lemma toy_reload_runs: "sv_status toy_reloaded = Running" "sv_vc toy_reloaded \<noteq> sv_defer toy_reloaded"
proof -
  have i: "None \<notin> set (sv_controllers toy_server)" "0 < length (sv_cores toy_server)"
    using toy_one toy_runs by (simp_all add: one_core_def)
  obtain r n where "close_nodes (\<lambda>i. toy_env) \<lparr>nd_controllers = sv_controllers toy_server,
      nd_core = sv_cores toy_server ! sv_vc toy_server, nd_limiters = sv_limiters toy_server\<rparr> = Inr (r, n)"
    using close_nodes_ok [OF toy_steady [rule_format] i(1)] by metis
  then show "sv_status toy_reloaded = Running" "sv_vc toy_reloaded \<noteq> sv_defer toy_reloaded"
    using i(2) toy_runs
    by (auto simp: toy_reloaded_def reload_server_def restart_server_def toy_boot2_def toy_boot_def toy_up_def toy_down_def
        xray_start_def xray_close_def toy_core_def new_conf_def start_all_def Let_def)
qed

lemma toy_reload_reached:
  "(server_step xs_features toy_up toy_down (\<lambda>i. toy_env))\<^sup>*\<^sup>* (start_server toy_up toy_down (\<lambda>i. toy_env) True toy_boot) toy_reloaded"
  unfolding toy_reloaded_def toy_server_def [symmetric] by (intro r_into_rtranclp server_step.reload toy_runs)


theorem exit_after_reload_closes_old_core_witness:
  "let sv = stop_server toy_down (\<lambda>i. toy_env) toy_reloaded in sv_status sv = Returned \<and> xs_features (sv_cores sv ! sv_vc toy_reloaded)"
  using exit_after_reload_closes_old_core [OF toy_life toy_steady toy_reload_reached toy_reload_runs(1)] toy_reload_runs(2)
  by (simp add: Let_def)

theorem broken_config_ends_process_witness:
  "sv_status (reload_server toy_up toy_down (\<lambda>i. toy_env) (toy_boot\<lparr>bt_conf := None\<rparr>) toy_reloaded) = Crashed ''Reload failed''"
  by (rule broken_config_ends_process [OF toy_life toy_steady toy_reload_reached toy_reload_runs(1)]) simp

end
