(* ===== verification/Watch.thy ===== *)
theory Watch
  imports Prelude
begin

text \<open>
  When the watcher of the configuration asks for a reload, \<^verbatim>\<open>conf/watch.go\<close>: the events of the file
  system with their times (nanoseconds), and the times at which \<^verbatim>\<open>reload\<close> is called. \<open>pre\<close> is the time
  of the last event that was taken; the zero time, before any, is \<open>None\<close>.
\<close>

record fs_event =
  ev_time :: int
  ev_chmod :: bool

definition too_early :: "int option \<Rightarrow> int \<Rightarrow> bool" where
  "too_early pre now = (case pre of None \<Rightarrow> False | Some p \<Rightarrow> p + 10 * second > now)"

text \<open>Each event that is taken starts a goroutine that sleeps for five seconds and calls \<^verbatim>\<open>reload\<close>.\<close>

fun watch_loop :: "int option \<Rightarrow> fs_event list \<Rightarrow> int list" where
  "watch_loop pre [] = []"
| "watch_loop pre (e # es) =
     (if ev_chmod e then watch_loop pre es
      else if too_early pre (ev_time e) then watch_loop pre es
      else (ev_time e + 5 * second) # watch_loop (Some (ev_time e)) es)"

text \<open>The callback puts a signal into a channel of one place, or drops it when one is waiting there.\<close>

definition offer_reload :: "nat \<Rightarrow> nat" where
  "offer_reload waiting = (if waiting < 1 then waiting + 1 else waiting)"

text \<open>The error of \<^verbatim>\<open>Watch\<close> itself: making the watcher, then adding the file and, if one is named, the DNS file.\<close>

definition watch_error :: "string option \<Rightarrow> (string \<Rightarrow> string option) \<Rightarrow> string \<Rightarrow> string \<Rightarrow> string option" where
  "watch_error made add file dns =
     (case made of
        Some e \<Rightarrow> Some (''new watcher error: '' @ e)
      | None \<Rightarrow>
          (case add file of
             Some e \<Rightarrow> Some (''watch file error: '' @ e)
           | None \<Rightarrow> if dns \<noteq> '''' then map_option (\<lambda>e. ''watch dns file error: '' @ e) (add dns) else None))"

section \<open>Which changes are seen\<close>

lemma watch_loop_after: "r \<in> set (watch_loop (Some p) es) \<Longrightarrow> p + 15 * second \<le> r"
proof (induction es arbitrary: p)
  case (Cons e es)
  then show ?case by (fastforce simp: too_early_def split: if_splits)
qed simp

lemma watch_loop_apart: "sorted_wrt (\<lambda>a b. a + 10 * second \<le> b) (watch_loop pre es)"
proof (induction es arbitrary: pre)
  case (Cons e es)
  then show ?case by (auto dest!: watch_loop_after)
qed simp

text \<open>A change is followed by a reload, or it came between five and ten seconds after an event that was taken.\<close>

definition missed :: "int list \<Rightarrow> int \<Rightarrow> bool" where
  "missed calls t \<longleftrightarrow> list_ex (\<lambda>r. r < t \<and> t < r + 5 * second) calls"

lemma missed_mono: "missed calls t \<Longrightarrow> set calls \<subseteq> set calls' \<Longrightarrow> missed calls' t"
  by (auto simp: missed_def list_ex_iff)

lemma watch_loop_covers:
  "e \<in> set es \<Longrightarrow> \<not> ev_chmod e \<Longrightarrow> (\<exists>r \<in> set (watch_loop pre es). ev_time e \<le> r) \<or> missed (watch_loop pre es) (ev_time e) \<or>
     too_early pre (ev_time e)"
proof (induction es arbitrary: pre)
  case (Cons x es)
  show ?case
  proof (cases "e = x")
    case True
    then show ?thesis using Cons.prems(2) by auto
  next
    case False
    then have e: "e \<in> set es" using Cons.prems(1) by simp
    show ?thesis
    proof (cases "ev_chmod x \<or> too_early pre (ev_time x)")
      case True
      then show ?thesis using Cons.IH [OF e Cons.prems(2), of pre] by auto
    next
      case taken: False
      have "ev_time e \<le> ev_time x + 5 * second \<or> missed (watch_loop pre (x # es)) (ev_time e)"
        if "too_early (Some (ev_time x)) (ev_time e)"
        using that taken by (auto simp: too_early_def missed_def)
      then show ?thesis
        using Cons.IH [OF e Cons.prems(2), of "Some (ev_time x)"] taken
        by (auto simp: missed_def)
    qed
  qed
qed simp

text \<open>C39. Reloads are called at least ten seconds apart. Every change of content since the watcher started is
  followed by a reload, which reads the file after it, except one that comes more than five and
  less than ten seconds after a change that was taken: its event is dropped though the reload
  has read the file already.\<close>

theorem changes_followed_by_reload:
  assumes "e \<in> set es" "\<not> ev_chmod e"
  shows "sorted_wrt (\<lambda>a b. a + 10 * second \<le> b) (watch_loop None es) \<and>
    ((\<exists>r \<in> set (watch_loop None es). ev_time e \<le> r) \<or> missed (watch_loop None es) (ev_time e))"
  using watch_loop_covers [OF assms, of None] watch_loop_apart by (auto simp: too_early_def)

theorem changes_followed_by_reload_witness:
  "let es = [\<lparr>ev_time = 0, ev_chmod = False\<rparr>, \<lparr>ev_time = 7 * second, ev_chmod = False\<rparr>]
   in watch_loop None es = [5 * second] \<and> missed (watch_loop None es) (7 * second)"
proof -
  let ?es = "[\<lparr>ev_time = 0, ev_chmod = False\<rparr>, \<lparr>ev_time = 7 * second, ev_chmod = False\<rparr>]"
  have w: "watch_loop None ?es = [5 * second]" by (simp add: too_early_def)
  have "(\<exists>r \<in> set (watch_loop None ?es). 7 * second \<le> r) \<or> missed (watch_loop None ?es) (7 * second)"
    using changes_followed_by_reload [of "\<lparr>ev_time = 7 * second, ev_chmod = False\<rparr>" ?es] by simp
  then show ?thesis unfolding Let_def w by simp
qed

end
