(* ===== verification/Status.thy ===== *)
theory Status
  imports Complex_Main PanelUsers
begin

text \<open>
  The load of the machine, \<^verbatim>\<open>node/status_linux.go\<close>, \<^verbatim>\<open>node/status_other.go\<close> and the task that reports
  it (\<^verbatim>\<open>node/controller.go\<close>). What \<^verbatim>\<open>/proc\<close> and \<^verbatim>\<open>statfs\<close> say is an argument, one text per read;
  counters are 64-bit words, as in the code. \<open>rnd\<close> rounds the result of a \<^verbatim>\<open>float64\<close> operation. The
  texts of \<^verbatim>\<open>/proc\<close> are ASCII, so the spaces are the ASCII ones.
\<close>

section \<open>Texts of \<^verbatim>\<open>/proc\<close>\<close>

definition is_space :: "char \<Rightarrow> bool" where
  "is_space c \<longleftrightarrow> (of_char c :: nat) = 32 \<or> (9 \<le> (of_char c :: nat) \<and> (of_char c :: nat) \<le> 13)"



text \<open>\<^verbatim>\<open>strings.Fields\<close>.\<close>

function split_fields :: "string \<Rightarrow> string list" where
  "split_fields s =
     (case dropWhile is_space s of
        [] \<Rightarrow> []
      | c # cs \<Rightarrow> (c # takeWhile (\<lambda>x. \<not> is_space x) cs) # split_fields (dropWhile (\<lambda>x. \<not> is_space x) cs))"
  by auto

termination
proof (relation "measure length")
  fix s c cs assume "dropWhile is_space s = c # cs"
  then have "length (c # cs) \<le> length s" by (metis length_dropWhile_le)
  moreover have "length (dropWhile (\<lambda>x. \<not> is_space x) cs) \<le> length cs" by (rule length_dropWhile_le)
  ultimately show "(dropWhile (\<lambda>x. \<not> is_space x) cs, s) \<in> measure length" by simp
qed simp

declare split_fields.simps [simp del]

section \<open>CPU\<close>

record status_checker =
  last_idle :: "64 word"
  last_total :: "64 word"

definition new_status_checker :: status_checker where
  "new_status_checker = \<lparr>last_idle = 0, last_total = 0\<rparr>"

text \<open>The sums over the counters of a line: idle and iowait, and all.\<close>

fun cpu_sums :: "nat \<Rightarrow> string list \<Rightarrow> 64 word \<times> 64 word \<Rightarrow> (64 word \<times> 64 word) option" where
  "cpu_sums i [] (idle, tot) = Some (idle, tot)"
| "cpu_sums i (f # fs) (idle, tot) =
     (case parse_uint f of
        Inl e \<Rightarrow> None
      | Inr v \<Rightarrow> cpu_sums (i + 1) fs (if i = 3 \<or> i = 4 then idle + word_of_int v else idle, tot + word_of_int v))"

definition cpu_sample :: "string \<Rightarrow> (64 word \<times> 64 word) option" where
  "cpu_sample text =
     (case find (has_prefix ''cpu '') (split_on newline text) of
        None \<Rightarrow> None
      | Some l \<Rightarrow> if length (split_fields l) < 8 then None else cpu_sums 0 (tl (split_fields l)) (0, 0))"

definition cpu_usage :: "(rat \<Rightarrow> rat) \<Rightarrow> 64 word \<Rightarrow> 64 word \<Rightarrow> rat" where
  "cpu_usage rnd dTotal dIdle =
     (let usage = rnd (rnd (rnd (of_nat (unat (dTotal - dIdle))) * 100) / rnd (of_nat (unat dTotal)));
          usage = (if usage < 0 then 0 else usage)
      in if usage > 100 then 100 else usage)"

definition check_cpu :: "(rat \<Rightarrow> rat) \<Rightarrow> string option \<Rightarrow> status_checker \<Rightarrow> rat \<times> status_checker" where
  "check_cpu rnd file s =
     (case file of
        None \<Rightarrow> (0, s)
      | Some text \<Rightarrow>
          (case cpu_sample text of
             None \<Rightarrow> (0, s)
           | Some (idle, tot) \<Rightarrow>
               (let s' = \<lparr>last_idle = idle, last_total = tot\<rparr> in
                if last_total s = 0 then (0, s')
                else if tot < last_total s then (0, s')
                else let dTotal = tot - last_total s; dIdle = idle - last_idle s in
                  if dTotal = 0 then (0, s') else (cpu_usage rnd dTotal dIdle, s'))))"

section \<open>Memory, swap and disk\<close>

text \<open>The error of \<^verbatim>\<open>ParseUint\<close> is ignored and its value used; the product wraps.\<close>

definition read_meminfo :: "string option \<Rightarrow> string \<Rightarrow> 64 word" where
  "read_meminfo file key =
     (case file of
        None \<Rightarrow> 0
      | Some text \<Rightarrow>
          (case find (has_prefix (key @ '':'')) (split_on newline text) of
             None \<Rightarrow> 0
           | Some l \<Rightarrow>
               (if length (split_fields l) < 2 then 0
                else (case parse_uint (split_fields l ! 1) of Inl (e, v) \<Rightarrow> word_of_int v | Inr v \<Rightarrow> word_of_int v) * 1024)))"

definition used_of :: "64 word \<Rightarrow> 64 word \<Rightarrow> 64 word" where
  "used_of tot free = (if tot > free then tot - free else 0)"

text \<open>Every key is a read of the file of its own.\<close>

definition check_mem :: "string option \<Rightarrow> string option \<Rightarrow> 64 word \<times> 64 word" where
  "check_mem f1 f2 =
     (let tot = read_meminfo f1 ''MemTotal''; available = read_meminfo f2 ''MemAvailable''
      in (tot, used_of tot available))"

definition check_swap :: "string option \<Rightarrow> string option \<Rightarrow> 64 word \<times> 64 word" where
  "check_swap f1 f2 =
     (let tot = read_meminfo f1 ''SwapTotal''; free = read_meminfo f2 ''SwapFree''
      in (tot, used_of tot free))"

text \<open>What \<^verbatim>\<open>statfs\<close> answers: the size of a block (signed), all blocks and the free ones.\<close>

record statfs =
  st_bsize :: int
  st_blocks :: "64 word"
  st_bfree :: "64 word"

definition check_disk :: "statfs option \<Rightarrow> 64 word \<times> 64 word" where
  "check_disk r =
     (case r of
        None \<Rightarrow> (0, 0)
      | Some st \<Rightarrow>
          (let bsize = word_of_int (st_bsize st)
           in (st_blocks st * bsize, (st_blocks st - st_bfree st) * bsize)))"

section \<open>The report\<close>

record node_status =
  ns_cpu :: rat
  ns_mem :: "64 word \<times> 64 word" \<comment> \<open>\<^verbatim>\<open>SystemSegment\<close>: total and used\<close>
  ns_swap :: "64 word \<times> 64 word"
  ns_disk :: "64 word \<times> 64 word"

text \<open>What a collection reads: \<^verbatim>\<open>/proc/stat\<close>, four times \<^verbatim>\<open>/proc/meminfo\<close>, and the root file system.\<close>

record machine =
  proc_stat :: "string option"
  mem_total :: "string option"
  mem_available :: "string option"
  swap_total :: "string option"
  swap_free :: "string option"
  root_fs :: "statfs option"

definition collect_status :: "(rat \<Rightarrow> rat) \<Rightarrow> machine \<Rightarrow> status_checker \<Rightarrow> node_status \<times> status_checker" where
  "collect_status rnd m s =
     (let mem = check_mem (mem_total m) (mem_available m);
          swap = check_swap (swap_total m) (swap_free m);
          disk = check_disk (root_fs m);
          (cpu, s') = check_cpu rnd (proc_stat m) s
      in (\<lparr>ns_cpu = cpu, ns_mem = mem, ns_swap = swap, ns_disk = disk\<rparr>, s'))"

text \<open>On other systems nothing is read.\<close>

definition collect_other :: node_status where
  "collect_other = \<lparr>ns_cpu = 0, ns_mem = (0, 0), ns_swap = (0, 0), ns_disk = (0, 0)\<rparr>"

text \<open>\<^verbatim>\<open>reportStatusTask\<close>: the body it posts, and what it is left with. An error of the panel is only
  logged, and the task goes on.\<close>

definition report_status_task ::
    "('b \<Rightarrow> string) \<Rightarrow> (rat \<Rightarrow> rat) \<Rightarrow> machine \<Rightarrow> 'b reply \<Rightarrow> client \<Rightarrow> status_checker
     \<Rightarrow> node_status \<times> string option \<times> status_checker" where
  "report_status_task show rnd m r c s =
     (case collect_status rnd m s of (st, s') \<Rightarrow> (st, report_node_status show r c, s'))"

section \<open>Reading back a text\<close>

definition is_word :: "string \<Rightarrow> bool" where
  "is_word w \<longleftrightarrow> w \<noteq> [] \<and> list_all (\<lambda>c. \<not> is_space c) w"

lemma split_fields_space [simp]: "is_space c \<Longrightarrow> split_fields (c # s) = split_fields s"
  by (simp add: split_fields.simps [of "c # s"] split_fields.simps [of s])

lemma split_fields_Nil [simp]: "split_fields [] = []"
  by (simp add: split_fields.simps)

lemma split_fields_Cons:
  "\<not> is_space x \<Longrightarrow>
     split_fields (x # t) = (x # takeWhile (\<lambda>x. \<not> is_space x) t) # split_fields (dropWhile (\<lambda>x. \<not> is_space x) t)"
  by (simp add: split_fields.simps [of "x # t"])

lemma split_fields_word:
  assumes "is_word w" "is_space c"
  shows "split_fields (w @ c # s) = w # split_fields s"
proof -
  obtain x xs where w: "w = x # xs" "\<not> is_space x" "\<forall>y \<in> set xs. \<not> is_space y"
    using assms(1) by (cases w) (auto simp: is_word_def list_all_iff)
  have "takeWhile (\<lambda>x. \<not> is_space x) (xs @ c # s) = xs" "dropWhile (\<lambda>x. \<not> is_space x) (xs @ c # s) = c # s"
    using w(3) assms(2) by (simp_all add: takeWhile_append2 dropWhile_append2)
  then show ?thesis using w assms(2) by (simp add: split_fields_Cons)
qed

lemma split_fields_one: "is_word w \<Longrightarrow> split_fields w = [w]"
  by (cases w) (auto simp: is_word_def list_all_iff split_fields_Cons takeWhile_eq_all_conv
      simp flip: dropWhile_eq_Nil_conv)

lemma split_fields_join: "list_all is_word ws \<Longrightarrow> is_space c \<Longrightarrow> split_fields (join_with [c] ws) = ws"
proof (induction ws rule: induct_list012)
  case (3 v w ws)
  then show ?case by (simp add: split_fields_word)
qed (simp_all add: split_fields_one)

lemma digit_no_space: "is_digit c \<Longrightarrow> \<not> is_space c"
  by (simp add: is_digit_def is_space_def)

lemma is_word_nat_digits: "is_word (nat_digits n)"
  using nat_digits_digits [of n] by (auto simp: is_word_def list_all_iff digit_no_space)

text \<open>A text of \<^verbatim>\<open>/proc/stat\<close>: the line of all processors with its counters, then the rest.\<close>

definition cpu_line :: "nat list \<Rightarrow> string" where
  "cpu_line cs = ''cpu  '' @ join_with '' '' (map nat_digits cs)"

definition stat_text :: "nat list \<Rightarrow> string \<Rightarrow> string" where
  "stat_text cs rest = cpu_line cs @ newline # rest"

definition idle_time :: "nat list \<Rightarrow> nat" where
  "idle_time cs = cs ! 3 + cs ! 4"

lemma split_fields_cpu_line: "split_fields (cpu_line cs) = ''cpu'' # map nat_digits cs"
proof -
  have sp: "is_space CHR '' ''" by (simp add: is_space_def)
  have c: "is_word ''cpu''" by (simp add: is_word_def is_space_def)
  have "split_fields (cpu_line cs) = split_fields (''cpu'' @ CHR '' '' # CHR '' '' # join_with '' '' (map nat_digits cs))"
    by (simp add: cpu_line_def)
  also have "\<dots> = ''cpu'' # split_fields (join_with '' '' (map nat_digits cs))"
    using sp by (simp only: split_fields_word [OF c sp] split_fields_space)
  finally show ?thesis
    using split_fields_join [OF _ sp, of "map nat_digits cs"] by (simp add: list_all_iff is_word_nat_digits)
qed

lemma newline_not_in_line: "newline \<notin> set (cpu_line cs)"
proof -
  have d: "newline \<notin> set (nat_digits n)" for n
    using nat_digits_digits [of n] by (auto simp: list_all_iff is_digit_def)
  have "newline \<notin> set (join_with '' '' (map nat_digits cs))"
    by (induction cs rule: induct_list012) (simp_all add: d)
  then show ?thesis by (simp add: cpu_line_def)
qed

fun idle_from :: "nat \<Rightarrow> nat list \<Rightarrow> nat" where
  "idle_from i [] = 0"
| "idle_from i (c # cs) = (if i = 3 \<or> i = 4 then c else 0) + idle_from (i + 1) cs"

lemma idle_from_late: "4 < i \<Longrightarrow> idle_from i cs = 0"
  by (induction cs arbitrary: i) auto

lemma idle_from_all: "4 < length cs \<Longrightarrow> idle_from 0 cs = idle_time cs"
proof -
  assume "4 < length cs"
  then obtain a b c d e rest where "cs = a # b # c # d # e # rest"
    by (auto simp: numeral_eq_Suc Suc_less_eq2 length_Suc_conv neq_Nil_conv)
  then show ?thesis by (simp add: idle_time_def idle_from_late)
qed

lemma cpu_sums_read:
  "list_all (\<lambda>c. c < 2 ^ 64) cs \<Longrightarrow>
     cpu_sums i (map nat_digits cs) (a, b) = Some (a + of_nat (idle_from i cs), b + of_nat (sum_list cs))"
  by (induction cs arbitrary: i a b) (auto simp: parse_uint_nat_digits add_ac)

section \<open>What the CPU figure says\<close>

lemma cpu_sample_text:
  assumes "6 < length cs" "sum_list cs < 2 ^ 64"
  shows "cpu_sample (stat_text cs rest) = Some (of_nat (idle_time cs), of_nat (sum_list cs))"
proof -
  have "list_all (\<lambda>c. c < 2 ^ 64) cs"
    using assms(2) member_le_sum_list [of _ cs] by (force simp: list_all_iff)
  then have "cpu_sums 0 (map nat_digits cs) (0, 0) = Some (of_nat (idle_time cs), of_nat (sum_list cs))"
    using assms(1) by (simp add: cpu_sums_read idle_from_all)
  moreover have "find (has_prefix ''cpu '') (split_on newline (stat_text cs rest)) = Some (cpu_line cs)"
    by (simp add: stat_text_def split_on_first newline_not_in_line) (simp add: cpu_line_def has_prefix_def)
  ultimately show ?thesis
    using assms(1) by (simp add: cpu_sample_def split_fields_cpu_line)
qed

text \<open>The state after a first look.\<close>

definition looked_at :: "nat list \<Rightarrow> status_checker \<Rightarrow> bool" where
  "looked_at cs s \<longleftrightarrow> s = \<lparr>last_idle = of_nat (idle_time cs), last_total = of_nat (sum_list cs)\<rparr>"

lemma looked_at_check:
  "6 < length cs \<Longrightarrow> sum_list cs < 2 ^ 64 \<Longrightarrow> looked_at cs (snd (check_cpu rnd (Some (stat_text cs r)) s))"
  by (simp add: check_cpu_def cpu_sample_text looked_at_def Let_def)

lemma idle_le_sum: "6 < length cs \<Longrightarrow> idle_time cs \<le> sum_list cs"
proof -
  assume "6 < length cs"
  then obtain a b c d e rest where "cs = a # b # c # d # e # rest"
    by (auto simp: numeral_eq_Suc Suc_less_eq2 length_Suc_conv neq_Nil_conv)
  then show ?thesis by (simp add: idle_time_def)
qed

lemma unat_small: "n < 2 ^ 64 \<Longrightarrow> unat (of_nat n :: 64 word) = n"
  by (simp add: unat_of_nat)

lemma second_look:
  assumes cs: "looked_at cs s" "6 < length cs" "0 < sum_list cs" and ds: "6 < length ds" "sum_list ds < 2 ^ 64"
    and up: "sum_list cs < sum_list ds"
  shows "fst (check_cpu rnd (Some (stat_text ds r)) s) =
    cpu_usage rnd (of_nat (sum_list ds - sum_list cs)) (of_nat (idle_time ds) - of_nat (idle_time cs))"
proof -
  have u: "unat (of_nat (sum_list cs) :: 64 word) = sum_list cs" "unat (of_nat (sum_list ds) :: 64 word) = sum_list ds"
    using up ds(2) by (simp_all only: unat_small)
  have "(of_nat (sum_list cs) :: 64 word) < of_nat (sum_list ds)"
    unfolding word_less_nat_alt u by (rule up)
  moreover have "(of_nat (sum_list cs) :: 64 word) \<noteq> 0"
    using u(1) cs(3) by (metis less_irrefl unat_0)
  moreover have "(of_nat (sum_list ds) :: 64 word) - of_nat (sum_list cs) = of_nat (sum_list ds - sum_list cs)"
    using up by (simp add: of_nat_diff)
  ultimately show ?thesis
    using cs(1) ds by (auto simp: check_cpu_def cpu_sample_text looked_at_def Let_def)
qed

text \<open>C40. Between two looks at counters that do not go back, and of which the idle ones did not grow by more
  than all together, the CPU figure is the share of the time that was not idle, rounded, and
  cut to a percentage, whatever surrounds the line in the file.\<close>

theorem cpu_usage_is_busy_share:
  assumes "6 < length cs" "0 < sum_list cs" "6 < length ds" "sum_list ds < 2 ^ 64" "sum_list cs < sum_list ds"
    and "idle_time cs \<le> idle_time ds" "idle_time ds - idle_time cs \<le> sum_list ds - sum_list cs"
  shows "fst (check_cpu rnd (Some (stat_text ds r2)) (snd (check_cpu rnd (Some (stat_text cs r1)) s))) =
    (let busy = (sum_list ds - sum_list cs) - (idle_time ds - idle_time cs);
         u = rnd (rnd (rnd (of_nat busy) * 100) / rnd (of_nat (sum_list ds - sum_list cs)))
     in max 0 (min 100 u))"
proof -
  let ?all = "sum_list ds - sum_list cs" and ?idle = "idle_time ds - idle_time cs"
  have l: "looked_at cs (snd (check_cpu rnd (Some (stat_text cs r1)) s))"
    using assms by (intro looked_at_check) simp_all
  have "(of_nat ?all :: 64 word) - (of_nat (idle_time ds) - of_nat (idle_time cs)) = of_nat (?all - ?idle)"
    using assms(6,7) by (simp only: of_nat_diff)
  moreover have "unat (of_nat (?all - ?idle) :: 64 word) = ?all - ?idle" "unat (of_nat ?all :: 64 word) = ?all"
    using assms(4) by (auto intro!: unat_small)
  ultimately show ?thesis
    using second_look [OF l assms(1-5)] by (simp add: cpu_usage_def Let_def)
qed

theorem cpu_usage_is_busy_share_witness:
  "fst (check_cpu id (Some (stat_text [200, 0, 150, 1000, 50, 0, 0] [])) (snd (check_cpu id (Some (stat_text [100, 0, 50, 800, 50, 0, 0] [])) new_status_checker))) = 50"
  using cpu_usage_is_busy_share [of "[100, 0, 50, 800, 50, 0, 0]" "[200, 0, 150, 1000, 50, 0, 0]" id "[]" "[]" new_status_checker]
  by (simp add: idle_time_def Let_def)

text \<open>When the idle counters go back while the sum grows (the kernel's iowait may), the difference
  of the idle time wraps and the report says 100 % load, whatever the load was. The comment
  promises 0 after a counter went back. \<open>rnd\<close> is monotone and exact on integers up to \<open>2 ^ 53\<close>.\<close>

theorem idle_going_back_is_full_load:
  assumes rnd: "mono rnd" "\<forall>n \<le> 2 ^ 53. rnd (of_nat n) = of_nat n"
    and cs: "6 < length cs" "0 < sum_list cs" and ds: "6 < length ds" "sum_list ds < 2 ^ 64"
    and up: "sum_list cs < sum_list ds" and down: "idle_time ds < idle_time cs"
    and small: "(sum_list ds - sum_list cs + (idle_time cs - idle_time ds)) * 100 \<le> 2 ^ 53"
  shows "fst (check_cpu rnd (Some (stat_text ds r2)) (snd (check_cpu rnd (Some (stat_text cs r1)) s))) = 100"
proof -
  let ?all = "sum_list ds - sum_list cs" and ?gone = "idle_time cs - idle_time ds"
  have l: "looked_at cs (snd (check_cpu rnd (Some (stat_text cs r1)) s))"
    using cs ds up by (intro looked_at_check) simp_all
  have "(of_nat ?all :: 64 word) - (of_nat (idle_time ds) - of_nat (idle_time cs)) = of_nat (?all + ?gone)"
    using down by (simp add: of_nat_diff)
  moreover have "unat (of_nat (?all + ?gone) :: 64 word) = ?all + ?gone"
    using small by (auto intro!: unat_small simp del: of_nat_add)
  ultimately have u: "unat ((of_nat ?all :: 64 word) - (of_nat (idle_time ds) - of_nat (idle_time cs))) = ?all + ?gone"
    "unat (of_nat ?all :: 64 word) = ?all"
    using ds(2) by (simp_all only:) (auto intro!: unat_small)
  have ex: "rnd (of_nat (?all + ?gone)) = of_nat (?all + ?gone)" "rnd (of_nat ?all) = of_nat ?all"
    "rnd (of_nat ((?all + ?gone) * 100)) = of_nat ((?all + ?gone) * 100)" "rnd (of_nat 100) = of_nat 100"
    using small by (intro rnd(2) [rule_format]; simp)+
  have "rnd (of_nat 100) \<le> rnd (of_nat ((?all + ?gone) * 100) / of_nat ?all)"
    using up by (intro monoD [OF rnd(1)]) (simp add: field_simps)
  then have "100 \<le> rnd (rnd (rnd (of_nat (?all + ?gone)) * 100) / rnd (of_nat ?all))"
    using ex by (simp only: of_nat_mult of_nat_numeral)
  then have "cpu_usage rnd (of_nat ?all) (of_nat (idle_time ds) - of_nat (idle_time cs)) = 100"
    unfolding cpu_usage_def Let_def u by (simp only: split: if_split) linarith
  then show ?thesis
    using second_look [OF l cs ds up] by (simp only:)
qed

theorem idle_going_back_is_full_load_witness:
  "fst (check_cpu id (Some (stat_text [110, 0, 60, 890, 40, 0, 0] [])) (snd (check_cpu id (Some (stat_text [100, 0, 50, 800, 140, 0, 0] [])) new_status_checker))) = 100"
  by (rule idle_going_back_is_full_load) (simp_all add: mono_def idle_time_def)

section \<open>What is reported\<close>

lemma cpu_usage_range: "0 \<le> cpu_usage rnd a b \<and> cpu_usage rnd a b \<le> 100"
  by (simp add: cpu_usage_def Let_def)

lemma check_cpu_range: "0 \<le> fst (check_cpu rnd f s) \<and> fst (check_cpu rnd f s) \<le> 100"
  by (simp add: check_cpu_def Let_def cpu_usage_range split: option.split prod.split)

lemma used_of_le: "used_of a b \<le> a"
  by (auto simp: used_of_def word_le_nat_alt word_less_nat_alt unat_sub_if')

lemma disk_fits:
  fixes blocks free bsize :: "64 word"
  assumes "free \<le> blocks" "unat blocks * unat bsize < 2 ^ 64"
  shows "(blocks - free) * bsize \<le> blocks * bsize"
proof -
  have d: "unat (blocks - free) \<le> unat blocks"
    using assms(1) by (auto simp: word_le_nat_alt unat_sub_if')
  then have "unat (blocks - free) * unat bsize < 2 ^ 64"
    using assms(2) by (meson le_less_trans mult_le_mono1)
  then show ?thesis
    using assms(2) d by (simp add: word_le_nat_alt unat_word_ariths)
qed

text \<open>Every report is in range, whatever the files say, in any state: the CPU figure is a percentage,
  no more memory or swap is used than there is, and the same holds of the disk when its
  size in bytes fits 64 bits.\<close>

theorem status_in_range:
  assumes "collect_status rnd m s = (st, s')"
  shows "0 \<le> ns_cpu st \<and> ns_cpu st \<le> 100 \<and> snd (ns_mem st) \<le> fst (ns_mem st) \<and> snd (ns_swap st) \<le> fst (ns_swap st) \<and>
    (\<forall>fs. root_fs m = Some fs \<longrightarrow> st_bfree fs \<le> st_blocks fs \<longrightarrow>
       unat (st_blocks fs) * unat (word_of_int (st_bsize fs) :: 64 word) < 2 ^ 64 \<longrightarrow> snd (ns_disk st) \<le> fst (ns_disk st))"
proof -
  have "st = \<lparr>ns_cpu = fst (check_cpu rnd (proc_stat m) s), ns_mem = check_mem (mem_total m) (mem_available m),
      ns_swap = check_swap (swap_total m) (swap_free m), ns_disk = check_disk (root_fs m)\<rparr>"
    using assms by (auto simp: collect_status_def Let_def split: prod.splits)
  then show ?thesis
    using check_cpu_range [of rnd "proc_stat m" s] disk_fits
    by (auto simp: check_mem_def check_swap_def check_disk_def used_of_le Let_def)
qed

definition demo_machine :: machine where
  "demo_machine = \<lparr>proc_stat = Some ''cpu  1 2 3 4 5 6 7 8'', mem_total = Some ''MemTotal: 16 kB'',
     mem_available = Some ''MemAvailable: 4 kB'', swap_total = Some ''SwapTotal: x kB'', swap_free = None,
     root_fs = Some \<lparr>st_bsize = 4096, st_blocks = 10, st_bfree = 4\<rparr>\<rparr>"

theorem status_in_range_witness:
  "let st = fst (collect_status id demo_machine new_status_checker) in
   ns_mem st = (16384, 12288) \<and> ns_swap st = (0, 0) \<and> snd (ns_disk st) \<le> fst (ns_disk st) \<and> ns_cpu st \<le> 100"
proof -
  let ?st = "fst (collect_status id demo_machine new_status_checker)"
  have m: "ns_mem ?st = (16384, 12288)" "ns_swap ?st = (0, 0)"
    by (simp_all add: collect_status_def demo_machine_def check_mem_def check_swap_def read_meminfo_def used_of_def
        has_prefix_def split_fields.simps is_space_def parse_uint_def is_digit_def digit_val_def Let_def split: prod.split)
  have "unat (10 :: 64 word) * unat (word_of_int 4096 :: 64 word) < 2 ^ 64" by simp
  then show ?thesis
    using status_in_range [OF surjective_pairing [of "collect_status id demo_machine new_status_checker"]] m
    by (simp add: Let_def demo_machine_def)
qed

end
