(* ===== verification/Cert.thy ===== *)
theory Cert
  imports Complex_Main Files
begin

text \<open>
  Certificates, \<^verbatim>\<open>node/cert.go\<close> and \<^verbatim>\<open>node/lego.go\<close>: the request at the start of a node, the account at the
  certificate authority, and the daily renewal. The ACME library, the authority, X.509, PEM and
  JSON encodings are arguments (\<open>acme\<close>); the calls made to the authority are logged in order.
\<close>

section \<open>The account and the authority\<close>

record ('r, 'k) lego_user =
  lu_email :: string
  lu_registration :: "'r option"
  lu_key :: "'k option"
  lu_encoded :: string \<comment> \<open>\<^verbatim>\<open>KeyEncoded\<close>\<close>

record resource =
  rs_cert :: string
  rs_key :: string

datatype ca_call = Register string | Obtain string | Renew string string

record ('r, 'k) acme =
  am_gen_key :: "string + 'k"
  am_marshal_key :: "'k \<Rightarrow> string + string"
  am_parse_key :: "string \<Rightarrow> string + 'k"
  am_pem :: "string \<Rightarrow> string \<Rightarrow> string" \<comment> \<open>\<^verbatim>\<open>pem.Encode\<close>: the type and the bytes\<close>
  am_unpem :: "string \<Rightarrow> string option"
  am_encode :: "('r, 'k) lego_user \<Rightarrow> string + string" \<comment> \<open>JSON of the exported fields\<close>
  am_decode :: "string \<Rightarrow> ('r, 'k) lego_user \<Rightarrow> string + ('r, 'k) lego_user"
  am_client :: "('r, 'k) lego_user \<Rightarrow> string option" \<comment> \<open>the error of \<^verbatim>\<open>lego.NewClient\<close>\<close>
  am_register :: "('r, 'k) lego_user \<Rightarrow> string + 'r"
  am_http :: "string option"
  am_dns :: "string \<Rightarrow> (string, string) gomap \<Rightarrow> string option"
  am_set_dns :: "string option"
  am_obtain :: "string \<Rightarrow> string + resource"
  am_renew :: "string \<Rightarrow> string \<Rightarrow> string + resource"
  am_until :: "string \<Rightarrow> string + int" \<comment> \<open>parse a certificate; nanoseconds until it ends\<close>
  am_rsa :: "string + string" \<comment> \<open>a new RSA key, PKCS 1\<close>
  am_self_sign :: "string \<Rightarrow> string \<Rightarrow> string + string"

record cert_world =
  wd_disk :: disk
  wd_calls :: "ca_call list"

definition set_disk :: "disk \<Rightarrow> cert_world \<Rightarrow> cert_world" where
  "set_disk d w = w\<lparr>wd_disk := d\<rparr>"

definition log_call :: "ca_call \<Rightarrow> cert_world \<Rightarrow> cert_world" where
  "log_call c w = w\<lparr>wd_calls := wd_calls w @ [c]\<rparr>"

text \<open>An operation on the disk, and \<open>f\<close> around its error.\<close>

definition on_disk :: "(string \<Rightarrow> string) \<Rightarrow> (disk \<Rightarrow> string option \<times> disk) \<Rightarrow> cert_world \<Rightarrow> string option \<times> cert_world" where
  "on_disk f act w = (case act (wd_disk w) of (e, d) \<Rightarrow> (map_option f e, set_disk d w))"

section \<open>Writing certificates\<close>

definition check_path :: "os_errors \<Rightarrow> string \<Rightarrow> disk \<Rightarrow> string option \<times> disk" where
  "check_path oe p d =
     (if is_exist oe d (path_dir p) then (None, d)
      else case mkdir_all oe (path_dir p) d of (e, d') \<Rightarrow> (map_option (\<lambda>x. ''create dir error: '' @ x) e, d'))"

text \<open>\<^verbatim>\<open>strings.NewReplacer\<close> of two strings, \<^verbatim>\<open>parseParams\<close>.\<close>

function replace_params :: "string \<Rightarrow> string \<Rightarrow> string \<Rightarrow> string" where
  "replace_params domain email s =
     (if s = '''' then ''''
      else if has_prefix ''{domain}'' s then domain @ replace_params domain email (drop 8 s)
      else if has_prefix ''{email}'' s then email @ replace_params domain email (drop 7 s)
      else hd s # replace_params domain email (tl s))"
  by auto

termination by (relation "measure (\<lambda>(d, e, s). length s)") auto

declare replace_params.simps [simp del]

definition parse_params :: "cert_config \<Rightarrow> string \<Rightarrow> string" where
  "parse_params c p = replace_params (cc_domain c) (cc_email c) p"

definition write_cert :: "os_errors \<Rightarrow> cert_config \<Rightarrow> resource \<Rightarrow> disk \<Rightarrow> string option \<times> disk" where
  "write_cert oe c r d =
     (case check_path oe (cc_cert_file c) d of
        (Some e, d1) \<Rightarrow> (Some (''check path error: '' @ e), d1)
      | (None, d1) \<Rightarrow>
          (case write_file oe (parse_params c (cc_cert_file c)) (rs_cert r) 420 d1 of \<comment> \<open>\<^verbatim>\<open>0644\<close>\<close>
             (Some e, d2) \<Rightarrow> (Some e, d2)
           | (None, d2) \<Rightarrow>
               (case check_path oe (cc_key_file c) d2 of
                  (Some e, d3) \<Rightarrow> (Some (''check path error: '' @ e), d3)
                | (None, d3) \<Rightarrow> write_file oe (parse_params c (cc_key_file c)) (rs_key r) 420 d3)))"

section \<open>The account\<close>

definition encode_private :: "('r, 'k) acme \<Rightarrow> 'k \<Rightarrow> string + string" where
  "encode_private am k = (case am_marshal_key am k of Inl e \<Rightarrow> Inl e | Inr b \<Rightarrow> Inr (am_pem am ''EC PRIVATE KEY'' b))"

definition decode_private :: "('r, 'k) acme \<Rightarrow> string \<Rightarrow> string + 'k" where
  "decode_private am s =
     (case am_unpem am s of
        None \<Rightarrow> Inl ''decode private key failed: invalid PEM block''
      | Some b \<Rightarrow> am_parse_key am b)"

text \<open>\<^verbatim>\<open>Save\<close>; the key is set when it is called.\<close>

definition save_user ::
    "('r, 'k) acme \<Rightarrow> os_errors \<Rightarrow> string \<Rightarrow> 'k \<Rightarrow> ('r, 'k) lego_user \<Rightarrow> disk \<Rightarrow> (string + ('r, 'k) lego_user) \<times> disk" where
  "save_user am oe p k u d =
     (case check_path oe p d of
        (Some e, d1) \<Rightarrow> (Inl (''check path error: '' @ e), d1)
      | (None, d1) \<Rightarrow>
          (let u1 = u\<lparr>lu_encoded := (case encode_private am k of Inl e \<Rightarrow> '''' | Inr s \<Rightarrow> s)\<rparr> in
           case open_trunc oe p 420 d1 of
             (Some e, d2) \<Rightarrow> (Inl e, d2)
           | (None, d2) \<Rightarrow>
               (case am_encode am u1 of
                  Inl e \<Rightarrow> (Inl (''marshal json error: '' @ e), d2)
                | Inr text \<Rightarrow>
                    (case write_open oe p text d2 of
                       (Some e, d3) \<Rightarrow> (Inl (''marshal json error: '' @ e), d3)
                     | (None, d3) \<Rightarrow> (Inr (u1\<lparr>lu_encoded := ''''\<rparr>), d3)))))"

definition load_user ::
    "('r, 'k) acme \<Rightarrow> os_errors \<Rightarrow> string \<Rightarrow> ('r, 'k) lego_user \<Rightarrow> disk \<Rightarrow> string + ('r, 'k) lego_user" where
  "load_user am oe p u d =
     (case read_file oe p d of
        Inl e \<Rightarrow> Inl (''open file error: '' @ e)
      | Inr text \<Rightarrow>
          (case am_decode am text u of
             Inl e \<Rightarrow> Inl (''unmarshal json error: '' @ e)
           | Inr u1 \<Rightarrow>
               (case decode_private am (lu_encoded u1) of
                  Inl e \<Rightarrow> Inl (''decode private key error: '' @ e)
                | Inr k \<Rightarrow> Inr (u1\<lparr>lu_key := Some k\<rparr>))))"

definition register_user ::
    "('r, 'k) acme \<Rightarrow> os_errors \<Rightarrow> ('r, 'k) lego_user \<Rightarrow> string \<Rightarrow> cert_world \<Rightarrow> (string + ('r, 'k) lego_user) \<times> cert_world" where
  "register_user am oe u p w =
     (case am_gen_key am of
        Inl e \<Rightarrow> (Inl (''generate key error: '' @ e), w)
      | Inr k \<Rightarrow>
          (let u1 = u\<lparr>lu_key := Some k\<rparr> in
           case am_client am u1 of
             Some e \<Rightarrow> (Inl (''create lego client error: '' @ e), w)
           | None \<Rightarrow>
               (let w1 = log_call (Register (lu_email u1)) w in
                case am_register am u1 of
                  Inl e \<Rightarrow> (Inl e, w1)
                | Inr r \<Rightarrow>
                    (case save_user am oe p k (u1\<lparr>lu_registration := Some r\<rparr>) (wd_disk w1) of
                       (Inl e, d) \<Rightarrow> (Inl (''save user error: '' @ e), set_disk d w1)
                     | (Inr u2, d) \<Rightarrow> (Inr u2, set_disk d w1)))))"

definition zero_user :: "('r, 'k) lego_user" where
  "zero_user = \<lparr>lu_email = '''', lu_registration = None, lu_key = None, lu_encoded = ''''\<rparr>"

definition new_lego_user ::
    "('r, 'k) acme \<Rightarrow> os_errors \<Rightarrow> string \<Rightarrow> string \<Rightarrow> cert_world \<Rightarrow> (string + ('r, 'k) lego_user) \<times> cert_world" where
  "new_lego_user am oe p email w =
     (if is_exist oe (wd_disk w) p then
        (case load_user am oe p zero_user (wd_disk w) of
           Inl e \<Rightarrow> (Inl e, w)
         | Inr u \<Rightarrow>
             if lu_email u \<noteq> email
             then register_user am oe (u\<lparr>lu_registration := None, lu_email := email\<rparr>) p w
             else (Inr u, w))
      else register_user am oe (zero_user\<lparr>lu_email := email\<rparr>) p w)"

section \<open>The client\<close>

text \<open>\<^verbatim>\<open>SetProvider\<close> puts the configured variables into the environment of the process.\<close>

definition set_provider :: "('r, 'k) acme \<Rightarrow> cert_config \<Rightarrow> cert_world \<Rightarrow> string option \<times> cert_world" where
  "set_provider am c w =
     (if cc_mode c = ''http'' then (am_http am, w)
      else if cc_mode c = ''dns'' then
        (let d = (wd_disk w)\<lparr>dk_env := fold (\<lambda>(k, v). mput k v) (cc_dns_env c) (dk_env (wd_disk w))\<rparr>
         in (case am_dns am (cc_provider c) (dk_env d) of
               Some e \<Rightarrow> Some (''create dns challenge provider error: '' @ e)
             | None \<Rightarrow> map_option (\<lambda>e. ''set dns provider error: '' @ e) (am_set_dns am), set_disk d w))
      else (None, w))"

definition user_file :: "cert_config \<Rightarrow> string" where
  "user_file c = path_join [path_dir (cc_cert_file c), ''user'', ''user-'' @ cc_email c @ ''.json'']"

definition new_lego :: "('r, 'k) acme \<Rightarrow> os_errors \<Rightarrow> cert_config \<Rightarrow> cert_world \<Rightarrow> string option \<times> cert_world" where
  "new_lego am oe c w =
     (case new_lego_user am oe (user_file c) (cc_email c) w of
        (Inl e, w1) \<Rightarrow> (Some (''create user error: '' @ e), w1)
      | (Inr u, w1) \<Rightarrow>
          (case am_client am u of
             Some e \<Rightarrow> (Some e, w1)
           | None \<Rightarrow>
               (case set_provider am c w1 of
                  (Some e, w2) \<Rightarrow> (Some (''set provider error: '' @ e), w2)
                | (None, w2) \<Rightarrow> (None, w2))))"

definition create_cert :: "('r, 'k) acme \<Rightarrow> os_errors \<Rightarrow> cert_config \<Rightarrow> cert_world \<Rightarrow> string option \<times> cert_world" where
  "create_cert am oe c w =
     (let w1 = log_call (Obtain (cc_domain c)) w in
      case am_obtain am (cc_domain c) of
        Inl e \<Rightarrow> (Some (''obtain certificate error: '' @ e), w1)
      | Inr r \<Rightarrow> on_disk (\<lambda>e. ''write certificate error: '' @ e) (write_cert oe c r) w1)"

section \<open>Renewal\<close>

text \<open>\<^verbatim>\<open>Duration.Hours\<close>: whole hours plus the rest in hours, in \<^verbatim>\<open>float64\<close> with rounding \<open>rnd\<close>; the
  conversion to \<^verbatim>\<open>int\<close> truncates.\<close>

definition hours :: "(rat \<Rightarrow> rat) \<Rightarrow> int \<Rightarrow> rat" where
  "hours rnd d =
     (let h = sgn d * (\<bar>d\<bar> div (60 * minute)); nsec = d - h * (60 * minute)
      in rnd (rnd (of_int h) + rnd (rnd (of_int nsec) / of_int (60 * minute))))"

definition truncate :: "rat \<Rightarrow> int" where
  "truncate x = (if x < 0 then - \<lfloor>- x\<rfloor> else \<lfloor>x\<rfloor>)"

definition check_cert :: "('r, 'k) acme \<Rightarrow> (rat \<Rightarrow> rat) \<Rightarrow> string \<Rightarrow> string + bool" where
  "check_cert am rnd file =
     (case am_until am file of
        Inl e \<Rightarrow> Inl e
      | Inr d \<Rightarrow> Inr (\<not> truncate (rnd (hours rnd d / 24)) > 30))"

definition renew_cert :: "('r, 'k) acme \<Rightarrow> (rat \<Rightarrow> rat) \<Rightarrow> os_errors \<Rightarrow> cert_config \<Rightarrow> cert_world \<Rightarrow> string option \<times> cert_world" where
  "renew_cert am rnd oe c w =
     (case read_file oe (cc_cert_file c) (wd_disk w) of
        Inl e \<Rightarrow> (Some (''read cert file error: '' @ e), w)
      | Inr file \<Rightarrow>
          (case check_cert am rnd file of
             Inl e \<Rightarrow> (Some (''check cert error: '' @ e), w)
           | Inr expired \<Rightarrow>
               if \<not> expired then (None, w)
               else
                 (let w1 = log_call (Renew (cc_domain c) file) w in
                  case am_renew am (cc_domain c) file of
                    Inl e \<Rightarrow> (Some e, w1)
                  | Inr r \<Rightarrow> on_disk (\<lambda>e. ''write certificate error: '' @ e) (write_cert oe c r) w1)))"

text \<open>\<^verbatim>\<open>renewCertTask\<close> logs every error and goes on.\<close>

definition renew_cert_task :: "('r, 'k) acme \<Rightarrow> (rat \<Rightarrow> rat) \<Rightarrow> os_errors \<Rightarrow> cert_config \<Rightarrow> cert_world \<Rightarrow> cert_world" where
  "renew_cert_task am rnd oe c w =
     (case new_lego am oe c w of
        (Some e, w1) \<Rightarrow> w1
      | (None, w1) \<Rightarrow> snd (renew_cert am rnd oe c w1))"

section \<open>The request at the start of a node\<close>

definition generate_self ::
    "('r, 'k) acme \<Rightarrow> os_errors \<Rightarrow> string \<Rightarrow> string \<Rightarrow> string \<Rightarrow> disk \<Rightarrow> string option \<times> disk" where
  "generate_self am oe domain certPath keyPath d =
     (case am_rsa am of
        Inl e \<Rightarrow> (Some e, d)
      | Inr key \<Rightarrow>
          (case am_self_sign am domain key of
             Inl e \<Rightarrow> (Some e, d)
           | Inr cert \<Rightarrow>
               (case write_file oe certPath (am_pem am ''CERTIFICATE'' cert) 420 d of
                  (Some e, d1) \<Rightarrow> (Some e, d1)
                | (None, d1) \<Rightarrow> write_file oe keyPath (am_pem am ''RSA PRIVATE KEY'' key) 384 d1)))" \<comment> \<open>\<^verbatim>\<open>0600\<close>\<close>

definition request_cert :: "('r, 'k) acme \<Rightarrow> os_errors \<Rightarrow> cert_config \<Rightarrow> cert_world \<Rightarrow> string option \<times> cert_world" where
  "request_cert am oe c w =
     (let no_path = (cc_cert_file c = '''' \<or> cc_key_file c = '''');
          there = (is_exist oe (wd_disk w) (cc_cert_file c) \<and> is_exist oe (wd_disk w) (cc_key_file c))
      in if cc_mode c \<in> {''none'', ''''} then (None, w)
         else if cc_mode c = ''file'' then
           ((if no_path then Some ''cert file path or key file path not exist'' else None), w)
         else if cc_mode c \<in> {''dns'', ''http''} then
           (if no_path then (Some ''cert file path or key file path not exist'', w)
            else if there then (None, w)
            else case new_lego am oe c w of
                   (Some e, w1) \<Rightarrow> (Some (''create lego object error: '' @ e), w1)
                 | (None, w1) \<Rightarrow>
                     (case create_cert am oe c w1 of
                        (Some e, w2) \<Rightarrow> (Some (''create lego cert error: '' @ e), w2)
                      | (None, w2) \<Rightarrow> (None, w2)))
         else if cc_mode c = ''self'' then
           (if no_path then (Some ''cert file path or key file path not exist'', w)
            else if there then (None, w)
            else on_disk (\<lambda>e. ''generate self cert error: '' @ e)
                   (generate_self am oe (cc_domain c) (cc_cert_file c) (cc_key_file c)) w)
         else (Some (''unsupported certmode: '' @ cc_mode c), w))"

section \<open>What the steps leave on the disk\<close>

lemma check_path_frame:
  assumes "check_path oe p d = (e, d')"
  shows "dk_files d' = dk_files d" "dk_env d' = dk_env d"
  using assms by (auto simp: check_path_def mkdir_all_frame split: if_splits prod.splits)

definition kept_mode :: "disk \<Rightarrow> string \<Rightarrow> int \<Rightarrow> int" where
  "kept_mode d p perm = snd (mget ('''', perm) (dk_files d) p)"

lemma kept_mode_new [simp]: "\<not> mhas (dk_files d) p \<Longrightarrow> kept_mode d p perm = perm"
  by (simp add: kept_mode_def mget_def mhas_def split: option.splits)

lemma write_file_new:
  "write_file oe p text perm d = (None, d') \<Longrightarrow>
     map_of (dk_files d') = (map_of (dk_files d))(p \<mapsto> (text, kept_mode d p perm))"
  by (simp add: write_file_ok(4) kept_mode_def)

lemma mhas_map_of: "mhas m k \<longleftrightarrow> map_of m k \<noteq> None"
  by (auto simp: mhas_def split: option.splits)

lemma kept_mode_cong: "map_of (dk_files d) p = map_of (dk_files d') p \<Longrightarrow> kept_mode d p perm = kept_mode d' p perm"
  by (simp add: kept_mode_def mget_def)

lemma write_cert_files:
  assumes w: "write_cert oe c r d = (None, d')"
  defines "pc \<equiv> parse_params c (cc_cert_file c)" and "pk \<equiv> parse_params c (cc_key_file c)"
  shows "map_of (dk_files d') = (map_of (dk_files d))
    (pc \<mapsto> (rs_cert r, kept_mode d pc 420), pk \<mapsto> (rs_key r, if pk = pc then kept_mode d pc 420 else kept_mode d pk 420))"
proof -
  obtain d1 where 1: "check_path oe (cc_cert_file c) d = (None, d1)"
    and r1: "(case write_file oe pc (rs_cert r) 420 d1 of (Some e, d2) \<Rightarrow> (Some e, d2)
      | (None, d2) \<Rightarrow> (case check_path oe (cc_key_file c) d2 of
          (Some e, d3) \<Rightarrow> (Some (''check path error: '' @ e), d3)
        | (None, d3) \<Rightarrow> write_file oe pk (rs_key r) 420 d3)) = (None, d')"
    using w unfolding write_cert_def pc_def pk_def by (auto split: prod.splits option.splits)
  obtain d2 where 2: "write_file oe pc (rs_cert r) 420 d1 = (None, d2)"
    and r2: "(case check_path oe (cc_key_file c) d2 of
          (Some e, d3) \<Rightarrow> (Some (''check path error: '' @ e), d3)
        | (None, d3) \<Rightarrow> write_file oe pk (rs_key r) 420 d3) = (None, d')"
    using r1 by (auto split: prod.splits option.splits)
  obtain d3 where 3: "check_path oe (cc_key_file c) d2 = (None, d3)" "write_file oe pk (rs_key r) 420 d3 = (None, d')"
    using r2 by (auto split: prod.splits option.splits)
  have m1: "map_of (dk_files d2) = (map_of (dk_files d))(pc \<mapsto> (rs_cert r, kept_mode d pc 420))"
    using write_file_new [OF 2] check_path_frame(1) [OF 1] by (simp add: kept_mode_def)
  have "kept_mode d3 pk 420 = (if pk = pc then kept_mode d pc 420 else kept_mode d pk 420)"
    using m1 check_path_frame(1) [OF 3(1)] by (simp add: kept_mode_def mget_def)
  then show ?thesis
    using write_file_new [OF 3(2)] check_path_frame(1) [OF 3(1)] m1 by simp
qed

lemma save_user_files:
  assumes "save_user am oe p k u d = (r, d')"
  shows "q \<noteq> p \<Longrightarrow> map_of (dk_files d') q = map_of (dk_files d) q"
    "r = Inr v \<Longrightarrow> \<exists>text m. am_encode am (u\<lparr>lu_encoded := (case encode_private am k of Inl e \<Rightarrow> '''' | Inr s \<Rightarrow> s)\<rparr>) = Inr text
       \<and> map_of (dk_files d') p = Some (text, m) \<and> v = u\<lparr>lu_encoded := ''''\<rparr>"
  using assms
  by (auto simp: save_user_def open_trunc_def write_open_def Let_def check_path_frame
      split: prod.splits option.splits sum.splits if_splits)

lemma set_disk_simps [simp]:
  "wd_disk (set_disk d w) = d" "wd_calls (set_disk d w) = wd_calls w"
  "wd_disk (log_call k w) = wd_disk w" "wd_calls (log_call k w) = wd_calls w @ [k]"
  by (simp_all add: set_disk_def log_call_def)

lemma register_user_cases:
  assumes "register_user am oe u p w = (r, w')"
  obtains (failed) e where "r = Inl e" "wd_disk w' = wd_disk w" "\<exists>cs. wd_calls w' = wd_calls w @ cs"
    | (saved) k reg x where "am_gen_key am = Inr k" "am_register am (u\<lparr>lu_key := Some k\<rparr>) = Inr reg"
      "save_user am oe p k (u\<lparr>lu_key := Some k, lu_registration := Some reg\<rparr>) (wd_disk w) = (x, wd_disk w')"
      "r = (case x of Inl e \<Rightarrow> Inl (''save user error: '' @ e) | Inr v \<Rightarrow> Inr v)"
      "wd_calls w' = wd_calls w @ [Register (lu_email u)]"
proof (cases "am_gen_key am")
  case (Inl e)
  then show ?thesis using assms failed by (auto simp: register_user_def)
next
  case k: (Inr k)
  show ?thesis
  proof (cases "am_client am (u\<lparr>lu_key := Some k\<rparr>)")
    case (Some e)
    then show ?thesis using assms k failed by (auto simp: register_user_def Let_def)
  next
    case None
    show ?thesis
    proof (cases "am_register am (u\<lparr>lu_key := Some k\<rparr>)")
      case (Inl e)
      then show ?thesis using assms k None failed by (auto simp: register_user_def Let_def)
    next
      case (Inr reg)
      obtain x d where "save_user am oe p k (u\<lparr>lu_key := Some k, lu_registration := Some reg\<rparr>) (wd_disk w) = (x, d)"
        by fastforce
      then show ?thesis
        using assms k None Inr by (intro saved [of k reg x]) (auto simp: register_user_def Let_def split: sum.splits)
    qed
  qed
qed

lemma register_user_world:
  assumes "register_user am oe u p w = (r, w')"
  shows "q \<noteq> p \<Longrightarrow> map_of (dk_files (wd_disk w')) q = map_of (dk_files (wd_disk w)) q"
    "\<exists>cs. wd_calls w' = wd_calls w @ cs"
  by (rule register_user_cases [OF assms]; auto dest: save_user_files(1))+

lemma new_lego_user_world:
  assumes "new_lego_user am oe p email w = (r, w')"
  shows "q \<noteq> p \<Longrightarrow> map_of (dk_files (wd_disk w')) q = map_of (dk_files (wd_disk w)) q"
    "\<exists>cs. wd_calls w' = wd_calls w @ cs"
  using assms by (auto simp: new_lego_user_def dest: register_user_world split: prod.splits option.splits sum.splits if_splits)

lemma new_lego_world:
  assumes "new_lego am oe c w = (e, w')"
  shows "q \<noteq> user_file c \<Longrightarrow> map_of (dk_files (wd_disk w')) q = map_of (dk_files (wd_disk w)) q"
    "\<exists>cs. wd_calls w' = wd_calls w @ cs"
  using assms
  by (auto simp: new_lego_def set_provider_def Let_def dest: new_lego_user_world
      split: prod.splits option.splits sum.splits if_splits)

lemma create_cert_world:
  assumes "create_cert am oe c w = (None, w')"
  shows "\<exists>r. am_obtain am (cc_domain c) = Inr r \<and> write_cert oe c r (wd_disk w) = (None, wd_disk w')"
    "wd_calls w' = wd_calls w @ [Obtain (cc_domain c)]"
  using assms by (auto simp: create_cert_def on_disk_def Let_def split: prod.splits sum.splits)

lemma generate_self_files:
  assumes "generate_self am oe domain pc pk d = (None, d')"
  shows "\<exists>cert key. map_of (dk_files d') = (map_of (dk_files d))
    (pc \<mapsto> (cert, kept_mode d pc 420), pk \<mapsto> (key, if pk = pc then kept_mode d pc 420 else kept_mode d pk 384))"
proof -
  obtain cert key d1 where "write_file oe pc cert 420 d = (None, d1)" "write_file oe pk key 384 d1 = (None, d')"
    using assms by (auto simp: generate_self_def split: sum.splits prod.splits option.splits)
  then have "map_of (dk_files d1) = (map_of (dk_files d))(pc \<mapsto> (cert, kept_mode d pc 420))"
    "map_of (dk_files d') = (map_of (dk_files d1))(pk \<mapsto> (key, kept_mode d1 pk 384))"
    by (simp_all add: write_file_new)
  moreover from this have "kept_mode d1 pk 384 = (if pk = pc then kept_mode d pc 420 else kept_mode d pk 384)"
    by (simp add: kept_mode_def mget_def)
  ultimately show ?thesis by auto
qed

section \<open>Correctness of the request\<close>

text \<open>C32. A request that succeeds leaves the certificate and the key where the inbound looks for them,
  in every mode that makes them, if the paths name no placeholder; it makes nothing when both
  are there already, and in the other modes.\<close>

theorem certificate_in_place:
  assumes ok: "request_cert am oe c w = (None, w')"
    and plain: "parse_params c (cc_cert_file c) = cc_cert_file c" "parse_params c (cc_key_file c) = cc_key_file c"
  shows "if cc_mode c \<in> {''dns'', ''http'', ''self''}
    then is_exist oe (wd_disk w') (cc_cert_file c) \<and> is_exist oe (wd_disk w') (cc_key_file c) \<and>
      (is_exist oe (wd_disk w) (cc_cert_file c) \<and> is_exist oe (wd_disk w) (cc_key_file c) \<longrightarrow> w' = w)
    else cc_mode c \<in> {'''', ''none'', ''file''} \<and> w' = w"
proof (cases "cc_mode c \<in> {''dns'', ''http'', ''self''} \<and>
    \<not> (is_exist oe (wd_disk w) (cc_cert_file c) \<and> is_exist oe (wd_disk w) (cc_key_file c))")
  case False
  then show ?thesis
    using ok by (auto simp: request_cert_def Let_def split: if_splits)
next
  case True
  have "mhas (dk_files (wd_disk w')) (cc_cert_file c) \<and> mhas (dk_files (wd_disk w')) (cc_key_file c)"
  proof (cases "cc_mode c = ''self''")
    case self: True
    then have "generate_self am oe (cc_domain c) (cc_cert_file c) (cc_key_file c) (wd_disk w) = (None, wd_disk w')"
      using ok True by (auto simp: request_cert_def on_disk_def Let_def split: if_splits prod.splits)
    from generate_self_files [OF this] show ?thesis by (auto simp: mhas_map_of)
  next
    case False
    then obtain w1 where "create_cert am oe c w1 = (None, w')"
      using ok True by (auto simp: request_cert_def Let_def split: if_splits prod.splits option.splits)
    from create_cert_world(1) [OF this] show ?thesis
      using plain by (auto simp: mhas_map_of dest!: write_cert_files)
  qed
  then show ?thesis using True by (auto simp: is_exist_def)
qed

text \<open>A made-up authority and its encodings, for the examples: keys and registrations are strings.\<close>

definition demo_acme :: "(string, string) acme" where
  "demo_acme = \<lparr>am_gen_key = Inr ''k1'', am_marshal_key = (\<lambda>k. Inr k), am_parse_key = (\<lambda>b. Inr b),
     am_pem = (\<lambda>t b. t @ newline # b),
     am_unpem = (\<lambda>s. case dropWhile (\<lambda>c. c \<noteq> newline) s of [] \<Rightarrow> None | c # b \<Rightarrow> Some b),
     am_encode = (\<lambda>u. if newline \<in> set (lu_email u) \<union> set (case lu_registration u of None \<Rightarrow> '''' | Some r \<Rightarrow> r) then Inl ''bad''
        else Inr (lu_email u @ newline # (case lu_registration u of None \<Rightarrow> ''-'' | Some r \<Rightarrow> CHR ''+'' # r) @ newline # lu_encoded u)),
     am_decode = (\<lambda>s u. case split_on newline s of
        e # r # rest \<Rightarrow> Inr (u\<lparr>lu_email := e, lu_registration := (if has_prefix ''+'' r then Some (tl r) else None),
           lu_encoded := join_with [newline] rest\<rparr>)
      | _ \<Rightarrow> Inl ''bad''),
     am_client = (\<lambda>u. None), am_register = (\<lambda>u. Inr ''r1''), am_http = None, am_dns = (\<lambda>n env. None), am_set_dns = None,
     am_obtain = (\<lambda>d. Inr \<lparr>rs_cert = ''cert1'', rs_key = ''key1''\<rparr>),
     am_renew = (\<lambda>d f. Inr \<lparr>rs_cert = ''cert2'', rs_key = ''key2''\<rparr>),
     am_until = (\<lambda>f. Inr (10 * 24 * 60 * minute)), am_rsa = Inr ''rsa'', am_self_sign = (\<lambda>d k. Inr ''self'')\<rparr>"

definition no_errors :: os_errors where
  "no_errors = \<lparr>oe_stat = (\<lambda>p. False), oe_mkdir = (\<lambda>p. None), oe_open = (\<lambda>p. None), oe_write = (\<lambda>p. None), oe_read = (\<lambda>p. None)\<rparr>"

definition empty_world :: cert_world where
  "empty_world = \<lparr>wd_disk = \<lparr>dk_files = [], dk_dirs = [''/c''], dk_env = []\<rparr>, wd_calls = []\<rparr>"

definition demo_cert :: "string \<Rightarrow> string \<Rightarrow> cert_config" where
  "demo_cert mode file = \<lparr>cc_mode = mode, cc_reject_sni = False, cc_domain = ''d'', cc_cert_file = file,
     cc_key_file = ''/c/k'', cc_provider = ''cf'', cc_email = ''m'', cc_dns_env = [(''T'', ''1'')]\<rparr>"

theorem certificate_in_place_witness:
  "let w' = snd (request_cert demo_acme no_errors (demo_cert ''dns'' ''/c/x'') empty_world)
   in is_exist no_errors (wd_disk w') ''/c/x'' \<and> is_exist no_errors (wd_disk w') ''/c/k'' \<and>
      wd_calls w' = [Register ''m'', Obtain ''d'']"
proof -
  let ?c = "demo_cert ''dns'' ''/c/x''" and ?r = "request_cert demo_acme no_errors (demo_cert ''dns'' ''/c/x'') empty_world"
  have ok: "?r = (None, snd ?r)" by code_simp
  have p: "parse_params ?c (cc_cert_file ?c) = cc_cert_file ?c" "parse_params ?c (cc_key_file ?c) = cc_key_file ?c"
    by code_simp+
  have "wd_calls (snd ?r) = [Register ''m'', Obtain ''d'']" by code_simp
  then show ?thesis
    using certificate_in_place [OF ok p] by (simp add: demo_cert_def Let_def)
qed

section \<open>Placeholders in the paths\<close>

text \<open>The files of a certificate are written to the paths with the placeholders filled in, but looked
  for, and read for a renewal, under the paths as they are written. So with \<^verbatim>\<open>{domain}\<close> or \<^verbatim>\<open>{email}\<close>
  in the path, a request that succeeds has asked the authority for a certificate, leaves the
  path of the configuration without a file, so the next start asks again, and the renewal fails
  before it looks at the certificate.\<close>

theorem placeholder_certificate_not_renewed:
  assumes ok: "request_cert am oe c w = (None, w')" and mode: "cc_mode c \<in> {''dns'', ''http''}"
    and absent: "\<not> is_exist oe (wd_disk w) (cc_cert_file c)"
    and other: "cc_cert_file c \<notin> {parse_params c (cc_cert_file c), parse_params c (cc_key_file c), user_file c}"
  shows "(\<exists>cs. wd_calls w' = wd_calls w @ cs @ [Obtain (cc_domain c)]) \<and>
    mhas (dk_files (wd_disk w')) (parse_params c (cc_cert_file c)) \<and>
    \<not> mhas (dk_files (wd_disk w')) (cc_cert_file c) \<and>
    (\<exists>e. renew_cert am rnd oe c w' = (Some e, w'))"
proof -
  obtain w1 where 1: "new_lego am oe c w = (None, w1)" and 2: "create_cert am oe c w1 = (None, w')"
    using ok mode absent by (auto simp: request_cert_def Let_def split: if_splits prod.splits option.splits)
  obtain cs where cs: "wd_calls w1 = wd_calls w @ cs" using new_lego_world(2) [OF 1] by blast
  have "\<not> mhas (dk_files (wd_disk w)) (cc_cert_file c)" using absent by (simp add: is_exist_def)
  then have n1: "\<not> mhas (dk_files (wd_disk w1)) (cc_cert_file c)"
    using new_lego_world(1) [OF 1] other by (simp add: mhas_map_of)
  obtain r where r: "write_cert oe c r (wd_disk w1) = (None, wd_disk w')"
    using create_cert_world(1) [OF 2] by blast
  have n2: "\<not> mhas (dk_files (wd_disk w')) (cc_cert_file c)"
    using n1 other write_cert_files [OF r] by (auto simp: mhas_map_of)
  then have "\<exists>e. read_file oe (cc_cert_file c) (wd_disk w') = Inl e"
    by (auto simp: read_file_def mhas_map_of split: option.split)
  then have "\<exists>e. renew_cert am rnd oe c w' = (Some e, w')" by (auto simp: renew_cert_def)
  moreover have "mhas (dk_files (wd_disk w')) (parse_params c (cc_cert_file c))"
    using write_cert_files [OF r] by (auto simp: mhas_map_of)
  ultimately show ?thesis using n2 cs create_cert_world(2) [OF 2] by simp
qed

theorem placeholder_certificate_not_renewed_witness:
  "let w1 = snd (request_cert demo_acme no_errors (demo_cert ''http'' ''/c/{domain}'') empty_world);
       w2 = snd (request_cert demo_acme no_errors (demo_cert ''http'' ''/c/{domain}'') w1)
   in \<not> mhas (dk_files (wd_disk w1)) ''/c/{domain}'' \<and> wd_calls w2 = [Register ''m'', Obtain ''d'', Obtain ''d'']"
proof -
  let ?c = "demo_cert ''http'' ''/c/{domain}''"
  let ?r = "request_cert demo_acme no_errors ?c empty_world"
  have ok: "?r = (None, snd ?r)" by code_simp
  have a: "\<not> is_exist no_errors (wd_disk empty_world) (cc_cert_file ?c)" by code_simp
  have o: "cc_cert_file ?c \<notin> {parse_params ?c (cc_cert_file ?c), parse_params ?c (cc_key_file ?c), user_file ?c}" by code_simp
  have m: "cc_mode ?c \<in> {''dns'', ''http''}" by (simp add: demo_cert_def)
  have "wd_calls (snd (request_cert demo_acme no_errors ?c (snd ?r))) = [Register ''m'', Obtain ''d'', Obtain ''d'']"
    by code_simp
  then show ?thesis
    using placeholder_certificate_not_renewed [OF ok m a o] by (simp add: Let_def demo_cert_def)
qed

section \<open>When a certificate is renewed\<close>

lemma truncate_ge: "0 \<le> x \<Longrightarrow> n < truncate x \<longleftrightarrow> of_int (n + 1) \<le> x"
  by (simp add: truncate_def less_floor_iff)

lemma truncate_le: "0 \<le> n \<Longrightarrow> x \<le> of_int n \<Longrightarrow> truncate x \<le> n"
  by (auto simp: truncate_def floor_le_iff intro: order_trans [of _ 0])

text \<open>Rounding is monotone and exact on the integers of \<open>float64\<close>.\<close>

definition rounds :: "(rat \<Rightarrow> rat) \<Rightarrow> bool" where
  "rounds rnd \<longleftrightarrow> mono rnd \<and> (\<forall>n. \<bar>n\<bar> \<le> 2 ^ 53 \<longrightarrow> rnd (of_int n) = of_int n)"

lemma roundsD:
  assumes "rounds rnd"
  shows "x \<le> y \<Longrightarrow> rnd x \<le> rnd y" "\<bar>n\<bar> \<le> 2 ^ 53 \<Longrightarrow> rnd (of_int n) = of_int n"
    "\<bar>n\<bar> \<le> 2 ^ 53 \<Longrightarrow> of_int n \<le> x \<Longrightarrow> of_int n \<le> rnd x" "\<bar>n\<bar> \<le> 2 ^ 53 \<Longrightarrow> x \<le> of_int n \<Longrightarrow> rnd x \<le> of_int n"
  using assms by (auto simp: rounds_def dest: monoD)

abbreviation hour :: int where "hour \<equiv> 3600000000000"

lemma hours_ge:
  assumes r: "rounds rnd" and n: "0 \<le> n" "n \<le> 2 ^ 53" and d: "n * hour \<le> d"
  shows "of_int n \<le> hours rnd d"
proof -
  have h: "n \<le> d div hour" "0 \<le> d" using d n(1) by (auto simp: zdiv_mono1 [of "n * hour" d hour, simplified])
  have "sgn d * (\<bar>d\<bar> div hour) = d div hour" using h(2) by (cases "d = 0") auto
  moreover have "0 \<le> d - d div hour * hour" using minus_div_mult_eq_mod [of d hour] by simp
  ultimately have "of_int n \<le> rnd (of_int (sgn d * (\<bar>d\<bar> div hour)))"
    "of_int 0 \<le> rnd (rnd (of_int (d - sgn d * (\<bar>d\<bar> div hour) * hour)) / of_int hour)"
    using h n by (auto intro!: roundsD(3) [OF r] divide_nonneg_nonneg simp: roundsD(3) [OF r, of 0, simplified])
  then show ?thesis
    unfolding hours_def Let_def using n by (intro roundsD(3) [OF r]) simp_all
qed

lemma hours_le:
  assumes r: "rounds rnd" and n: "0 \<le> n" "n \<le> 2 ^ 40" and d: "d \<le> n * hour"
  shows "hours rnd d \<le> of_int n"
proof -
  define h where "h = sgn d * (\<bar>d\<bar> div hour)"
  define x where "x = d - h * hour"
  have h: "h \<le> n \<and> (h = n \<longrightarrow> x \<le> 0) \<and> x < hour"
  proof (cases "0 \<le> d")
    case True
    then have "h = d div hour" "x = d mod hour" by (cases "d = 0"; simp add: h_def x_def minus_div_mult_eq_mod)+
    moreover have "d div hour \<le> n" using zdiv_mono1 [OF d, of hour] by simp
    moreover have "d div hour = n \<Longrightarrow> d mod hour \<le> 0" using d minus_div_mult_eq_mod [of d hour] by linarith
    ultimately show ?thesis by simp
  next
    case False
    then have "h = - (- d div hour)" "x = - (- d mod hour)"
      by (simp_all add: h_def x_def minus_div_mult_eq_mod [symmetric])
    moreover have "0 \<le> - d div hour" "0 \<le> - d mod hour" using False by (simp_all add: pos_imp_zdiv_nonneg_iff)
    ultimately show ?thesis using n(1) by linarith
  qed
  have "rnd (of_int h) + rnd (rnd (of_int x) / of_int hour) \<le> of_int n"
  proof (cases "h = n")
    case True
    then have "rnd (of_int x) \<le> of_int 0" using h by (intro roundsD(4) [OF r]) simp_all
    then have "rnd (rnd (of_int x) / of_int hour) \<le> of_int 0"
      by (intro roundsD(4) [OF r]) (simp_all add: divide_le_0_iff)
    moreover have "rnd (of_int h) = of_int n" using True n by (simp add: roundsD(2) [OF r])
    ultimately show ?thesis by simp
  next
    case False
    then have "rnd (of_int h) \<le> of_int (n - 1)" using h n by (intro roundsD(4) [OF r]) simp_all
    moreover have "rnd (of_int x) \<le> of_int hour" using h by (intro roundsD(4) [OF r]) simp_all
    then have "rnd (rnd (of_int x) / of_int hour) \<le> of_int 1" by (intro roundsD(4) [OF r]) simp_all
    ultimately show ?thesis by simp
  qed
  then show ?thesis
    unfolding hours_def Let_def h_def x_def using n by (intro roundsD(4) [OF r]) (simp_all add: field_simps)
qed

text \<open>C34. The daily task asks the authority for a renewal when the certificate has at most thirty days
  left, one that has ended included, and leaves a certificate with thirty-one days or more
  alone (in between it depends on the rounding of the hours). The request names the domain and carries the
  certificate of the file.\<close>

theorem renewal_window:
  assumes r: "rounds rnd" and f: "read_file oe (cc_cert_file c) (wd_disk w) = Inr file" and u: "am_until am file = Inr left"
  shows "(left \<le> 30 * 24 * hour \<longrightarrow> wd_calls (snd (renew_cert am rnd oe c w)) = wd_calls w @ [Renew (cc_domain c) file]) \<and>
    (31 * 24 * hour \<le> left \<longrightarrow> renew_cert am rnd oe c w = (None, w))"
proof (intro conjI impI)
  assume "left \<le> 30 * 24 * hour"
  then have "hours rnd left \<le> of_int 720" by (intro hours_le [OF r]) simp_all
  then have "rnd (hours rnd left / 24) \<le> of_int 30" by (intro roundsD(4) [OF r]) simp_all
  then have "\<not> truncate (rnd (hours rnd left / 24)) > 30"
    using truncate_le [of 30 "rnd (hours rnd left / 24)"] by simp
  then have "check_cert am rnd file = Inr True" using u by (simp add: check_cert_def)
  then show "wd_calls (snd (renew_cert am rnd oe c w)) = wd_calls w @ [Renew (cc_domain c) file]"
    using f by (auto simp: renew_cert_def on_disk_def Let_def split: sum.split prod.split)
next
  assume "31 * 24 * hour \<le> left"
  then have "of_int 744 \<le> hours rnd left" by (intro hours_ge [OF r]) simp_all
  then have "of_int 31 \<le> rnd (hours rnd left / 24)" by (intro roundsD(3) [OF r]) simp_all
  then have "truncate (rnd (hours rnd left / 24)) > 30"
    by (subst truncate_ge) simp_all
  then have "check_cert am rnd file = Inr False" using u by (simp add: check_cert_def)
  then show "renew_cert am rnd oe c w = (None, w)" using f by (simp add: renew_cert_def)
qed

definition held_world :: cert_world where
  "held_world = \<lparr>wd_disk = \<lparr>dk_files = [(''/c/x'', ''old'', 420)], dk_dirs = [''/c''], dk_env = []\<rparr>, wd_calls = []\<rparr>"

theorem renewal_window_witness:
  "wd_calls (snd (renew_cert demo_acme id no_errors (demo_cert ''dns'' ''/c/x'') held_world)) = [Renew ''d'' ''old'']"
proof -
  have r: "rounds id" by (simp add: rounds_def mono_def)
  have f: "read_file no_errors (cc_cert_file (demo_cert ''dns'' ''/c/x'')) (wd_disk held_world) = Inr ''old''" by code_simp
  have u: "am_until demo_acme ''old'' = Inr (10 * 24 * hour)" by (simp add: demo_acme_def)
  show ?thesis
    using renewal_window [OF r f u] by (simp add: held_world_def demo_cert_def)
qed

section \<open>The account is kept\<close>

text \<open>The encodings give back what they were given: PEM, the key, and JSON of the exported fields.\<close>

definition encodes :: "('r, 'k) acme \<Rightarrow> bool" where
  "encodes am \<longleftrightarrow> (\<forall>b. am_unpem am (am_pem am ''EC PRIVATE KEY'' b) = Some b) \<and>
     (\<forall>k. \<exists>b. am_marshal_key am k = Inr b \<and> am_parse_key am b = Inr k) \<and>
     (\<forall>u text. am_encode am u = Inr text \<longrightarrow> am_decode am text zero_user = Inr (u\<lparr>lu_key := None\<rparr>))"

lemma decode_encode_private:
  "encodes am \<Longrightarrow> \<exists>s. encode_private am k = Inr s \<and> decode_private am s = Inr k"
proof -
  assume am: "encodes am"
  obtain b where "am_marshal_key am k = Inr b" "am_parse_key am b = Inr k"
    using am unfolding encodes_def by blast
  moreover have "am_unpem am (am_pem am ''EC PRIVATE KEY'' b) = Some b" using am by (simp add: encodes_def)
  ultimately show ?thesis by (simp add: encode_private_def decode_private_def)
qed

text \<open>C33. Once the account is registered and saved, reading it again gives the same address, registration
  and key, and the authority is not asked again: the account survives restarts.\<close>

theorem account_is_kept:
  assumes am: "encodes am" and io: "oe_read oe p = None"
    and ok: "new_lego_user am oe p email w = (Inr u, w1)"
  shows "\<exists>u'. new_lego_user am oe p email w1 = (Inr u', w1) \<and> lu_email u' = email \<and>
    lu_registration u' = lu_registration u \<and> lu_key u' = lu_key u"
proof -
  have again: ?thesis if "register_user am oe u0 p w = (Inr u, w1)" "lu_email u0 = email" for u0
  proof (rule register_user_cases [OF that(1)])
    fix k reg x
    assume s: "save_user am oe p k (u0\<lparr>lu_key := Some k, lu_registration := Some reg\<rparr>) (wd_disk w) = (x, wd_disk w1)"
      and x: "Inr u = (case x of Inl e \<Rightarrow> Inl (''save user error: '' @ e) | Inr v \<Rightarrow> Inr v)"
    obtain key where key: "encode_private am k = Inr key" "decode_private am key = Inr k"
      using decode_encode_private [OF am] by blast
    have "x = Inr u" using x by (auto split: sum.splits)
    from save_user_files(2) [OF s this] key(1) obtain doc m where
      t: "am_encode am (u0\<lparr>lu_key := Some k, lu_registration := Some reg, lu_encoded := key\<rparr>) = Inr doc"
      "map_of (dk_files (wd_disk w1)) p = Some (doc, m)"
      "u = u0\<lparr>lu_key := Some k, lu_registration := Some reg, lu_encoded := ''''\<rparr>" by auto
    have "am_decode am doc zero_user = Inr (u0\<lparr>lu_key := None, lu_registration := Some reg, lu_encoded := key\<rparr>)"
      using am t(1) by (auto simp: encodes_def)
    then have "load_user am oe p zero_user (wd_disk w1) = Inr (u0\<lparr>lu_key := Some k, lu_registration := Some reg, lu_encoded := key\<rparr>)"
      using t(2) io key(2) by (simp add: load_user_def read_file_def)
    moreover have "is_exist oe (wd_disk w1) p" using t(2) by (simp add: is_exist_def mhas_map_of)
    ultimately show ?thesis using that(2) t(3) by (simp add: new_lego_user_def)
  qed simp
  have "(\<exists>u0. register_user am oe u0 p w = (Inr u, w1) \<and> lu_email u0 = email) \<or> (w1 = w \<and> lu_email u = email)"
    using ok by (force simp: new_lego_user_def split: if_splits sum.splits)
  then show ?thesis
  proof
    assume "w1 = w \<and> lu_email u = email"
    with ok show ?thesis by auto
  qed (use again in blast)
qed

lemma demo_encodes: "encodes demo_acme"
proof -
  have "am_decode demo_acme doc zero_user = Inr (u\<lparr>lu_key := None\<rparr>)" if "am_encode demo_acme u = Inr doc" for u doc
  proof -
    obtain e r k enc where u: "u = \<lparr>lu_email = e, lu_registration = r, lu_key = k, lu_encoded = enc\<rparr>"
      by (cases u) auto
    have n: "newline \<notin> set e" "newline \<notin> set (case r of None \<Rightarrow> ''-'' | Some x \<Rightarrow> CHR ''+'' # x)"
      and d: "doc = e @ newline # (case r of None \<Rightarrow> ''-'' | Some x \<Rightarrow> CHR ''+'' # x) @ newline # enc"
      using that by (auto simp: u demo_acme_def split: if_splits option.splits)
    have "split_on newline doc = e # (case r of None \<Rightarrow> ''-'' | Some x \<Rightarrow> CHR ''+'' # x) # split_on newline enc"
      unfolding d split_on_first [OF n(1)] split_on_first [OF n(2)] by (rule refl)
    then show ?thesis
      by (simp add: u demo_acme_def zero_user_def join_split_on has_prefix_def split: option.split)
  qed
  then show ?thesis by (simp add: encodes_def) (simp add: demo_acme_def)
qed

theorem account_is_kept_witness:
  "map_sum id lu_key (fst (new_lego_user demo_acme no_errors ''/c/user/u'' ''m''
      (snd (new_lego_user demo_acme no_errors ''/c/user/u'' ''m'' empty_world)))) = Inr (Some ''k1'')"
proof -
  let ?r = "new_lego_user demo_acme no_errors ''/c/user/u'' ''m'' empty_world"
  let ?u = "\<lparr>lu_email = ''m'', lu_registration = Some ''r1'', lu_key = Some ''k1'', lu_encoded = ''''\<rparr>"
  have "?r = (Inr ?u, snd ?r)" by code_simp
  from account_is_kept [OF demo_encodes _ this]
  show ?thesis by (auto simp: no_errors_def)
qed

section \<open>Who can read a key\<close>

text \<open>A private key that the authority's client writes to a new file is readable by every user of the
  machine (\<^verbatim>\<open>0644\<close>, as the certificate), while the key of a self-signed certificate is readable by its
  owner only (\<^verbatim>\<open>0600\<close>), which the comment there calls a must.\<close>

theorem acme_key_readable_by_all:
  assumes "\<not> mhas (dk_files d) pk" "pk \<noteq> pc" "pc = parse_params c (cc_cert_file c)" "pk = parse_params c (cc_key_file c)"
  shows "(write_cert oe c r d = (None, d1) \<longrightarrow> map_of (dk_files d1) pk = Some (rs_key r, 420)) \<and>
    (generate_self am oe domain pc pk d = (None, d2) \<longrightarrow> (\<exists>key. map_of (dk_files d2) pk = Some (key, 384)))"
  using assms by (auto dest!: write_cert_files generate_self_files)

theorem acme_key_readable_by_all_witness:
  "map_of (dk_files (snd (write_cert no_errors (demo_cert ''dns'' ''/c/x'') \<lparr>rs_cert = ''c'', rs_key = ''s''\<rparr> (wd_disk empty_world)))) ''/c/k'' = Some (''s'', 420)"
proof -
  let ?c = "demo_cert ''dns'' ''/c/x''" and ?d = "wd_disk empty_world"
  let ?r = "write_cert no_errors ?c \<lparr>rs_cert = ''c'', rs_key = ''s''\<rparr> ?d"
  have ok: "?r = (None, snd ?r)" by code_simp
  have nm: "\<not> mhas (dk_files ?d) ''/c/k''" by (simp add: empty_world_def)
  have ne: "''/c/k'' \<noteq> ''/c/x''" by simp
  have p: "''/c/x'' = parse_params ?c (cc_cert_file ?c)" "''/c/k'' = parse_params ?c (cc_key_file ?c)" by code_simp+
  show ?thesis
    using conjunct1 [OF acme_key_readable_by_all [OF nm ne p], rule_format, OF ok] by simp
qed

end
