(* ===== verification/Commands.thy ===== *)
theory Commands
  imports Json
begin

text \<open>
  The commands beside the server, \<^verbatim>\<open>cmd/action_linux.go\<close>, \<^verbatim>\<open>cmd/install_linux.go\<close>, \<^verbatim>\<open>cmd/x25519.go\<close>,
  \<^verbatim>\<open>cmd/synctime.go\<close>, with \<^verbatim>\<open>common/exec\<close> and \<^verbatim>\<open>common/crypt\<close>. A command is the list of what it does, in
  order; what the shell, the keyboard, the time server and the curve answer is an argument. Messages are named by
  what they say, not by their (Chinese) text.
\<close>

section \<open>The shell\<close>

datatype msg =
    CheckError string | StartError string | StartFailed | AlreadyRunning | MaybeFailed | Started
  | StopError string | StopFailed | StopTimeout | Stopped
  | RestartError string | RestartFailed | Restarted
  | AskUninstall | Cancelled | UninstallError string | UninstallFailed | Uninstalled
  | TimeError string | SetTimeError string | SyncFailed | Synced

datatype act = Print msg | Exec string string | RunStd string "string list" | Sleep int | RemoveAll string | SetTime int

datatype exec_error = NotFound string | OtherError string

text \<open>What a program answers may depend on what was done before.\<close>

type_synonym shell = "act list \<Rightarrow> string \<Rightarrow> string \<Rightarrow> string \<times> exec_error option"

definition run_command_by_shell :: "shell \<Rightarrow> string \<Rightarrow> act list \<Rightarrow> (string \<times> exec_error option) \<times> act list" where
  "run_command_by_shell sh cmd tr =
     (case sh tr ''bash'' cmd of
        (out, Some (NotFound e)) \<Rightarrow>
          (let tr1 = tr @ [Exec ''bash'' cmd] in (sh tr1 ''sh'' cmd, tr1 @ [Exec ''sh'' cmd]))
      | r \<Rightarrow> (r, tr @ [Exec ''bash'' cmd]))"

definition error_text :: "exec_error \<Rightarrow> string" where
  "error_text e = (case e of NotFound s \<Rightarrow> s | OtherError s \<Rightarrow> s)"

text \<open>\<^verbatim>\<open>strings.Contains\<close>.\<close>

fun contains :: "string \<Rightarrow> string \<Rightarrow> bool" where
  "contains w [] \<longleftrightarrow> w = []"
| "contains w (c # s) \<longleftrightarrow> has_prefix w (c # s) \<or> contains w s"

definition check_running :: "shell \<Rightarrow> act list \<Rightarrow> (exec_error + bool) \<times> act list" where
  "check_running sh tr =
     (case run_command_by_shell sh ''systemctl status ljfxznode | grep Active'' tr of
        ((out, Some e), tr1) \<Rightarrow> (Inl e, tr1)
      | ((out, None), tr1) \<Rightarrow> (Inr (contains ''running'' out), tr1))"

section \<open>The service\<close>

text \<open>The second check of \<^verbatim>\<open>startHandle\<close> does not return after its error: its result is false then.\<close>

definition start_handle :: "shell \<Rightarrow> act list \<Rightarrow> act list" where
  "start_handle sh tr =
     (case check_running sh tr of
        (Inl e, tr1) \<Rightarrow> tr1 @ [Print (CheckError (error_text e)), Print StartFailed]
      | (Inr True, tr1) \<Rightarrow> tr1 @ [Print AlreadyRunning]
      | (Inr False, tr1) \<Rightarrow>
          (case run_command_by_shell sh ''systemctl start ljfxznode.service'' tr1 of
             ((out, Some e), tr2) \<Rightarrow> tr2 @ [Print (StartError (error_text e)), Print StartFailed]
           | ((out, None), tr2) \<Rightarrow>
               (case check_running sh (tr2 @ [Sleep (3 * second)]) of
                  (Inl e, tr3) \<Rightarrow> tr3 @ [Print (CheckError (error_text e)), Print StartFailed, Print MaybeFailed]
                | (Inr r, tr3) \<Rightarrow> tr3 @ [Print (if r then Started else MaybeFailed)])))"

definition stop_handle :: "shell \<Rightarrow> act list \<Rightarrow> act list" where
  "stop_handle sh tr =
     (case run_command_by_shell sh ''systemctl stop ljfxznode.service'' tr of
        ((out, Some e), tr1) \<Rightarrow> tr1 @ [Print (StopError (error_text e)), Print StopFailed]
      | ((out, None), tr1) \<Rightarrow>
          (case check_running sh (tr1 @ [Sleep (2 * second)]) of
             (Inl e, tr2) \<Rightarrow> tr2 @ [Print (CheckError (error_text e)), Print StopFailed]
           | (Inr r, tr2) \<Rightarrow> tr2 @ [Print (if r then StopTimeout else Stopped)]))"

definition restart_handle :: "shell \<Rightarrow> act list \<Rightarrow> act list" where
  "restart_handle sh tr =
     (case run_command_by_shell sh ''systemctl restart ljfxznode.service'' tr of
        ((out, Some e), tr1) \<Rightarrow> tr1 @ [Print (RestartError (error_text e)), Print RestartFailed]
      | ((out, None), tr1) \<Rightarrow>
          (case check_running sh tr1 of
             (Inl e, tr2) \<Rightarrow> tr2 @ [Print (CheckError (error_text e)), Print RestartFailed]
           | (Inr r, tr2) \<Rightarrow> tr2 @ [Print (if r then Restarted else MaybeFailed)]))"

section \<open>Update and uninstall\<close>

definition install_script :: string where
  "install_script = ''bash <(curl -Ls https://raw.githubusercontent.com/csdfsdffese/ljfxznode-script/master/install.sh)''"

definition update_handle :: "string \<Rightarrow> act list \<Rightarrow> act list" where
  "update_handle version tr =
     (let args = (if version = '''' then '''' else CHR '' '' # CHR 0x22 # version @ [CHR 0x22])
      in tr @ [RunStd ''bash'' [''-c'', install_script @ args]])"

text \<open>\<open>yes\<close> is what the user types.\<close>

definition uninstall_handle :: "shell \<Rightarrow> string \<Rightarrow> act list \<Rightarrow> act list" where
  "uninstall_handle sh yes tr =
     (let tr0 = tr @ [Print AskUninstall] in
      if lower yes \<noteq> ''y'' then tr0 @ [Print Cancelled]
      else
        (case run_command_by_shell sh ''systemctl stop ljfxznode&&systemctl disable ljfxznode'' tr0 of
           ((out, Some e), tr1) \<Rightarrow> tr1 @ [Print (UninstallError (error_text e)), Print UninstallFailed]
         | ((out, None), tr1) \<Rightarrow>
             (let tr2 = tr1 @ [RemoveAll ''/etc/systemd/system/ljfxznode.service'', RemoveAll ''/etc/ljfxznode/'',
                 RemoveAll ''/usr/local/ljfxznode/'', RemoveAll ''/usr/bin/ljfxznode''] in
              (case run_command_by_shell sh ''systemctl daemon-reload&&systemctl reset-failed'' tr2 of
                 ((out, Some e), tr3) \<Rightarrow> tr3 @ [Print (UninstallError (error_text e)), Print UninstallFailed]
               | ((out, None), tr3) \<Rightarrow> tr3 @ [Print Uninstalled]))))"

definition synctime_handle :: "string + int \<Rightarrow> string option \<Rightarrow> act list \<Rightarrow> act list" where
  "synctime_handle ntp_time set_error tr =
     (case ntp_time of
        Inl e \<Rightarrow> tr @ [Print (TimeError e), Print SyncFailed]
      | Inr t \<Rightarrow>
          (case set_error of
             Some e \<Rightarrow> tr @ [SetTime t, Print (SetTimeError e), Print SyncFailed]
           | None \<Rightarrow> tr @ [SetTime t, Print Synced]))"

section \<open>Keys for REALITY\<close>

definition gen_x25519_private :: "(string \<Rightarrow> 8 word list) \<Rightarrow> string \<Rightarrow> 8 word list" where
  "gen_x25519_private sha data =
     (let k0 = sha data; k1 = k0[0 := and (k0 ! 0) 248]; k2 = k1[31 := and (k1 ! 31) 127]; k3 = k2[31 := or (k2 ! 31) 64]
      in take 32 k3)"

definition err_msg :: "string \<Rightarrow> string" where
  "err_msg s = CHR 0x1B # ''[0;31m'' @ s @ CHR 0x1B # ''[0m''"

text \<open>\<open>yes\<close> and then the node id, its type and the token are typed in; \<open>curve\<close> is the multiplication of the base point, \<open>b64\<close> the
  encoding. The result is the output line.\<close>

definition execute_x25519 ::
    "(string \<Rightarrow> 8 word list) \<Rightarrow> string + 8 word list \<Rightarrow> (8 word list \<Rightarrow> string + 8 word list) \<Rightarrow> (8 word list \<Rightarrow> string)
     \<Rightarrow> string \<Rightarrow> string \<Rightarrow> string \<Rightarrow> string \<Rightarrow> string" where
  "execute_x25519 sha random curve b64 yes node_id type token =
     (case (if lower yes = ''y'' then Inr (gen_x25519_private sha (node_id @ lower type @ token)) else random) of
        Inl e \<Rightarrow> err_msg (''read rand error: '' @ e)
      | Inr private \<Rightarrow>
          (case curve private of
             Inl e \<Rightarrow> err_msg (''gen X25519 error: '' @ e)
           | Inr public \<Rightarrow> ''Private key: '' @ b64 private @ newline # ''Public key: '' @ b64 public))"

section \<open>What is promised\<close>

lemma shell_only_executes:
  "run_command_by_shell sh cmd tr = (r, tr') \<Longrightarrow> \<exists>xs. tr' = tr @ xs \<and> set xs \<subseteq> {Exec ''bash'' cmd, Exec ''sh'' cmd}"
  by (auto simp: run_command_by_shell_def Let_def split: prod.splits option.splits exec_error.splits)

text \<open>Uninstalling removes nothing unless the user has agreed and the service has been stopped and disabled
  without error; then it removes exactly the four places of the installation, once each and in
  this order, whatever else fails.\<close>

theorem uninstall_needs_consent:
  "[p \<leftarrow> map (\<lambda>a. case a of RemoveAll d \<Rightarrow> Some d | _ \<Rightarrow> None) (uninstall_handle sh yes []). p \<noteq> None] =
     (if lower yes = ''y'' \<and> snd (fst (run_command_by_shell sh ''systemctl stop ljfxznode&&systemctl disable ljfxznode'' [Print AskUninstall])) = None
      then map Some [''/etc/systemd/system/ljfxznode.service'', ''/etc/ljfxznode/'', ''/usr/local/ljfxznode/'', ''/usr/bin/ljfxznode'']
      else [])"
proof -
  have sh: "filter (\<lambda>p. p \<noteq> None) (map (\<lambda>a. case a of RemoveAll d \<Rightarrow> Some d | _ \<Rightarrow> None) tr') =
      filter (\<lambda>p. p \<noteq> None) (map (\<lambda>a. case a of RemoveAll d \<Rightarrow> Some d | _ \<Rightarrow> None) tr)"
    if r: "run_command_by_shell sh cmd tr = (x, tr')" for cmd tr x tr'
  proof -
    obtain xs where "tr' = tr @ xs" "set xs \<subseteq> {Exec ''bash'' cmd, Exec ''sh'' cmd}" using shell_only_executes [OF r] by blast
    moreover from this(2) have "filter (\<lambda>p. p \<noteq> None) (map (\<lambda>a. case a of RemoveAll d \<Rightarrow> Some d | _ \<Rightarrow> None) xs) = []"
      by (force simp: filter_empty_conv)
    ultimately show ?thesis by simp
  qed
  show ?thesis
    by (auto simp: uninstall_handle_def Let_def dest!: sh split: prod.split option.split)
qed

text \<open>A key made from the data of a node is a legal X25519 scalar: 32 bytes, a multiple of eight, with bit 254
  set and bit 255 clear, and all other bits are the hash's.\<close>

theorem generated_keys_are_scalars:
  assumes "length (sha data) = 32"
  defines "k \<equiv> gen_x25519_private sha data"
  shows "length k = 32 \<and> and (k ! 0) 7 = 0 \<and> and (k ! 31) 192 = 64 \<and> and (k ! 0) 248 = and (sha data ! 0) 248 \<and>
    and (k ! 31) 63 = and (sha data ! 31) 63 \<and> (\<forall>i \<in> {1..<31}. k ! i = sha data ! i)"
proof -
  have b: "and (and x 248) 7 = 0" "and (or (and x 127) 64) 192 = 64" "and (and x 248) 248 = and x 248"
    "and (or (and x 127) 64) 63 = and x 63" for x :: "8 word"
    by (simp_all add: and.assoc bit.conj_disj_distrib2)
  have k: "k = (sha data)[0 := and (sha data ! 0) 248, 31 := or (and (sha data ! 31) 127) 64]"
    using assms(1) by (simp add: k_def gen_x25519_private_def Let_def)
  show ?thesis
    using assms(1) by (simp add: k b)
qed

theorem generated_keys_are_scalars_witness:
  "gen_x25519_private (\<lambda>s. replicate 32 255) ''1vless'' ! 0 = 248 \<and> and (gen_x25519_private (\<lambda>s. replicate 32 255) ''1vless'' ! 31) 192 = 64"
  using generated_keys_are_scalars [of "\<lambda>s. replicate 32 255" "''1vless''"] by (simp add: gen_x25519_private_def Let_def)

end
