(* ===== verification/Kicks.thy ===== *)
theory Kicks
  imports Nodes
begin

text \<open>
  What a kick reaches: the two callbacks of the package \<^verbatim>\<open>limiter\<close>, which the dispatcher
  (\<^verbatim>\<open>DefaultDispatcher.Init\<close>) and every node (\<^verbatim>\<open>Controller.startWS\<close>) register. There is one of each in
  the process. Dispatchers and controllers are numbered in the order they were made, over all reloads.
\<close>

record kick_hooks =
  kh_local :: "nat option" \<comment> \<open>a dispatcher\<close>
  kh_reporter :: "nat option" \<comment> \<open>a controller\<close>

definition no_hooks :: kick_hooks where
  "no_hooks = \<lparr>kh_local = None, kh_reporter = None\<rparr>"

text \<open>A nil function (\<open>None\<close>) is not registered.\<close>

definition register_kick_local :: "nat option \<Rightarrow> kick_hooks \<Rightarrow> kick_hooks" where
  "register_kick_local f h = (case f of None \<Rightarrow> h | Some d \<Rightarrow> h\<lparr>kh_local := Some d\<rparr>)"

definition register_kick_reporter :: "nat option \<Rightarrow> kick_hooks \<Rightarrow> kick_hooks" where
  "register_kick_reporter f h = (case f of None \<Rightarrow> h | Some i \<Rightarrow> h\<lparr>kh_reporter := Some i\<rparr>)"

definition init_dispatcher :: "nat \<Rightarrow> kick_hooks \<Rightarrow> kick_hooks" where
  "init_dispatcher d h = register_kick_local (Some d) h"

text \<open>What the nodes of one start leave registered; \<open>i\<close> is the number of the first. A controller without a
  WebSocket client has left \<^verbatim>\<open>startWS\<close> before, or never come to it.\<close>

fun start_hooks :: "nat \<Rightarrow> 's controller option list \<Rightarrow> kick_hooks \<Rightarrow> kick_hooks" where
  "start_hooks i [] h = h"
| "start_hooks i (oc # cs) h =
     start_hooks (i + 1) cs
       (case oc of
          None \<Rightarrow> h
        | Some c \<Rightarrow> (case ws_client c of None \<Rightarrow> h | Some w \<Rightarrow> register_kick_reporter (Some i) h))"

text \<open>\<^verbatim>\<open>KickLocal\<close>, also called for a kick pushed by the panel, and the call of the reporter.\<close>

definition kick_local :: "kick_hooks \<Rightarrow> string \<Rightarrow> string \<Rightarrow> link_store list \<Rightarrow> link_store list" where
  "kick_local h email ip ds =
     (case kh_local h of None \<Rightarrow> ds | Some d \<Rightarrow> ds[d := kick_by_user_ip email ip (ds ! d)])"

definition tell_kick :: "int \<Rightarrow> int \<Rightarrow> string \<Rightarrow> string \<Rightarrow> 's controller \<Rightarrow> 's controller" where
  "tell_kick unix uid email ip c =
     c\<lparr>ws_client := map_option (\<lambda>w. snd (send_kick_report unix uid email ip w)) (ws_client c)\<rparr>"

definition report_kick ::
    "int \<Rightarrow> kick_hooks \<Rightarrow> int \<Rightarrow> string \<Rightarrow> string \<Rightarrow> 's controller option list \<Rightarrow> 's controller option list" where
  "report_kick unix h uid email ip cs =
     (case kh_reporter h of None \<Rightarrow> cs | Some i \<Rightarrow> cs[i := map_option (tell_kick unix uid email ip) (cs ! i)])"

text \<open>The callbacks of one \<^verbatim>\<open>kickDevice\<close>.\<close>

fun do_kick_call ::
    "int \<Rightarrow> kick_hooks \<Rightarrow> kick_call \<Rightarrow> link_store list \<times> 's controller option list \<Rightarrow> link_store list \<times> 's controller option list" where
  "do_kick_call unix h (CallKickLocal email ip) (ds, cs) = (kick_local h email ip ds, cs)"
| "do_kick_call unix h (CallKickReporter uid email ip) (ds, cs) = (ds, report_kick unix h uid email ip cs)"

definition run_kick ::
    "int \<Rightarrow> kick_hooks \<Rightarrow> kick \<Rightarrow> link_store list \<times> 's controller option list \<Rightarrow> link_store list \<times> 's controller option list" where
  "run_kick unix h k w = fold (do_kick_call unix h) (kick_calls (kh_local h \<noteq> None) (kh_reporter h \<noteq> None) k) w"

section \<open>The last node speaks for all\<close>

definition no_ws :: "'s controller option \<Rightarrow> bool" where
  "no_ws oc \<longleftrightarrow> (case oc of None \<Rightarrow> True | Some c \<Rightarrow> ws_client c = None)"

lemma start_hooks_append: "start_hooks i (xs @ ys) h = start_hooks (i + length xs) ys (start_hooks i xs h)"
  by (induction xs arbitrary: i h) simp_all

lemma start_hooks_no_ws: "list_all no_ws cs \<Longrightarrow> start_hooks i cs h = h"
  by (induction cs arbitrary: i h) (auto simp: no_ws_def split: option.splits)

lemma start_hooks_local: "kh_local (start_hooks i cs h) = kh_local h"
  by (induction cs arbitrary: i h) (auto simp: register_kick_reporter_def split: option.splits)

text \<open>C13. A kick is told to the panel over the WebSocket of the node that was started last, whichever
  node's limiter made it: of the controllers ever made, closed ones (\<open>old\<close>) and those of the last start,
  only the last one with a client takes the report, if it is connected and has room; every other, the
  node of the kicked user among them, is left as it was. Nodes of one process may belong to different
  panels, with other users under the same numbers.\<close>

theorem kick_told_by_last_node:
  "ws_client c = Some w \<Longrightarrow> list_all no_ws later \<Longrightarrow> kh_local h = Some d \<Longrightarrow>
   run_kick unix (start_hooks (length old) (earlier @ Some c # later) h) (uid, email, ip) (ds, old @ earlier @ Some c # later)
     = (ds[d := kick_by_user_ip email ip (ds ! d)],
        old @ earlier @ Some (c\<lparr>ws_client := Some (snd (send_kick_report unix uid email ip w))\<rparr>) # later)"
proof -
  assume w: "ws_client c = Some w" and l: "list_all no_ws later" and h: "kh_local h = Some d"
  let ?h = "start_hooks (length old) (earlier @ Some c # later) h"
  have r: "kh_reporter ?h = Some (length old + length earlier)"
    using w l by (simp add: start_hooks_append start_hooks_no_ws register_kick_reporter_def)
  have d: "kh_local ?h = Some d" using h by (simp add: start_hooks_local)
  have n: "(old @ earlier @ Some c # later) ! (length old + length earlier) = Some c"
    "(old @ earlier @ Some c # later)[length old + length earlier := x] = old @ earlier @ x # later" for x
    by (simp_all add: nth_append list_update_append)
  show ?thesis
    using w by (simp add: run_kick_def kick_calls_def kick_local_def report_kick_def tell_kick_def r d n)
qed


text \<open>Two nodes with a connection each; the kicked user is the first node's.\<close>

definition demo_connected :: "string list xray controller" where
  "demo_connected = demo_ctl\<lparr>ws_client := Some (ws_install (new_ws\<lparr>connected := True\<rparr>))\<rparr>"

theorem kick_told_by_last_node_witness:
  "\<exists>ds c2. run_kick 0 (start_hooks 0 [Some demo_connected, Some demo_connected] (init_dispatcher 0 no_hooks))
      (1, ''t|a'', ''1.1.1.1'') ([no_links], [Some demo_connected, Some demo_connected]) = (ds, [Some demo_connected, Some c2])
     \<and> map_option (map ws_event \<circ> accepted) (ws_client c2) = Some [ws_event request_devices, EvReportKick]"
proof -
  let ?w = "ws_install (new_ws\<lparr>connected := True\<rparr>)"
  have w: "ws_client demo_connected = Some ?w" by (simp add: demo_connected_def)
  have "map ws_event (accepted (snd (send_kick_report 0 1 ''t|a'' ''1.1.1.1'' ?w))) = [ws_event request_devices, EvReportKick]"
    by code_simp
  then show ?thesis
    using kick_told_by_last_node [OF w, of "[]" "init_dispatcher 0 no_hooks" 0 0 "[]" "[Some demo_connected]" 1 "''t|a''" "''1.1.1.1''" "[no_links]"]
    by (simp add: init_dispatcher_def register_kick_local_def no_hooks_def)
qed

end
