(* ===== verification/Spec2Isabelle.thy ===== *)
theory Spec2Isabelle
  imports Json5 Reports DeviceRounds Dispatch Inbound Selector Server Watch Status Cert Commands Kicks
begin

text \<open>
  A verification development of ljfxznode, a proxy node for Xboard panels: one process that runs an
  Xray core for several nodes of one or more panels, fetches their configuration and users, limits
  devices and speed, and reports traffic, devices and load.

  \<^bold>\<open>How the program works.\<close> \<^verbatim>\<open>cmd/server.go\<close> reads the configuration (\<^verbatim>\<open>conf/\<close>, cleaned of comments by
  \<^verbatim>\<open>common/json5\<close>), makes one core or a selector over several (\<^verbatim>\<open>core/\<close>), and starts one controller
  per node (\<^verbatim>\<open>node/\<close>). A controller asks the panel over REST for node and users (\<^verbatim>\<open>api/panel\<close>), makes
  the limiter of its tag (\<^verbatim>\<open>limiter/\<close>), adds inbound and users to the core, and starts its periodic
  tasks (\<^verbatim>\<open>common/task\<close>) and the WebSocket client. The dispatcher of the core
  (\<^verbatim>\<open>core/xray/app/dispatcher\<close>) asks the limiter for every new connection, attaches it to the user's
  link manager and traffic counter, sniffs it, judges it by the node's rules and hands it to an
  outbound; at the end it gives the address back to the limiter. A device over the limit makes the
  limiter choose a victim, whose links the dispatcher closes and which the panel tells other nodes.

  \<^bold>\<open>Theories.\<close> Each models what is named, with the source's names where Isabelle allows them.
  \<^item> \<open>Prelude\<close>: Go maps, strings and 64-bit integers, the interfaces \<open>keyed_store\<close> and
    \<open>kept_by_steps\<close>, decimal numbers. \<open>Json\<close>: what is used of \<^verbatim>\<open>encoding/json\<close>. \<open>Files\<close>: paths and a disk.
  \<^item> \<open>Json5\<close>: \<^verbatim>\<open>common/json5\<close>; the cleaner in place equals a structural one and keeps every literal.
  \<^item> \<open>Tasks\<close>: \<^verbatim>\<open>common/task\<close>, all interleavings of one task; one execution at a time, a channel closed once.
  \<^item> \<open>Shards\<close>, \<open>Users\<close>, \<open>Limiter\<close>: the state and every method of \<^verbatim>\<open>limiter/\<close>. \<open>LimiterInv\<close>: its invariant and
    runs. \<open>Gate\<close>: the documented policy and its equivalence with \<^verbatim>\<open>checkDeviceGate\<close>; reference counts are
    the open connections. \<open>GateRuns\<close>: the limit over runs, throttled kicks. \<open>Reports\<close>: cooldowns and reports.
  \<^item> \<open>Streams\<close>: \<^verbatim>\<open>common/rate\<close>, \<^verbatim>\<open>common/counter\<close>, \<^verbatim>\<open>countreader.go\<close>. \<open>Links\<close>: \<^verbatim>\<open>linkmanager.go\<close>; what a kick
    closes. \<open>XrayUsers\<close>: \<^verbatim>\<open>core/xray/user.go\<close>, \<^verbatim>\<open>vmess.go\<close>, \<^verbatim>\<open>trojan.go\<close>, \<^verbatim>\<open>ss.go\<close>; deletion and traffic reports.
  \<^item> \<open>Dispatcher\<close>, \<open>Sniffer\<close>, \<open>Dispatch\<close>: \<^verbatim>\<open>default.go\<close>, \<^verbatim>\<open>sniffer.go\<close>, \<^verbatim>\<open>fakednssniffer.go\<close>; any
    interleaving of connections is counted exactly, sniffing ends and loses no byte, and what the
    panel blocks reaches no outbound. \<open>Kicks\<close>: the callbacks of a kick.
  \<^item> \<open>PanelUsers\<close>, \<open>PanelNode\<close>, \<open>PanelWs\<close>: \<^verbatim>\<open>api/panel\<close>; routes and rules, ETags and hashes, the write
    queue, the reconnect delay, tables encoded by PHP.
  \<^item> \<open>Conf\<close>: \<^verbatim>\<open>conf/\<close>; nodes are loaded with numbers in range and the options of their core. \<open>Watch\<close>:
    \<^verbatim>\<open>conf/watch.go\<close>; which changes are followed by a reload.
  \<^item> \<open>Cores\<close>, \<open>Selector\<close>: \<^verbatim>\<open>core/interface.go\<close>, \<^verbatim>\<open>core/core.go\<close>, \<^verbatim>\<open>core/selector.go\<close>, \<^verbatim>\<open>core/xray/node.go\<close>.
    \<open>Inbound\<close>: \<^verbatim>\<open>core/xray/inbound.go\<close>, \<^verbatim>\<open>outbound.go\<close>, \<^verbatim>\<open>dns.go\<close>. \<open>XrayStart\<close>: \<^verbatim>\<open>core/xray/xray.go\<close>.
  \<^item> \<open>NodeUsers\<close>, \<open>Controller\<close>: \<^verbatim>\<open>node/user.go\<close>, \<^verbatim>\<open>node/controller.go\<close>, \<^verbatim>\<open>node/task.go\<close>. \<open>ControllerSync\<close>: controller,
    core and limiter hold the same users in every run. \<open>DeviceReports\<close>, \<open>DeviceRounds\<close>: the device reports.
    \<open>Nodes\<close>: \<^verbatim>\<open>node/node.go\<close>. \<open>Cert\<close>: \<^verbatim>\<open>node/cert.go\<close>, \<^verbatim>\<open>node/lego.go\<close>. \<open>Status\<close>: \<^verbatim>\<open>node/status_linux.go\<close> on words.
  \<^item> \<open>Server\<close>: \<^verbatim>\<open>cmd/server.go\<close>; one running core through all reloads. \<open>Commands\<close>: the other commands of \<^verbatim>\<open>cmd/\<close>.

  \<^bold>\<open>Correspondence.\<close> A struct is a record, its methods functions from state to result and state; an error is
  the left of a sum or \<open>Some\<close> message, a panic a value of its own where one can happen. Pointers that
  are shared (limiters by tag and by connection, traffic counters, link managers, cores) are indices
  into heaps, which is where aliasing matters. Goroutines are steps of relations (\<open>Tasks\<close>,
  \<open>PanelWs\<close>, \<open>Dispatcher\<close>, \<open>ControllerSync\<close>, \<open>Server\<close>), at the grain their locks give them. Go's order over a map is an
  argument where it can be seen. Numbers are \<open>int\<close> within 64 bits, wrapped by \<open>wrap64\<close> where the code
  can overflow, and words in \<open>Status\<close>; a duration counts nanoseconds.

  \<^bold>\<open>Interfaces.\<close> The locales state what a client relies on and are interpreted on the model: the keyed
  store on maps and on shards, the invariant of a step relation (\<open>kept_by_steps\<close>) on the limiter, the dispatcher, the tasks, the WebSocket client and
  the controller, \<open>user_manager\<close> and \<open>user_core\<close> on the Xray core, \<open>core_life\<close> on its life and \<open>serving\<close> on the process.

  \<^bold>\<open>Bounds.\<close> No function runs on fuel. \<open>run_sniffer\<close> and \<open>watch_loop\<close> take what the world does as a list:
  two turns are enough for sniffing to end, and the watcher's loop takes one event at a time. Loops over
  indices end by the distance to the end of the text.

  \<^bold>\<open>Arguments of the model.\<close> Xray (router, handlers, protocol sniffers, fake DNS, user managers, Build of its
  configuration), resty and the replies of the panel, the WebSocket library, regular expressions, SHA-256,
  the token bucket, lego and the certificate authority, X.509 and PEM, the kernel's files and counters, random
  choices, clock readings, files and environment.

  \<^bold>\<open>Not modelled.\<close> The registration of the commands with cobra and the printed version (\<^verbatim>\<open>main.go\<close>, \<^verbatim>\<open>cmd/cmd.go\<close>,
  \<^verbatim>\<open>cmd/version.go\<close>), which compute nothing; the system call that sets the clock (\<^verbatim>\<open>common/systime\<close>); code
  generated from protobuf files and imports that register parts of Xray; log lines; the delay of the
  token bucket; and the memory model below the locks and atomic values the code uses.
\<close>

end
